(* ===== verification/LB_Prelude.thy ===== *)
theory LB_Prelude
  imports Complex_Main "HOL-Library.Word" "HOL-Library.AList"
begin

text \<open>
  Shared material of the littleB development: the errors a C++ call can end with, the
  state-and-error computations the components are written in, C strings and decimal
  numbers, and the byte images of unsigned integers in both byte orders, with the lemmas
  that carry the proofs of the component theories.
\<close>

section \<open>Types\<close>

text \<open>
  Unsigned and signed C++ integers of the same width share a word type; the signed ones
  are read with \<^const>\<open>sint\<close>.
\<close>

type_synonym u16 = "16 word"
type_synonym u32 = "32 word"
type_synonym i32 = "32 word"
type_synonym u64 = "64 word"

text \<open>
  How a call can end when it does not return. \<open>AssertFail\<close> is a failed \<open>assert\<close> (the
  project is built with \<open>CMAKE_BUILD_TYPE=debug\<close>, so assertions are active), \<open>CheckFail\<close>
  a failed \<open>CHECK\<close>, \<open>NullDeref\<close> the use of a null pointer, and \<open>UndefinedBehaviour\<close>
  any other operation the C++ standard leaves undefined; the others are exceptions.
\<close>

datatype error =
    AssertFail
  | CheckFail
  | RuntimeError string
  | OutOfRange
  | Underflow
  | BadCast
  | NullDeref
  | UndefinedBehaviour string

type_synonym 'a result = "error + 'a"

text \<open>A computation on a state \<open>'s\<close>: the state it leaves survives an exception.\<close>

type_synonym ('s, 'a) action = "'s \<Rightarrow> 'a result \<times> 's"

named_theorems act_simps \<open>unfolding rules for state-and-error computations\<close>
named_theorems byte_simps \<open>byte images of unsigned integers\<close>

section \<open>State-and-error computations\<close>

definition ret_act :: "'a \<Rightarrow> ('s, 'a) action" where
  "ret_act x s = (Inr x, s)"

definition raise_act :: "error \<Rightarrow> ('s, 'a) action" where
  "raise_act e s = (Inl e, s)"

definition bind_act :: "('s, 'a) action \<Rightarrow> ('a \<Rightarrow> ('s, 'b) action) \<Rightarrow> ('s, 'b) action" where
  "bind_act m f s = (case m s of (Inl e, s') \<Rightarrow> (Inl e, s') | (Inr x, s') \<Rightarrow> f x s')"

definition bind_res :: "'a result \<Rightarrow> ('a \<Rightarrow> 'b result) \<Rightarrow> 'b result" where
  "bind_res r f = (case r of Inl e \<Rightarrow> Inl e | Inr x \<Rightarrow> f x)"

definition lift_res :: "'a result \<Rightarrow> ('s, 'a) action" where
  "lift_res r s = (r, s)"

section \<open>C strings and decimal numbers\<close>

text \<open>\<open>std::string::c_str()\<close> handed to a C interface: the bytes before the first NUL.\<close>

definition c_str :: "string \<Rightarrow> string" where
  "c_str s = takeWhile (\<lambda>c. c \<noteq> CHR 0x00) s"

definition digit_char :: "nat \<Rightarrow> char" where
  "digit_char d = char_of (48 + d)"

fun dec_nat :: "nat \<Rightarrow> string" where
  "dec_nat n = (if n < 10 then [digit_char n] else dec_nat (n div 10) @ [digit_char (n mod 10)])"

declare dec_nat.simps [simp del]

text \<open>\<open>std::to_string\<close> of a signed integer.\<close>

definition to_string :: "int \<Rightarrow> string" where
  "to_string i = (if i < 0 then CHR ''-'' # dec_nat (nat (- i)) else dec_nat (nat i))"

section \<open>Byte order\<close>

text \<open>The low \<open>w\<close> bytes of a number, least significant first, and the number read back.\<close>

primrec le_bytes :: "nat \<Rightarrow> nat \<Rightarrow> string" where
  "le_bytes 0 n = []"
| "le_bytes (Suc w) n = char_of n # le_bytes w (n div 256)"

primrec le_val :: "string \<Rightarrow> nat" where
  "le_val [] = 0"
| "le_val (c # cs) = of_char c + 256 * le_val cs"

definition be_bytes :: "nat \<Rightarrow> nat \<Rightarrow> string" where
  "be_bytes w n = rev (le_bytes w n)"

definition be_val :: "string \<Rightarrow> nat" where
  "be_val s = le_val (rev s)"

definition order_bytes :: "bool \<Rightarrow> nat \<Rightarrow> nat \<Rightarrow> string" where
  "order_bytes networkByteOrder w n = (if networkByteOrder then be_bytes w n else le_bytes w n)"

definition order_val :: "bool \<Rightarrow> string \<Rightarrow> nat" where
  "order_val networkByteOrder s = (if networkByteOrder then be_val s else le_val s)"

section \<open>Lemmas: computations\<close>

lemma ret_act_apply [simp, act_simps]: "ret_act x s = (Inr x, s)"
  by (simp add: ret_act_def)

lemma raise_act_apply [simp, act_simps]: "raise_act e s = (Inl e, s)"
  by (simp add: raise_act_def)

lemma lift_res_apply [simp, act_simps]: "lift_res r s = (r, s)"
  by (simp add: lift_res_def)

lemma bind_act_Inr [simp]: "m s = (Inr x, s') \<Longrightarrow> bind_act m f s = f x s'"
  by (simp add: bind_act_def)

lemma bind_act_Inl [simp]: "m s = (Inl e, s') \<Longrightarrow> bind_act m f s = (Inl e, s')"
  by (simp add: bind_act_def)

lemma bind_act_Inr_iff:
  "bind_act m f s = (Inr y, t) \<longleftrightarrow> (\<exists>x s'. m s = (Inr x, s') \<and> f x s' = (Inr y, t))"
  by (auto simp: bind_act_def split: prod.splits sum.splits)

lemma bind_act_assoc:
  "bind_act (bind_act m f) g = bind_act m (\<lambda>x. bind_act (f x) g)"
  by (rule ext) (auto simp: bind_act_def split: prod.splits sum.splits)

lemma bind_res_simps [simp]:
  "bind_res (Inr x) f = f x"
  "bind_res (Inl e) f = Inl e"
  by (simp_all add: bind_res_def)

text \<open>
  What a computation keeps of the state, whether it returns or not: the shape in which the
  component invariants are stated.
\<close>

definition keeps :: "('s \<Rightarrow> bool) \<Rightarrow> ('s, 'a) action \<Rightarrow> bool" where
  "keeps P m \<longleftrightarrow> (\<forall>s. P s \<longrightarrow> P (snd (m s)))"

lemma keepsI [intro?]: "(\<And>s. P s \<Longrightarrow> P (snd (m s))) \<Longrightarrow> keeps P m"
  by (simp add: keeps_def)

lemma keepsD: "keeps P m \<Longrightarrow> P s \<Longrightarrow> P (snd (m s))"
  by (simp add: keeps_def)

lemma keeps_ret [intro!]: "keeps P (ret_act x)"
  by (simp add: keeps_def)

lemma keeps_raise [intro!]: "keeps P (raise_act e)"
  by (simp add: keeps_def)

lemma keeps_bind:
  assumes "keeps P m" and "\<And>x. keeps P (f x)"
  shows "keeps P (bind_act m f)"
proof
  fix s assume "P s"
  with assms(1) have P: "P (snd (m s))" by (rule keepsD)
  show "P (snd (bind_act m f s))"
  proof (cases "m s")
    case (Pair r s')
    with P assms(2) show ?thesis
      by (cases r) (auto dest: keepsD)
  qed
qed

section \<open>Lemmas: strings and numbers\<close>

lemma c_str_no_nul: "CHR 0x00 \<notin> set s \<Longrightarrow> c_str s = s"
  by (auto simp: c_str_def takeWhile_eq_all_conv)

lemma c_str_idem [simp]: "c_str (c_str s) = c_str s"
  by (induction s) (auto simp: c_str_def dest: set_takeWhileD)

lemma c_str_nul: "c_str (s @ CHR 0x00 # t) = c_str s"
  by (induction s) (simp_all add: c_str_def)

lemma of_char_digit [simp]: "d < 10 \<Longrightarrow> of_char (digit_char d) = (48 + d :: nat)"
  by (simp add: digit_char_def)

lemma dec_nat_nonempty [simp]: "dec_nat n \<noteq> []"
  by (subst dec_nat.simps) simp

text \<open>Reading a decimal number back, which makes \<^const>\<open>dec_nat\<close> injective.\<close>

definition dec_val :: "string \<Rightarrow> nat" where
  "dec_val s = foldl (\<lambda>a c. 10 * a + (of_char c - 48)) 0 s"

lemma dec_val_append: "dec_val (s @ [c]) = 10 * dec_val s + (of_char c - 48)"
  by (simp add: dec_val_def)

lemma dec_val_dec_nat [simp]: "dec_val (dec_nat n) = n"
proof (induction n rule: dec_nat.induct)
  case (1 n)
  show ?case
  proof (cases "n < 10")
    case True
    then show ?thesis by (subst dec_nat.simps) (simp add: dec_val_def)
  next
    case False
    with "1.IH" show ?thesis by (subst dec_nat.simps) (simp add: dec_val_append)
  qed
qed

lemma dec_nat_inject [simp]: "dec_nat m = dec_nat n \<longleftrightarrow> m = n"
  by (metis dec_val_dec_nat)

lemma dec_nat_digits: "c \<in> set (dec_nat n) \<Longrightarrow> 48 \<le> (of_char c :: nat) \<and> (of_char c :: nat) < 58"
proof (induction n rule: dec_nat.induct)
  case (1 n)
  show ?case
  proof (cases "n < 10")
    case True
    with "1.prems" show ?thesis by (subst (asm) dec_nat.simps) auto
  next
    case False
    with "1" show ?thesis by (subst (asm) (2) dec_nat.simps) auto
  qed
qed

lemma minus_not_digit: "CHR ''-'' \<notin> set (dec_nat n)"
  using dec_nat_digits [of "CHR ''-''" n] by auto

lemma to_string_inject [simp]: "to_string i = to_string j \<longleftrightarrow> i = j"
proof -
  have "dec_nat m \<noteq> CHR ''-'' # s" for m s
    using minus_not_digit [of m] by (metis list.set_intros(1))
  then show ?thesis
    by (auto simp: to_string_def dest: sym split: if_splits)
qed

lemma to_string_no_nul: "CHR 0x00 \<notin> set (to_string i)"
  using dec_nat_digits [of "CHR 0x00"] by (auto simp: to_string_def)

lemma c_str_to_string [simp]: "c_str (to_string i) = to_string i"
  by (simp add: c_str_no_nul to_string_no_nul)

section \<open>Lemmas: sums over lists\<close>

lemma sum_list_map_update:
  fixes f :: "'a \<Rightarrow> nat"
  shows "i < length xs \<Longrightarrow> sum_list (map f (xs[i := x])) + f (xs ! i) = sum_list (map f xs) + f x"
  by (induction xs arbitrary: i) (auto simp: nth_Cons' split: nat.splits)

section \<open>Lemmas: byte order\<close>

lemma le_bytes_numeral [simp]:
  "le_bytes (numeral k) n = char_of n # le_bytes (pred_numeral k) (n div 256)"
  by (simp only: numeral_eq_Suc le_bytes.simps)

lemma length_le_bytes [simp, byte_simps]: "length (le_bytes w n) = w"
  by (induction w arbitrary: n) auto

lemma length_order_bytes [simp, byte_simps]: "length (order_bytes b w n) = w"
  by (simp add: order_bytes_def be_bytes_def)

lemma le_val_le_bytes: "le_val (le_bytes w n) = n mod 256 ^ w"
proof (induction w arbitrary: n)
  case (Suc w)
  have "n mod 256 ^ Suc w = n mod 256 + 256 * (n div 256 mod 256 ^ w)"
    by (simp add: mod_mult2_eq)
  with Suc show ?case by simp
qed simp

lemma order_val_order_bytes [byte_simps]: "order_val b (order_bytes b w n) = n mod 256 ^ w"
  by (simp add: order_val_def order_bytes_def be_val_def be_bytes_def le_val_le_bytes)

lemma le_val_bound: "le_val s < 256 ^ length s"
proof (induction s)
  case (Cons c s)
  have "of_char c < (256 :: nat)" by (rule nat_of_char_less_256)
  moreover from Cons have "le_val s + 1 \<le> 256 ^ length s" by simp
  then have "256 * le_val s + 256 \<le> 256 * 256 ^ length s" by linarith
  ultimately show ?case by (simp only: le_val.simps length_Cons power_Suc)
qed simp

lemma order_val_bound: "order_val b s < 256 ^ length s"
  using le_val_bound [of s] le_val_bound [of "rev s"]
  by (simp add: order_val_def be_val_def)

section \<open>Lemmas: machine integers\<close>

lemma sint_i32_small: "unat (x :: 32 word) < 2 ^ 31 \<Longrightarrow> sint x = int (unat x)"
proof -
  assume a: "unat x < 2 ^ 31"
  then have "int (unat x) < int (2 ^ 31)" by (simp only: of_nat_less_iff)
  then have "uint x < 2 ^ 31" by simp
  moreover have "- (2 ^ 31) \<le> uint x" by (rule order_trans [OF _ uint_ge_0]) simp
  ultimately have "signed_take_bit 31 (uint x) = uint x"
    by (rule signed_take_bit_int_eq_self [rotated])
  then show ?thesis by (simp add: sint_uint)
qed

lemma unat_ucast_u32: "unat (ucast (x :: 32 word) :: 64 word) = unat x"
proof -
  have "unat x < 2 ^ 64" by (rule less_trans [OF unsigned_less]) simp
  then show ?thesis by (simp add: unsigned_ucast_eq take_bit_nat_eq_self)
qed

lemma unat_ucast_u64: "unat (x :: 64 word) < 2 ^ 32 \<Longrightarrow> unat (ucast x :: 32 word) = unat x"
  by (simp add: unsigned_ucast_eq take_bit_nat_eq_self)

lemma unat_scast_i32: "unat (x :: 32 word) < 2 ^ 31 \<Longrightarrow> unat (scast x :: 64 word) = unat x"
proof -
  assume a: "unat x < 2 ^ 31"
  have "(scast x :: 64 word) = ucast x"
    using sint_i32_small[OF a] by (simp add: scast_eq)
  then show ?thesis by (simp add: unat_ucast_u32)
qed

lemma sint_plus_i32:
  assumes "0 \<le> sint (a :: 32 word) + int (unat b)" "unat (b::32 word) < 2 ^ 31"
  shows "int (unat (a + b)) = sint a + int (unat b)"
proof -
  have b: "int (unat b) < 2 ^ 31" using assms(2) by (metis of_nat_less_iff of_nat_numeral of_nat_power)
  have "a + b = word_of_int (sint a + int (unat b))" by simp
  then have "uint (a + b) = take_bit LENGTH(32) (sint a + int (unat b))"
    by (simp only: uint_word_of_int_eq)
  also have "\<dots> = sint a + int (unat b)"
    using assms(1) b sint_lt[of a] by (intro take_bit_int_eq_self) auto
  finally show ?thesis by simp
qed

lemma int_less_uint_iff [simp]: "int n < uint w \<longleftrightarrow> n < unat w"
  by (metis of_nat_less_iff of_nat_unat)

lemma uint_less_int_iff [simp]: "uint w < int n \<longleftrightarrow> unat w < n"
  by (metis of_nat_less_iff of_nat_unat)

section \<open>Evaluation of closed terms\<close>

lemmas byte_eval = char_of_def bit_0 digit_char_def dec_nat.simps to_string_def
  be_bytes_def be_val_def order_bytes_def order_val_def c_str_def

lemma sint_word_of_int_i32:
  assumes "- (2 ^ 31) \<le> k" and "k < 2 ^ 31"
  shows "sint (word_of_int k :: i32) = k"
proof -
  have "sint (word_of_int k :: i32) = signed_take_bit (LENGTH(32) - 1) k"
    by (rule sint_sbintrunc')
  also have "\<dots> = k" using assms by (intro signed_take_bit_int_eq_self) simp_all
  finally show ?thesis .
qed

end
