(* ===== verification/Folly_IO.thy ===== *)
theory Folly_IO
  imports LB_Prelude
begin

text \<open>
  The interface of \<open>folly::IOBuf\<close>, \<open>folly::IOBufQueue\<close> and \<open>folly::io::Cursor\<close> as the
  handlers use it. Folly is a git submodule and not part of the sources, so its operations
  are the fields of a record that the handler models take as an argument, and the locale
  \<open>folly_io\<close> names the documented behaviour the proofs rely on. An \<open>IOBuf\<close> chain is the
  list of the data regions of its buffers, which matters: \<open>data()\<close>, \<open>length()\<close> and
  \<open>trimStart()\<close> of an \<open>IOBuf\<close> act on the first buffer of the chain only. The record
  \<open>folly_ref\<close> is an executable instance that satisfies every law.
\<close>

section \<open>The operations\<close>

type_synonym iobuf = "string list"
type_synonym iobufq = "string list"

text \<open>
  Sizes are natural numbers, widths are in bytes. \<open>cur_skip\<close> and the reads work on what
  is left of the chain under the cursor; the writes store at the start of a buffer.
\<close>

record folly =
  q_chainLength :: "iobufq \<Rightarrow> nat"
  q_trimStart :: "nat \<Rightarrow> iobufq \<Rightarrow> iobufq result"
  q_trimStartAtMost :: "nat \<Rightarrow> iobufq \<Rightarrow> iobufq"
  q_split :: "nat \<Rightarrow> iobufq \<Rightarrow> (iobuf \<times> iobufq) result"
  cur_skip :: "nat \<Rightarrow> iobuf \<Rightarrow> iobuf result"
  cur_readBE :: "nat \<Rightarrow> iobuf \<Rightarrow> nat result"
  cur_readLE :: "nat \<Rightarrow> iobuf \<Rightarrow> nat result"
  cur_writeBE :: "nat \<Rightarrow> nat \<Rightarrow> iobuf \<Rightarrow> iobuf result"
  cur_writeLE :: "nat \<Rightarrow> nat \<Rightarrow> iobuf \<Rightarrow> iobuf result"
  io_create :: "nat \<Rightarrow> iobuf"
  io_append :: "nat \<Rightarrow> iobuf \<Rightarrow> iobuf"
  io_prependChain :: "iobuf \<Rightarrow> iobuf \<Rightarrow> iobuf"
  io_trimStart :: "nat \<Rightarrow> iobuf \<Rightarrow> iobuf"
  io_data :: "iobuf \<Rightarrow> string"
  io_computeChainDataLength :: "iobuf \<Rightarrow> nat"

section \<open>What the handlers rely on\<close>

text \<open>
  The documented contracts: a queue operation that asks for more than the queue holds
  throws \<open>std::underflow_error\<close>, a cursor that runs past the end throws
  \<open>std::out_of_range\<close>, \<open>IOBuf::create\<close> followed by \<open>append(n)\<close> gives one buffer of \<open>n\<close>
  unspecified bytes, a cursor overwrites the bytes it stands on, \<open>prependChain\<close> called on
  the head of a chain puts the argument behind the chain, and \<open>IOBuf::trimStart\<close> is only
  defined up to the length of the first buffer.
\<close>

locale folly_io =
  fixes F :: folly
  assumes chainLength: "q_chainLength F q = length (concat q)"
    and trimStart_ok: "n \<le> length (concat q) \<Longrightarrow>
        \<exists>q'. q_trimStart F n q = Inr q' \<and> concat q' = drop n (concat q)"
    and trimStart_underflow: "length (concat q) < n \<Longrightarrow> q_trimStart F n q = Inl Underflow"
    and trimStartAtMost: "concat (q_trimStartAtMost F n q) = drop n (concat q)"
    and split_ok: "n \<le> length (concat q) \<Longrightarrow>
        \<exists>f q'. q_split F n q = Inr (f, q') \<and> f \<noteq> [] \<and>
          concat f = take n (concat q) \<and> concat q' = drop n (concat q)"
    and split_underflow: "length (concat q) < n \<Longrightarrow> q_split F n q = Inl Underflow"
    and skip_ok: "n \<le> length (concat b) \<Longrightarrow>
        \<exists>c. cur_skip F n b = Inr c \<and> concat c = drop n (concat b)"
    and skip_end: "length (concat b) < n \<Longrightarrow> cur_skip F n b = Inl OutOfRange"
    and readBE: "cur_readBE F w b =
        (if w \<le> length (concat b) then Inr (be_val (take w (concat b))) else Inl OutOfRange)"
    and readLE: "cur_readLE F w b =
        (if w \<le> length (concat b) then Inr (le_val (take w (concat b))) else Inl OutOfRange)"
    and writeBE: "w \<le> length s \<Longrightarrow> cur_writeBE F w v [s] = Inr [be_bytes w v @ drop w s]"
    and writeLE: "w \<le> length s \<Longrightarrow> cur_writeLE F w v [s] = Inr [le_bytes w v @ drop w s]"
    and create_append: "\<exists>s. io_append F n (io_create F n) = [s] \<and> length s = n"
    and prependChain: "io_prependChain F a b = a @ b"
    and io_trimStart: "n \<le> length s \<Longrightarrow> io_trimStart F n (s # ss) = drop n s # ss"
    and io_data: "io_data F (s # ss) = s"
    and computeChainDataLength: "io_computeChainDataLength F b = length (concat b)"
begin

text \<open>The shape the handlers use: \<open>create\<close>, \<open>append\<close>, then one write that fills the buffer.\<close>

lemma fresh_writeBE: "cur_writeBE F w v (io_append F w (io_create F w)) = Inr [be_bytes w v]"
proof -
  obtain s where "io_append F w (io_create F w) = [s]" "length s = w"
    using create_append by blast
  then show ?thesis using writeBE [of w s v] by simp
qed

lemma fresh_writeLE: "cur_writeLE F w v (io_append F w (io_create F w)) = Inr [le_bytes w v]"
proof -
  obtain s where "io_append F w (io_create F w) = [s]" "length s = w"
    using create_append by blast
  then show ?thesis using writeLE [of w s v] by simp
qed

lemma skip_readBE:
  "n + w \<le> length (concat b) \<Longrightarrow>
     \<exists>c. cur_skip F n b = Inr c \<and> cur_readBE F w c = Inr (be_val (take w (drop n (concat b))))"
  using skip_ok [of n b] by (auto simp: readBE)

lemma skip_readLE:
  "n + w \<le> length (concat b) \<Longrightarrow>
     \<exists>c. cur_skip F n b = Inr c \<and> cur_readLE F w c = Inr (le_val (take w (drop n (concat b))))"
  using skip_ok [of n b] by (auto simp: readLE)

end

text \<open>
  Splitting a queue never cuts a buffer into several: a frame that lies in the first
  buffer of the queue comes out as one buffer.
\<close>

locale folly_io_contiguous = folly_io +
  assumes split_contiguous: "n \<le> length s \<Longrightarrow> \<exists>q'. q_split F n (s # ss) = Inr ([take n s], q')"
    and trimStart_contiguous:
      "n < length s \<Longrightarrow> q_trimStart F n (s # ss) = Inr (drop n s # ss)"
begin

lemma split_contiguous_rest:
  assumes "n \<le> length s"
  shows "\<exists>q'. q_split F n (s # ss) = Inr ([take n s], q') \<and> concat q' = drop n s @ concat ss"
proof -
  obtain q' where "q_split F n (s # ss) = Inr ([take n s], q')"
    using split_contiguous [OF assms] by blast
  moreover obtain f r where "q_split F n (s # ss) = Inr (f, r)" "concat r = drop n (concat (s # ss))"
    using split_ok [of n "s # ss"] assms by auto
  ultimately show ?thesis using assms by simp
qed

end

section \<open>An executable instance\<close>

fun chain_drop :: "nat \<Rightarrow> string list \<Rightarrow> string list" where
  "chain_drop n [] = []"
| "chain_drop n (s # ss) = (if n < length s then drop n s # ss else chain_drop (n - length s) ss)"

fun chain_take :: "nat \<Rightarrow> string list \<Rightarrow> string list" where
  "chain_take n [] = [[]]"
| "chain_take n (s # ss) = (if n \<le> length s then [take n s] else s # chain_take (n - length s) ss)"

definition folly_ref :: folly where
  "folly_ref = \<lparr>
     q_chainLength = (\<lambda>q. length (concat q)),
     q_trimStart = (\<lambda>n q. if n \<le> length (concat q) then Inr (chain_drop n q) else Inl Underflow),
     q_trimStartAtMost = chain_drop,
     q_split = (\<lambda>n q. if n \<le> length (concat q) then Inr (chain_take n q, chain_drop n q)
                      else Inl Underflow),
     cur_skip = (\<lambda>n b. if n \<le> length (concat b) then Inr (chain_drop n b) else Inl OutOfRange),
     cur_readBE = (\<lambda>w b. if w \<le> length (concat b) then Inr (be_val (take w (concat b)))
                         else Inl OutOfRange),
     cur_readLE = (\<lambda>w b. if w \<le> length (concat b) then Inr (le_val (take w (concat b)))
                         else Inl OutOfRange),
     cur_writeBE = (\<lambda>w v b. case b of
         s # ss \<Rightarrow> if w \<le> length s then Inr ((be_bytes w v @ drop w s) # ss) else Inl OutOfRange
       | [] \<Rightarrow> Inl OutOfRange),
     cur_writeLE = (\<lambda>w v b. case b of
         s # ss \<Rightarrow> if w \<le> length s then Inr ((le_bytes w v @ drop w s) # ss) else Inl OutOfRange
       | [] \<Rightarrow> Inl OutOfRange),
     io_create = (\<lambda>n. [[]]),
     io_append = (\<lambda>n b. case b of s # ss \<Rightarrow> (s @ replicate n CHR 0x00) # ss | [] \<Rightarrow> []),
     io_prependChain = (\<lambda>a b. a @ b),
     io_trimStart = (\<lambda>n b. case b of s # ss \<Rightarrow> drop n s # ss | [] \<Rightarrow> []),
     io_data = (\<lambda>b. case b of s # ss \<Rightarrow> s | [] \<Rightarrow> []),
     io_computeChainDataLength = (\<lambda>b. length (concat b))\<rparr>"

lemma concat_chain_drop: "concat (chain_drop n q) = drop n (concat q)"
  by (induction n q rule: chain_drop.induct) auto

lemma concat_chain_take: "concat (chain_take n q) = take n (concat q)"
  by (induction n q rule: chain_take.induct) auto

lemma chain_take_nonempty: "chain_take n q \<noteq> []"
  by (cases q) auto

interpretation fref: folly_io_contiguous folly_ref
  by unfold_locales
    (auto simp: folly_ref_def concat_chain_drop concat_chain_take chain_take_nonempty)

lemmas folly_ref_laws = fref.folly_io_axioms fref.folly_io_contiguous_axioms

end
