(* ===== verification/Frame_Decoder.thy ===== *)
theory Frame_Decoder
  imports Folly_IO
begin

text \<open>
  \<open>littleB::LengthFieldBasedFrameDecoder\<close> (\<open>libsrc/handlers\<close>): the inbound handler that
  cuts the byte stream of a connection into frames by a length field. The model keeps the
  32- and 64-bit arithmetic of the source. \<open>decode_spec\<close> is the documented behaviour on a
  flat byte string with unbounded integers; the refinement states when the code
  implements it and what it does otherwise.
\<close>

section \<open>State and operations\<close>

text \<open>The fields \<open>lengthFieldLength_\<close> and so on, with the prefix \<open>d_\<close>.\<close>

record LengthFieldBasedFrameDecoder =
  d_lengthFieldLength :: u32
  d_maxFrameLength :: u32
  d_lengthFieldOffset :: u32
  d_lengthAdjustment :: i32
  d_initialBytesToStrip :: u32
  d_networkByteOrder :: bool
  d_lengthFieldEndOffset :: u32

text \<open>The constructor; its two \<open>CHECK\<close>s compute in \<open>uint32_t\<close>.\<close>

definition new_LengthFieldBasedFrameDecoder ::
  "u32 \<Rightarrow> u32 \<Rightarrow> u32 \<Rightarrow> i32 \<Rightarrow> u32 \<Rightarrow> bool \<Rightarrow> LengthFieldBasedFrameDecoder result" where
  "new_LengthFieldBasedFrameDecoder lengthFieldLength maxFrameLength lengthFieldOffset
       lengthAdjustment initialBytesToStrip networkByteOrder =
     (if \<not> 0 < maxFrameLength then Inl CheckFail
      else if \<not> lengthFieldOffset \<le> maxFrameLength - lengthFieldLength then Inl CheckFail
      else Inr \<lparr>d_lengthFieldLength = lengthFieldLength,
                d_maxFrameLength = maxFrameLength,
                d_lengthFieldOffset = lengthFieldOffset,
                d_lengthAdjustment = lengthAdjustment,
                d_initialBytesToStrip = initialBytesToStrip,
                d_networkByteOrder = networkByteOrder,
                d_lengthFieldEndOffset = lengthFieldOffset + lengthFieldLength\<rparr>)"

text \<open>
  \<open>getUnadjustedFrameLength\<close>: \<open>offset\<close> and \<open>len\<close> arrive as \<open>int\<close>, so \<open>skip\<close>, which
  takes a \<open>size_t\<close>, sees the sign-extended offset. For a width other than 1, 2, 4 and 8
  the source returns a variable it never assigned.
\<close>

definition getUnadjustedFrameLength ::
  "folly \<Rightarrow> iobufq \<Rightarrow> i32 \<Rightarrow> i32 \<Rightarrow> bool \<Rightarrow> u64 result" where
  "getUnadjustedFrameLength F buf offset len networkByteOrder =
     bind_res (cur_skip F (unat (scast offset :: u64)) buf) (\<lambda>c.
       if len = 1 then
         map_sum id of_nat (if networkByteOrder then cur_readBE F 1 c else cur_readLE F 1 c)
       else if len = 2 then
         map_sum id of_nat (if networkByteOrder then cur_readBE F 2 c else cur_readLE F 2 c)
       else if len = 4 then
         map_sum id of_nat (if networkByteOrder then cur_readBE F 4 c else cur_readLE F 4 c)
       else if len = 8 then
         map_sum id of_nat (if networkByteOrder then cur_readBE F 8 c else cur_readLE F 8 c)
       else Inl (UndefinedBehaviour ''frameLength is not initialised''))"

text \<open>
  How one call of \<open>decode\<close> ends: it returns \<open>false\<close> and waits for more bytes, it fires a
  read exception and returns \<open>false\<close>, it returns \<open>true\<close> with a frame, or an exception
  leaves it.
\<close>

datatype 'b outcome =
    NeedMore
  | FireReadException string
  | Frame 'b
  | Thrown error

definition lift_q :: "iobufq \<Rightarrow> 'a result \<Rightarrow> ('a \<Rightarrow> 'b outcome \<times> iobufq) \<Rightarrow> 'b outcome \<times> iobufq" where
  "lift_q q r k = (case r of Inl e \<Rightarrow> (Thrown e, q) | Inr x \<Rightarrow> k x)"

definition decode :: "folly \<Rightarrow> LengthFieldBasedFrameDecoder \<Rightarrow> iobufq \<Rightarrow> iobuf outcome \<times> iobufq" where
  "decode F d buf =
     (if q_chainLength F buf < unat (d_lengthFieldEndOffset d) then (NeedMore, buf)
      else lift_q buf
        (getUnadjustedFrameLength F buf (d_lengthFieldOffset d) (d_lengthFieldLength d) (d_networkByteOrder d))
        (\<lambda>len.
          let frameLength = len + ucast (d_lengthAdjustment d + d_lengthFieldEndOffset d) in
          if frameLength < ucast (d_lengthFieldEndOffset d) then
            lift_q buf (q_trimStart F (unat (d_lengthFieldEndOffset d)) buf)
              (\<lambda>buf'. (FireReadException ''Frame too small'', buf'))
          else if frameLength > ucast (d_maxFrameLength d) then
            (FireReadException (''Frame larger than '' @ dec_nat (unat (d_maxFrameLength d))),
             q_trimStartAtMost F (unat frameLength) buf)
          else if q_chainLength F buf < unat frameLength then (NeedMore, buf)
          else if ucast (d_initialBytesToStrip d) > frameLength then
            lift_q buf (q_trimStart F (unat frameLength) buf)
              (\<lambda>buf'. (FireReadException ''InitialBytesToSkip larger than frame'', buf'))
          else
            lift_q buf (q_trimStart F (unat (d_initialBytesToStrip d)) buf)
              (\<lambda>buf'.
                let actualFrameLength = (ucast (frameLength - ucast (d_initialBytesToStrip d)) :: i32) in
                lift_q buf' (q_split F (unat (scast actualFrameLength :: u64)) buf')
                  (\<lambda>(result, buf''). (Frame result, buf'')))))"

section \<open>The documented behaviour\<close>

text \<open>
  The class comment, on the flat contents of the queue: the frame is the length field's
  value plus the adjustment plus everything up to the end of the length field.
\<close>

definition field_value :: "LengthFieldBasedFrameDecoder \<Rightarrow> string \<Rightarrow> nat" where
  "field_value d bs =
     order_val (d_networkByteOrder d)
       (take (unat (d_lengthFieldLength d)) (drop (unat (d_lengthFieldOffset d)) bs))"

definition frame_length :: "LengthFieldBasedFrameDecoder \<Rightarrow> string \<Rightarrow> int" where
  "frame_length d bs =
     int (field_value d bs) + sint (d_lengthAdjustment d) + int (unat (d_lengthFieldEndOffset d))"

definition decode_spec :: "LengthFieldBasedFrameDecoder \<Rightarrow> string \<Rightarrow> string outcome \<times> string" where
  "decode_spec d bs =
     (let end = unat (d_lengthFieldEndOffset d); strip = unat (d_initialBytesToStrip d);
          len = frame_length d bs; n = nat len in
      if length bs < end then (NeedMore, bs)
      else if len < int end then (FireReadException ''Frame too small'', drop end bs)
      else if len > int (unat (d_maxFrameLength d)) then
        (FireReadException (''Frame larger than '' @ dec_nat (unat (d_maxFrameLength d))), drop n bs)
      else if length bs < n then (NeedMore, bs)
      else if n < strip then
        (FireReadException ''InitialBytesToSkip larger than frame'', drop n bs)
      else (Frame (take (n - strip) (drop strip bs)), drop n bs))"

text \<open>The same decisions for any frame length: the arithmetic of the source can leave another one.\<close>

definition decode_at :: "LengthFieldBasedFrameDecoder \<Rightarrow> string \<Rightarrow> int \<Rightarrow> string outcome \<times> string" where
  "decode_at d bs len =
     (let end = unat (d_lengthFieldEndOffset d); strip = unat (d_initialBytesToStrip d); n = nat len in
      if length bs < end then (NeedMore, bs)
      else if len < int end then (FireReadException ''Frame too small'', drop end bs)
      else if len > int (unat (d_maxFrameLength d)) then
        (FireReadException (''Frame larger than '' @ dec_nat (unat (d_maxFrameLength d))), drop n bs)
      else if length bs < n then (NeedMore, bs)
      else if n < strip then
        (FireReadException ''InitialBytesToSkip larger than frame'', drop n bs)
      else (Frame (take (n - strip) (drop strip bs)), drop n bs))"

lemma decode_spec_at: "decode_spec d bs = decode_at d bs (frame_length d bs)"
  by (simp add: decode_spec_def decode_at_def Let_def)

text \<open>What a call leaves behind, with the buffer boundaries forgotten.\<close>

fun flat_outcome :: "iobuf outcome \<Rightarrow> string outcome" where
  "flat_outcome NeedMore = NeedMore"
| "flat_outcome (FireReadException m) = FireReadException m"
| "flat_outcome (Frame b) = Frame (concat b)"
| "flat_outcome (Thrown e) = Thrown e"

definition flat :: "iobuf outcome \<times> iobufq \<Rightarrow> string outcome \<times> string" where
  "flat r = (flat_outcome (fst r), concat (snd r))"

text \<open>
  The configurations the arithmetic of the source is right for: a supported width, a
  length field that ends inside 31 bits, an adjustment that does not reach below the end
  of the length field, and a frame bound that fits an \<open>int\<close>.
\<close>

definition field_placed :: "LengthFieldBasedFrameDecoder \<Rightarrow> bool" where
  "field_placed d \<longleftrightarrow>
     unat (d_lengthFieldEndOffset d) = unat (d_lengthFieldOffset d) + unat (d_lengthFieldLength d) \<and>
     unat (d_lengthFieldEndOffset d) < 2 ^ 31"

definition supported :: "LengthFieldBasedFrameDecoder \<Rightarrow> bool" where
  "supported d \<longleftrightarrow>
     unat (d_lengthFieldLength d) \<in> {1, 2, 4, 8} \<and> field_placed d \<and>
     0 \<le> sint (d_lengthAdjustment d) + int (unat (d_lengthFieldEndOffset d)) \<and>
     unat (d_maxFrameLength d) < 2 ^ 31"

text \<open>An 8-byte field can hold values whose sum with the adjustment leaves 64 bits.\<close>

definition field_fits :: "LengthFieldBasedFrameDecoder \<Rightarrow> string \<Rightarrow> bool" where
  "field_fits d bs \<longleftrightarrow> frame_length d bs < 2 ^ 64"

section \<open>Lemmas: the arithmetic of a supported configuration\<close>

lemma supportedD:
  assumes "supported d"
  shows "unat (d_lengthFieldLength d) \<in> {1, 2, 4, 8}"
    and "unat (d_lengthFieldEndOffset d) = unat (d_lengthFieldOffset d) + unat (d_lengthFieldLength d)"
    and "unat (d_lengthFieldEndOffset d) < 2 ^ 31"
    and "unat (d_lengthFieldOffset d) < 2 ^ 31"
    and "0 \<le> sint (d_lengthAdjustment d) + int (unat (d_lengthFieldEndOffset d))"
    and "unat (d_maxFrameLength d) < 2 ^ 31"
    and "field_placed d"
  using assms by (auto simp: supported_def field_placed_def simp del: of_nat_unat)

lemma field_value_bound:
  assumes "supported d"
  shows "field_value d bs < 2 ^ 64"
proof -
  let ?s = "take (unat (d_lengthFieldLength d)) (drop (unat (d_lengthFieldOffset d)) bs)"
  have "length ?s \<le> 8" using supportedD(1) [OF assms] by auto
  then have "256 ^ length ?s \<le> (256 ^ 8 :: nat)" by (rule power_increasing) simp
  with order_val_bound [of "d_networkByteOrder d" ?s]
  have "field_value d bs < 256 ^ 8" unfolding field_value_def by (rule less_le_trans)
  then show ?thesis by simp
qed

text \<open>The \<open>uint64_t\<close> the source computes, with the 32- and the 64-bit addition wrapping.\<close>

definition computed_length :: "LengthFieldBasedFrameDecoder \<Rightarrow> string \<Rightarrow> u64" where
  "computed_length d bs = of_nat (field_value d bs) + ucast (d_lengthAdjustment d + d_lengthFieldEndOffset d)"

text \<open>It is the documented frame length when that fits 64 bits, and \<open>2 ^ 64\<close> less when not.\<close>

lemma frameLength_eq:
  assumes "supported d" and "field_fits d bs"
  shows "int (unat (of_nat (field_value d bs)
           + ucast (d_lengthAdjustment d + d_lengthFieldEndOffset d) :: u64)) = frame_length d bs"
proof -
  let ?s = "d_lengthAdjustment d + d_lengthFieldEndOffset d"
  have s: "int (unat ?s) = sint (d_lengthAdjustment d) + int (unat (d_lengthFieldEndOffset d))"
    by (rule sint_plus_i32 [OF supportedD(5,3) [OF assms(1)]])
  then have sum: "int (field_value d bs + unat ?s) = frame_length d bs"
    by (simp add: frame_length_def)
  have "int (field_value d bs + unat ?s) < int (2 ^ 64)"
    unfolding sum using assms(2) by (simp add: field_fits_def)
  then have "field_value d bs + unat ?s < 2 ^ 64"
    by (simp only: of_nat_less_iff)
  moreover have "(of_nat (field_value d bs) + ucast ?s :: u64) = of_nat (field_value d bs + unat ?s)"
    by simp
  ultimately have "unat (of_nat (field_value d bs) + ucast ?s :: u64) = field_value d bs + unat ?s"
    by (simp only: unat_of_nat) (simp add: take_bit_nat_eq_self)
  with sum show ?thesis by simp
qed

lemma wrapped_length:
  assumes "supported d" and "\<not> field_fits d bs"
  shows "int (unat (computed_length d bs)) = frame_length d bs - 2 ^ 64"
proof -
  let ?s = "d_lengthAdjustment d + d_lengthFieldEndOffset d"
  have s: "int (unat ?s) = sint (d_lengthAdjustment d) + int (unat (d_lengthFieldEndOffset d))"
    by (rule sint_plus_i32 [OF supportedD(5,3) [OF assms(1)]])
  then have sum: "int (field_value d bs + unat ?s) = frame_length d bs"
    by (simp add: frame_length_def)
  have le: "2 ^ 64 \<le> field_value d bs + unat ?s"
    using assms(2) sum by (simp only: field_fits_def not_less) (metis of_nat_le_iff of_nat_numeral of_nat_power)
  have "field_value d bs + unat ?s < 2 * 2 ^ 64"
    using field_value_bound [OF assms(1), of bs] unsigned_less [of ?s, where 'a = nat] by simp
  moreover have "computed_length d bs = of_nat (field_value d bs + unat ?s)"
    by (simp add: computed_length_def)
  ultimately have "unat (computed_length d bs) = field_value d bs + unat ?s - 2 ^ 64"
    using le by (simp only: unat_of_nat) (simp add: take_bit_eq_mod mod_if)
  then show ?thesis using sum le by (simp add: of_nat_diff)
qed

lemma frame_length_nonneg: "supported d \<Longrightarrow> 0 \<le> frame_length d bs"
  using supportedD(5) [of d] by (simp add: frame_length_def)

text \<open>The \<open>int\<close> the source passes to \<open>split\<close> is the frame length without the stripped bytes.\<close>

lemma actualFrameLength_eq:
  fixes n :: u64 and s :: u32
  assumes "unat n < 2 ^ 31" and "unat s \<le> unat n"
  shows "unat (scast (ucast (n - ucast s) :: i32) :: u64) = unat n - unat s"
proof -
  have "(ucast s :: u64) \<le> n"
    using assms(2) by (simp add: word_le_nat_alt unat_ucast_u32)
  then have d: "unat (n - ucast s) = unat n - unat s"
    by (simp add: unat_sub unat_ucast_u32)
  then have "unat (ucast (n - ucast s) :: i32) = unat n - unat s"
    using assms(1) by (simp add: unat_ucast_u64)
  then show ?thesis using assms(1) by (simp add: unat_scast_i32)
qed

section \<open>Lemmas: the code refines the documented behaviour\<close>

context folly_io
begin

lemma skip_to_field:
  assumes d: "field_placed d" and len: "unat (d_lengthFieldEndOffset d) \<le> length (concat q)"
  shows "\<exists>c. cur_skip F (unat (scast (d_lengthFieldOffset d) :: u64)) q = Inr c \<and>
    concat c = drop (unat (d_lengthFieldOffset d)) (concat q)"
proof -
  have "unat (d_lengthFieldOffset d) < 2 ^ 31"
    and o: "unat (d_lengthFieldOffset d) \<le> length (concat q)"
    using d len by (auto simp: field_placed_def)
  then have "unat (scast (d_lengthFieldOffset d) :: u64) = unat (d_lengthFieldOffset d)"
    by (intro unat_scast_i32)
  with skip_ok [OF o] show ?thesis by simp
qed

lemma getUnadjustedFrameLength_eq:
  assumes w: "unat (d_lengthFieldLength d) \<in> {1, 2, 4, 8}" and d: "field_placed d"
    and len: "unat (d_lengthFieldEndOffset d) \<le> length (concat q)"
  shows "getUnadjustedFrameLength F q (d_lengthFieldOffset d) (d_lengthFieldLength d)
           (d_networkByteOrder d) = Inr (of_nat (field_value d (concat q)))"
proof -
  let ?o = "unat (d_lengthFieldOffset d)" and ?w = "unat (d_lengthFieldLength d)"
  obtain c where c: "cur_skip F (unat (scast (d_lengthFieldOffset d) :: u64)) q = Inr c"
      "concat c = drop ?o (concat q)"
    using skip_to_field [OF d len] by blast
  have l: "?o + ?w \<le> length (concat q)"
    using d len by (simp add: field_placed_def)
  have be: "cur_readBE F ?w c = Inr (be_val (take ?w (drop ?o (concat q))))"
    and le: "cur_readLE F ?w c = Inr (le_val (take ?w (drop ?o (concat q))))"
    using c l by (auto simp: readBE readLE)
  have "d_lengthFieldLength d = of_nat ?w" by simp
  with w consider
      "?w = 1" "d_lengthFieldLength d = 1" | "?w = 2" "d_lengthFieldLength d = 2"
    | "?w = 4" "d_lengthFieldLength d = 4" | "?w = 8" "d_lengthFieldLength d = 8"
    by fastforce
  then show ?thesis
    using be le
    by cases (auto simp: getUnadjustedFrameLength_def field_value_def order_val_def c(1))
qed

lemma lift_trimStart:
  assumes "n \<le> length (concat q)" and "\<And>q'. concat q' = drop n (concat q) \<Longrightarrow> flat (k q') = r"
  shows "flat (lift_q q (q_trimStart F n q) k) = r"
  using trimStart_ok [OF assms(1)] assms(2) by (auto simp: lift_q_def)

lemma lift_split:
  assumes "n \<le> length (concat q)"
  shows "flat (lift_q q (q_split F n q) (\<lambda>(f, q'). (Frame f, q')))
           = (Frame (take n (concat q)), drop n (concat q))"
  using split_ok [OF assms] by (auto simp: lift_q_def flat_def)

text \<open>
  For every accepted width one call is \<open>decode_at\<close> for the \<open>uint64_t\<close> the source computes,
  whatever wrapped on the way to it.
\<close>

lemma decode_eq_at:
  assumes w: "unat (d_lengthFieldLength d) \<in> {1, 2, 4, 8}" and d: "field_placed d" and mx: "unat (d_maxFrameLength d) < 2 ^ 31"
  shows "flat (decode F d q) = decode_at d (concat q) (int (unat (computed_length d (concat q))))"
proof (cases "length (concat q) < unat (d_lengthFieldEndOffset d)")
  case True
  then show ?thesis
    by (simp add: decode_def decode_at_def chainLength flat_def Let_def)
next
  case False
  then have e: "unat (d_lengthFieldEndOffset d) \<le> length (concat q)" by simp
  define fl where "fl = computed_length d (concat q)"
  define n where "n = unat fl"
  have cmp: "fl < ucast (d_lengthFieldEndOffset d) \<longleftrightarrow> n < unat (d_lengthFieldEndOffset d)"
    "ucast (d_maxFrameLength d) < fl \<longleftrightarrow> unat (d_maxFrameLength d) < n"
    "fl < ucast (d_initialBytesToStrip d) \<longleftrightarrow> n < unat (d_initialBytesToStrip d)"
    by (simp_all add: word_less_nat_alt unat_ucast_u32 n_def)
  have dec: "decode F d q =
     (if n < unat (d_lengthFieldEndOffset d) then
        lift_q q (q_trimStart F (unat (d_lengthFieldEndOffset d)) q)
          (\<lambda>q'. (FireReadException ''Frame too small'', q'))
      else if unat (d_maxFrameLength d) < n then
        (FireReadException (''Frame larger than '' @ dec_nat (unat (d_maxFrameLength d))),
         q_trimStartAtMost F n q)
      else if length (concat q) < n then (NeedMore, q)
      else if n < unat (d_initialBytesToStrip d) then
        lift_q q (q_trimStart F n q)
          (\<lambda>q'. (FireReadException ''InitialBytesToSkip larger than frame'', q'))
      else lift_q q (q_trimStart F (unat (d_initialBytesToStrip d)) q)
        (\<lambda>q'. lift_q q' (q_split F (n - unat (d_initialBytesToStrip d)) q')
           (\<lambda>(r, q''). (Frame r, q''))))"
    using e mx
    by (simp add: decode_def chainLength getUnadjustedFrameLength_eq [OF w d e] lift_q_def [of q "Inr _"]
        Let_def computed_length_def [symmetric] fl_def [symmetric] cmp n_def [symmetric] actualFrameLength_eq [of fl, folded n_def]
        cong: if_cong)
  show ?thesis
    unfolding dec decode_at_def fl_def [symmetric] n_def [symmetric]
    using e
    by (auto simp: Let_def flat_def [of "(NeedMore, _)"] flat_def [of "(FireReadException _, _)"]
        trimStartAtMost lift_split intro!: lift_trimStart)
qed

lemma decode_refines:
  assumes d: "supported d" and fits: "field_fits d (concat q)"
  shows "flat (decode F d q) = decode_spec d (concat q)"
  using decode_eq_at [OF supportedD(1,7,6) [OF d], of q] frameLength_eq [OF d fits]
  by (simp add: decode_spec_at computed_length_def)

end

section \<open>Lemmas: the documented behaviour on a growing stream\<close>

lemma field_value_append:
  assumes "supported d" and "unat (d_lengthFieldEndOffset d) \<le> length bs"
  shows "field_value d (bs @ ext) = field_value d bs"
  using assms(2) supportedD(2) [OF assms(1)] by (simp add: field_value_def)

lemma frame_length_append:
  assumes "supported d" and "unat (d_lengthFieldEndOffset d) \<le> length bs"
  shows "frame_length d (bs @ ext) = frame_length d bs"
  by (simp add: frame_length_def field_value_append [OF assms])

lemma field_fits_narrow:
  assumes "supported d" and "unat (d_lengthFieldLength d) \<le> 4"
  shows "field_fits d bs"
proof -
  let ?s = "take (unat (d_lengthFieldLength d)) (drop (unat (d_lengthFieldOffset d)) bs)"
  have "256 ^ length ?s \<le> (256 ^ 4 :: nat)"
    using assms(2) by (intro power_increasing) auto
  with order_val_bound [of "d_networkByteOrder d" ?s]
  have "field_value d bs < 256 ^ 4" unfolding field_value_def by (rule less_le_trans)
  moreover have "sint (d_lengthAdjustment d) < 2 ^ 31"
    using sint_lt [of "d_lengthAdjustment d"] by simp
  ultimately show ?thesis
    using supportedD(3) [OF assms(1)]
    by (simp add: field_fits_def frame_length_def del: of_nat_unat)
qed

text \<open>The cases of the documented behaviour, as rewrite rules.\<close>

lemma decode_spec_Frame_iff:
  assumes "supported d"
  shows "decode_spec d bs = (Frame f, rest) \<longleftrightarrow>
    (let n = nat (frame_length d bs); strip = unat (d_initialBytesToStrip d) in
     unat (d_lengthFieldEndOffset d) \<le> n \<and> n \<le> unat (d_maxFrameLength d) \<and> n \<le> length bs \<and>
     unat (d_lengthFieldEndOffset d) \<le> length bs \<and> strip \<le> n \<and>
     f = take (n - strip) (drop strip bs) \<and> rest = drop n bs)"
proof -
  obtain n where "frame_length d bs = int n"
    using frame_length_nonneg [OF assms] by (metis nonneg_int_cases)
  then show ?thesis by (auto simp: decode_spec_def Let_def)
qed

lemma decode_spec_Frame_append:
  assumes d: "supported d" and f: "decode_spec d bs = (Frame f, rest)"
  shows "decode_spec d (bs @ ext) = (Frame f, rest @ ext)"
proof -
  from f have e: "unat (d_lengthFieldEndOffset d) \<le> length bs"
    by (simp add: decode_spec_Frame_iff [OF d] Let_def)
  from f show ?thesis
    by (auto simp: decode_spec_Frame_iff [OF d] Let_def frame_length_append [OF d e])
qed

lemma decode_at_progress:
  assumes "0 < unat (d_lengthFieldEndOffset d)" and "decode_at d bs len = (r, rest)" and "r \<noteq> NeedMore"
  shows "length rest < length bs"
proof -
  have "0 < nat len" if "\<not> len < int (unat (d_lengthFieldEndOffset d))"
    using that assms(1) by linarith
  then show ?thesis
    using assms by (auto simp: decode_at_def Let_def simp del: of_nat_unat split: if_splits)
qed

lemma decode_at_Frame:
  "decode_at d bs (int n) = (Frame f, rest) \<Longrightarrow>
    unat (d_initialBytesToStrip d) \<le> n \<and> n \<le> unat (d_maxFrameLength d) \<and> n \<le> length bs \<and>
    f = take (n - unat (d_initialBytesToStrip d)) (drop (unat (d_initialBytesToStrip d)) bs) \<and> rest = drop n bs"
  by (auto simp: decode_at_def Let_def not_less simp del: of_nat_unat split: if_splits)

lemma decode_at_not_Thrown: "fst (decode_at d bs len) \<noteq> Thrown e"
  by (simp add: decode_at_def Let_def)

lemma decode_spec_progress:
  assumes "supported d" and "decode_spec d bs = (r, rest)" and "r \<noteq> NeedMore"
  shows "length rest < length bs"
  using decode_at_progress [OF _ assms(2)[unfolded decode_spec_at] assms(3)] supportedD(1,2) [OF assms(1)] by auto

lemma decode_spec_not_Thrown: "fst (decode_spec d bs) \<noteq> Thrown e"
  by (simp add: decode_spec_def Let_def)

lemma flat_outcome_simps [simp]:
  "flat_outcome r = NeedMore \<longleftrightarrow> r = NeedMore"
  "flat_outcome r = FireReadException m \<longleftrightarrow> r = FireReadException m"
  "flat_outcome r = Frame s \<longleftrightarrow> (\<exists>b. r = Frame b \<and> concat b = s)"
  "flat_outcome r = Thrown e \<longleftrightarrow> r = Thrown e"
  by (cases r; auto)+

lemma flat_eq_iff: "flat (r, q) = (r', bs) \<longleftrightarrow> flat_outcome r = r' \<and> concat q = bs"
  by (simp add: flat_def)

text \<open>A call that waits leaves the queue as it found it.\<close>

lemma decode_NeedMore: "decode F d q = (NeedMore, q') \<Longrightarrow> q' = q"
  by (auto simp: decode_def lift_q_def Let_def split: if_splits sum.splits prod.splits)

text \<open>
  A length field whose width is not 1, 2, 4 or 8 bytes passes the constructor, but the first
  call that has the whole field returns a length that was never assigned.
\<close>

lemma unsupported_width_is_undefined:
  assumes "folly_io F" and "unat (d_lengthFieldLength d) \<notin> {1, 2, 4, 8}" and "field_placed d"
    and "unat (d_lengthFieldEndOffset d) \<le> length (concat q)"
  shows "decode F d q = (Thrown (UndefinedBehaviour ''frameLength is not initialised''), q)"
proof -
  have "d_lengthFieldLength d \<notin> {1, 2, 4, 8}" using assms(2) by auto
  then show ?thesis
    using folly_io.skip_to_field [OF assms(1,3,4)] assms(4)
    by (auto simp: decode_def folly_io.chainLength [OF assms(1)] getUnadjustedFrameLength_def lift_q_def)
qed

section \<open>Properties\<close>

text \<open>
  C3: the decoder and its class comment. For every \<open>supported\<close> configuration (a length field
  of 1, 2, 4 or 8 bytes that ends inside the first \<open>2 ^ 31\<close> bytes, an adjustment not below
  minus that end, \<open>maxFrameLength\<close> below \<open>2 ^ 31\<close>) and whatever the buffer boundaries of the
  queue are, one call of \<open>decode\<close> does what the comment documents whenever field value,
  adjustment and end of the field add up to less than \<open>2 ^ 64\<close>: it waits, rejects and skips
  a frame that is too small, too large or shorter than the bytes to strip, or returns the
  frame's bytes and removes it from the queue. Fields of up to 4 bytes always do. An 8-byte
  field need not: then the sum wraps and the call behaves as if the frame were \<open>2 ^ 64\<close> bytes
  shorter, where the comment asks for a rejection.
\<close>

theorem decode_refines_spec:
  assumes "folly_io F" and "supported d"
  shows "(frame_length d (concat q) < 2 ^ 64 \<longrightarrow> flat (decode F d q) = decode_spec d (concat q)) \<and>
    (2 ^ 64 \<le> frame_length d (concat q) \<longrightarrow>
       unat (d_lengthFieldLength d) = 8 \<and> flat (decode F d q) = decode_at d (concat q) (frame_length d (concat q) - 2 ^ 64))"
  by (intro conjI impI, unfold not_less [symmetric] field_fits_def [symmetric])
    (use folly_io.decode_refines [OF assms] folly_io.decode_eq_at [OF assms(1) supportedD(1,7,6) [OF assms(2)], of q]
      wrapped_length [OF assms(2)] field_fits_narrow [OF assms(2)] supportedD(1) [OF assms(2)] in auto)

text \<open>The configuration \<open>minigame_server\<close> uses, see \<open>newPipeline\<close>.\<close>

definition minigame_decoder :: LengthFieldBasedFrameDecoder where
  "minigame_decoder = \<lparr>d_lengthFieldLength = 2, d_maxFrameLength = 65536, d_lengthFieldOffset = 0,
     d_lengthAdjustment = 0, d_initialBytesToStrip = 2, d_networkByteOrder = False,
     d_lengthFieldEndOffset = 2\<rparr>"

lemma new_minigame_decoder:
  "new_LengthFieldBasedFrameDecoder 2 65536 0 0 2 False = Inr minigame_decoder"
  by (simp add: new_LengthFieldBasedFrameDecoder_def minigame_decoder_def)

lemma supported_minigame [simp]: "supported minigame_decoder"
  by (simp add: supported_def field_placed_def minigame_decoder_def)

text \<open>
  A frame of the server, and an 8-byte field whose value \<open>2 ^ 64 - 8\<close> and adjustment 8 add up
  to \<open>2 ^ 64\<close>: the comment rejects it, the code delivers the header as an empty frame.
\<close>

definition wide_decoder :: LengthFieldBasedFrameDecoder where
  "wide_decoder = \<lparr>d_lengthFieldLength = 8, d_maxFrameLength = 65536, d_lengthFieldOffset = 0,
     d_lengthAdjustment = 8, d_initialBytesToStrip = 8, d_networkByteOrder = False, d_lengthFieldEndOffset = 8\<rparr>"

definition wide_field :: string where
  "wide_field = [CHR 0xF8, CHR 0xFF, CHR 0xFF, CHR 0xFF, CHR 0xFF, CHR 0xFF, CHR 0xFF, CHR 0xFF]"

lemma wide_facts:
  "new_LengthFieldBasedFrameDecoder 8 65536 0 8 8 False = Inr wide_decoder" "supported wide_decoder"
  "frame_length wide_decoder (wide_field @ rest) = 2 ^ 64 + 8"
  by (simp_all add: new_LengthFieldBasedFrameDecoder_def wide_decoder_def wide_field_def supported_def field_placed_def
      frame_length_def field_value_def order_val_def)

theorem decode_refines_spec_witness:
  "flat (decode folly_ref minigame_decoder [[CHR 0x02], [CHR 0x00, CHR ''h''], ''i!'']) = (Frame ''hi'', ''!'') \<and>
   flat (decode folly_ref wide_decoder [wide_field, ''abc'']) = (Frame [], ''abc'') \<and>
   decode_spec wide_decoder (wide_field @ ''abc'') = (FireReadException ''Frame larger than 65536'', [])"
proof (intro conjI)
  let ?q = "[[CHR 0x02], [CHR 0x00, CHR ''h''], ''i!'']"
  have "frame_length minigame_decoder (concat ?q) = 4"
    by (simp add: frame_length_def field_value_def order_val_def minigame_decoder_def)
  then show "flat (decode folly_ref minigame_decoder ?q) = (Frame ''hi'', ''!'')"
    using decode_refines_spec [OF folly_ref_laws(1) supported_minigame, of ?q]
    by (simp add: decode_spec_def minigame_decoder_def Let_def)
  show "flat (decode folly_ref wide_decoder [wide_field, ''abc'']) = (Frame [], ''abc'')"
    using decode_refines_spec [OF folly_ref_laws(1) wide_facts(2), of "[wide_field, ''abc'']"] wide_facts(3) [of "''abc''"]
    by (simp add: decode_at_def Let_def) (simp add: wide_decoder_def wide_field_def)
  have "dec_nat 65536 = ''65536''" by (simp add: byte_eval)
  with wide_facts(3) [of "''abc''"] show "decode_spec wide_decoder (wide_field @ ''abc'') = (FireReadException ''Frame larger than 65536'', [])"
    by (simp add: decode_spec_def Let_def) (simp add: wide_decoder_def wide_field_def)
qed

text \<open>
  C24: a call that does not wait consumes input. For every decoder with its length field in
  the first \<open>2 ^ 31\<close> bytes and \<open>maxFrameLength\<close> below \<open>2 ^ 31\<close>, whatever its adjustment and
  the value of the field, wrapping sums included: with a width of 1, 2, 4 or 8 bytes, a call
  that returns a frame or fires an exception leaves a strictly shorter queue, and no call
  throws, so the loop that calls \<open>decode\<close> until it returns \<open>false\<close> ends after at most as many
  calls as there are bytes. With any other width, which the constructor accepts, every call
  that does not wait uses the length that was never assigned, and the queue stays as it was.
\<close>

theorem decode_makes_progress:
  assumes "folly_io F" and "field_placed d" and "unat (d_maxFrameLength d) < 2 ^ 31"
    and "decode F d q = (r, q')" and "r \<noteq> NeedMore"
  shows "if unat (d_lengthFieldLength d) \<in> {1, 2, 4, 8}
    then length (concat q') < length (concat q) \<and> (\<forall>e. r \<noteq> Thrown e)
    else r = Thrown (UndefinedBehaviour ''frameLength is not initialised'') \<and> q' = q"
proof (cases "unat (d_lengthFieldLength d) \<in> {1, 2, 4, 8}")
  case True
  then have at: "decode_at d (concat q) (int (unat (computed_length d (concat q)))) = (flat_outcome r, concat q')"
    using folly_io.decode_eq_at [OF assms(1) _ assms(2,3), of q] assms(4) by (simp add: flat_def)
  moreover have "0 < unat (d_lengthFieldEndOffset d)" using True assms(2) by (auto simp: field_placed_def)
  ultimately have "length (concat q') < length (concat q)"
    using decode_at_progress [OF _ at] assms(5) by simp
  moreover have "r \<noteq> Thrown e" for e
    using decode_at_not_Thrown at by (metis flat_outcome_simps(4) fst_conv)
  ultimately show ?thesis using True by simp
next
  case False
  with unsupported_width_is_undefined [OF assms(1) False assms(2), of q] assms(4,5) show ?thesis
    by (cases "unat (d_lengthFieldEndOffset d) \<le> length (concat q)")
      (auto simp: decode_def folly_io.chainLength [OF assms(1)])
qed

theorem decode_makes_progress_witness:
  "\<exists>r q'. decode folly_ref minigame_decoder [[CHR 0x00, CHR 0x00]] = (r, q')
     \<and> length (concat q') < 2 \<and> (\<forall>e. r \<noteq> Thrown e)"
proof -
  have dec: "decode folly_ref minigame_decoder [[CHR 0x00, CHR 0x00]] = (Frame [[]], [])"
    by (simp add: decode_def minigame_decoder_def folly_ref_def getUnadjustedFrameLength_def
        lift_q_def Let_def)
  have ok: "field_placed minigame_decoder" "unat (d_maxFrameLength minigame_decoder) < 2 ^ 31"
      "unat (d_lengthFieldLength minigame_decoder) \<in> {1, 2, 4, 8}"
    by (simp_all add: minigame_decoder_def field_placed_def)
  from decode_makes_progress [OF folly_ref_laws(1) ok(1,2) dec] ok(3) dec show ?thesis
    by (fastforce simp del: insert_iff)
qed

text \<open>
  C25: every frame the decoder hands on is within the configured bound: the bytes returned
  and the bytes stripped in front of them add up to at most \<open>maxFrameLength\<close>, and the queue
  loses exactly these bytes. This holds for every width, every adjustment and every value of
  the field, with the field in the first \<open>2 ^ 31\<close> bytes and \<open>maxFrameLength\<close> below \<open>2 ^ 31\<close>.
\<close>

theorem decode_frame_bounded:
  assumes "folly_io F" and "field_placed d" and "unat (d_maxFrameLength d) < 2 ^ 31"
    and "decode F d q = (Frame f, q')"
  shows "unat (d_initialBytesToStrip d) + length (concat f) \<le> unat (d_maxFrameLength d)
       \<and> concat q = take (unat (d_initialBytesToStrip d)) (concat q) @ concat f @ concat q'"
proof -
  have w: "unat (d_lengthFieldLength d) \<in> {1, 2, 4, 8}"
  proof (rule ccontr)
    assume "unat (d_lengthFieldLength d) \<notin> {1, 2, 4, 8}"
    from unsupported_width_is_undefined [OF assms(1) this assms(2), of q] assms(4) show False
      by (cases "unat (d_lengthFieldEndOffset d) \<le> length (concat q)")
        (auto simp: decode_def folly_io.chainLength [OF assms(1)])
  qed
  have "decode_at d (concat q) (int (unat (computed_length d (concat q)))) = (Frame (concat f), concat q')"
    using folly_io.decode_eq_at [OF assms(1) w assms(2,3), of q] assms(4) by (simp add: flat_def)
  from decode_at_Frame [OF this] obtain n where n: "unat (d_initialBytesToStrip d) \<le> n" "n \<le> unat (d_maxFrameLength d)"
      "n \<le> length (concat q)"
      "concat f = take (n - unat (d_initialBytesToStrip d)) (drop (unat (d_initialBytesToStrip d)) (concat q))"
      "concat q' = drop n (concat q)" by blast
  have "take (unat (d_initialBytesToStrip d)) (concat q) @ concat f = take n (concat q)"
    using n(1) unfolding n(4) by (metis le_add_diff_inverse take_add)
  then have "concat q = (take (unat (d_initialBytesToStrip d)) (concat q) @ concat f) @ concat q'"
    by (simp only: n(5) append_take_drop_id)
  moreover have "length (concat f) = n - unat (d_initialBytesToStrip d)"
    using n(3) by (simp add: n(4))
  ultimately show ?thesis using n(1,2) by simp
qed

theorem decode_frame_bounded_witness:
  "unat (d_initialBytesToStrip minigame_decoder) + length (concat [''a'']) \<le> 65536 \<and>
   concat [[CHR 0x01, CHR 0x00, CHR ''a'', CHR ''b'']] = take 2 [CHR 0x01, CHR 0x00, CHR ''a'', CHR ''b'']
     @ concat [''a''] @ concat [''b'']"
proof -
  have dec: "decode folly_ref minigame_decoder [[CHR 0x01, CHR 0x00, CHR ''a'', CHR ''b'']]
      = (Frame [''a''], [''b''])"
    by (simp add: decode_def minigame_decoder_def folly_ref_def getUnadjustedFrameLength_def
        lift_q_def Let_def)
  show ?thesis
    using decode_frame_bounded [OF folly_ref_laws(1) _ _ dec]
    by (simp add: minigame_decoder_def field_placed_def)
qed

text \<open>
  Bytes that arrive later never change a decision. A call that waits leaves the queue
  untouched, and a frame found in a queue is found again, with the new bytes behind the
  rest, when the queue had grown before the call.
\<close>

lemma decode_stable_under_growth:
  assumes "folly_io F" and "supported d"
    and "field_fits d (concat q)" and "field_fits d (concat p)"
    and "decode F d q = (Frame f, q')" and "concat p = concat q @ ext"
  shows "flat (decode F d p) = (Frame (concat f), concat q' @ ext)
       \<and> (\<forall>s s'. decode F d s = (NeedMore, s') \<longrightarrow> s' = s)"
proof -
  have "decode_spec d (concat q) = (Frame (concat f), concat q')"
    using folly_io.decode_refines [OF assms(1-3)] assms(5) by (simp add: flat_def)
  then have "decode_spec d (concat p) = (Frame (concat f), concat q' @ ext)"
    by (simp add: assms(6) decode_spec_Frame_append [OF assms(2)])
  then show ?thesis
    using folly_io.decode_refines [OF assms(1,2,4)] by (auto dest: decode_NeedMore)
qed

section \<open>Properties: configurations outside the supported range\<close>

lemma sint_plus_i32_neg:
  assumes "sint (a :: i32) + int (unat (b :: u32)) < 0"
  shows "int (unat (a + b)) = sint a + int (unat b) + 2 ^ 32" and "2 ^ 31 \<le> unat (a + b)"
proof -
  have "a + b = word_of_int (sint a + int (unat b) + 2 ^ 32)" by simp
  then have "uint (a + b) = take_bit LENGTH(32) (sint a + int (unat b) + 2 ^ 32)"
    by (simp only: uint_word_of_int_eq)
  also have "\<dots> = sint a + int (unat b) + 2 ^ 32"
    using assms sint_ge [of a] by (intro take_bit_int_eq_self) (simp_all del: of_nat_unat)
  finally show eq: "int (unat (a + b)) = sint a + int (unat b) + 2 ^ 32" by simp
  then have "2 ^ 31 \<le> int (unat (a + b))" using sint_ge [of a] by (simp del: of_nat_unat)
  then show "2 ^ 31 \<le> unat (a + b)"
    by (metis of_nat_le_iff of_nat_numeral of_nat_power)
qed

text \<open>
  C40: an adjustment that reaches below the end of the length field never works. The sum
  \<open>lengthAdjustment_ + lengthFieldEndOffset_\<close> is formed in \<open>uint32_t\<close> before it is added
  to the 64-bit length, so a negative sum adds almost \<open>2 ^ 32\<close>: every frame is reported as
  larger than the bound and that many bytes are dropped from the queue.
\<close>

theorem deep_adjustment_rejects_every_frame:
  assumes "folly_io F" and w: "unat (d_lengthFieldLength d) \<in> {1, 2, 4}" and d: "field_placed d"
    and neg: "sint (d_lengthAdjustment d) + int (unat (d_lengthFieldEndOffset d)) < 0"
    and mx: "unat (d_maxFrameLength d) < 2 ^ 31"
    and len: "unat (d_lengthFieldEndOffset d) \<le> length (concat q)"
  shows "\<exists>q'. decode F d q =
      (FireReadException (''Frame larger than '' @ dec_nat (unat (d_maxFrameLength d))), q') \<and>
      concat q' = drop (nat (frame_length d (concat q) + 2 ^ 32)) (concat q)"
proof -
  let ?v = "field_value d (concat q)" and ?a = "d_lengthAdjustment d + d_lengthFieldEndOffset d"
  have len': "length (take (unat (d_lengthFieldLength d)) (drop (unat (d_lengthFieldOffset d)) (concat q))) \<le> 4"
    using w by auto
  have "?v < 256 ^ 4"
    unfolding field_value_def
    using order_val_bound power_increasing [OF len', of "256 :: nat"] by (rule less_le_trans) simp
  moreover have "unat ?a < 2 ^ 32" using unsigned_less [of ?a, where 'a = nat] by simp
  ultimately have "?v + unat ?a < 2 ^ 64" by simp
  then have "unat (of_nat (?v + unat ?a) :: u64) = ?v + unat ?a"
    by (simp only: unat_of_nat) (simp add: take_bit_nat_eq_self)
  then have fl: "unat (of_nat ?v + ucast ?a :: u64) = ?v + unat ?a" by simp
  have a: "int (unat ?a) = sint (d_lengthAdjustment d) + int (unat (d_lengthFieldEndOffset d)) + 2 ^ 32"
      "2 ^ 31 \<le> unat ?a"
    by (rule sint_plus_i32_neg [OF neg])+
  then have "int (?v + unat ?a) = frame_length d (concat q) + 2 ^ 32"
    by (simp add: frame_length_def)
  then have n: "?v + unat ?a = nat (frame_length d (concat q) + 2 ^ 32)"
    by (metis nat_int)
  have gt: "\<not> (of_nat ?v + ucast ?a :: u64) < ucast (d_lengthFieldEndOffset d)"
      "ucast (d_maxFrameLength d) < (of_nat ?v + ucast ?a :: u64)"
    using a(2) mx d by (auto simp: word_less_nat_alt fl unat_ucast_u32 field_placed_def)
  have w': "unat (d_lengthFieldLength d) \<in> {1, 2, 4, 8}" using w by auto
  show ?thesis
    using len gt
    by (simp add: decode_def folly_io.chainLength [OF assms(1)]
        folly_io.getUnadjustedFrameLength_eq [OF assms(1) w' d len] lift_q_def Let_def fl n
        folly_io.trimStartAtMost [OF assms(1)])
qed

theorem deep_adjustment_rejects_every_frame_witness:
  "\<exists>q'. decode folly_ref (minigame_decoder\<lparr>d_lengthAdjustment := - 4\<rparr>)
      [[CHR 0x06, CHR 0x00], ''abcd''] = (FireReadException ''Frame larger than 65536'', q')
    \<and> concat q' = []"
proof -
  let ?d = "minigame_decoder\<lparr>d_lengthAdjustment := - 4\<rparr>"
  have msg: "dec_nat 65536 = ''65536''"
    by (simp add: byte_eval)
  have "\<exists>q'. decode folly_ref ?d [[CHR 0x06, CHR 0x00], ''abcd''] =
      (FireReadException (''Frame larger than '' @ dec_nat (unat (d_maxFrameLength ?d))), q') \<and>
      concat q' = drop (nat (frame_length ?d (concat [[CHR 0x06, CHR 0x00], ''abcd'']) + 2 ^ 32))
        (concat [[CHR 0x06, CHR 0x00], ''abcd''])"
    by (rule deep_adjustment_rejects_every_frame [OF folly_ref_laws(1)])
      (simp_all add: minigame_decoder_def field_placed_def)
  then show ?thesis
    by (simp add: msg minigame_decoder_def frame_length_def field_value_def order_val_def)
qed

end
