(* ===== verification/Frame_Prepender.thy ===== *)
theory Frame_Prepender
  imports Folly_IO
begin

text \<open>
  \<open>littleB::LengthFieldPrepender\<close> (\<open>libsrc/handlers\<close>): the outbound handler that puts the
  length of a message in front of it, with its refinement of the documented behaviour on
  flat byte strings and unbounded integers.
\<close>

section \<open>State and operations\<close>

text \<open>The fields \<open>lengthFieldLength_\<close> and so on, with the prefix \<open>p_\<close>.\<close>

record LengthFieldPrepender =
  p_lengthFieldLength :: i32
  p_lengthAdjustment :: i32
  p_lengthIncludesLengthField :: bool
  p_networkByteOrder :: bool

definition new_LengthFieldPrepender :: "i32 \<Rightarrow> i32 \<Rightarrow> bool \<Rightarrow> bool \<Rightarrow> LengthFieldPrepender result" where
  "new_LengthFieldPrepender lengthFieldLength lengthAdjustment lengthIncludesLengthField networkByteOrder =
     (if lengthFieldLength = 1 \<or> lengthFieldLength = 2 \<or> lengthFieldLength = 4 \<or> lengthFieldLength = 8
      then Inr \<lparr>p_lengthFieldLength = lengthFieldLength,
                p_lengthAdjustment = lengthAdjustment,
                p_lengthIncludesLengthField = lengthIncludesLengthField,
                p_networkByteOrder = networkByteOrder\<rparr>
      else Inl CheckFail)"

text \<open>Addition of two \<open>int\<close>s: overflow is undefined.\<close>

definition add_i32 :: "i32 \<Rightarrow> i32 \<Rightarrow> i32 result" where
  "add_i32 a b =
     (if - (2 ^ 31) \<le> sint a + sint b \<and> sint a + sint b < 2 ^ 31 then Inr (a + b)
      else Inl (UndefinedBehaviour ''signed integer overflow''))"

text \<open>
  \<open>write\<close>: the buffer it passes to \<open>fireWrite\<close>, or the exception. The sum of the \<open>int\<close>
  adjustment and the \<open>size_t\<close> data length is formed in 64 bits and narrowed to \<open>int\<close>.
\<close>

definition prepender_write :: "folly \<Rightarrow> LengthFieldPrepender \<Rightarrow> iobuf \<Rightarrow> iobuf result" where
  "prepender_write F p buf =
     (let length0 = (ucast ((scast (p_lengthAdjustment p) :: u64)
                        + of_nat (io_computeChainDataLength F buf)) :: i32) in
      bind_res (if p_lengthIncludesLengthField p then add_i32 length0 (p_lengthFieldLength p)
                else Inr length0) (\<lambda>len.
      if sint len < 0 then Inl (RuntimeError ''Length field < 0'')
      else
        let size = unat (scast (p_lengthFieldLength p) :: u64);
            c = io_append F size (io_create F size);
            written =
              (if p_lengthFieldLength p = 1 then
                 (if sint len \<ge> 256 then Inl (RuntimeError ''length does not fit byte'')
                  else if p_networkByteOrder p then cur_writeBE F 1 (unat (ucast len :: 8 word)) c
                  else cur_writeLE F 1 (unat (ucast len :: 8 word)) c)
               else if p_lengthFieldLength p = 2 then
                 (if sint len \<ge> 65536 then Inl (RuntimeError ''length does not fit byte'')
                  else if p_networkByteOrder p then cur_writeBE F 2 (unat (ucast len :: u16)) c
                  else cur_writeLE F 2 (unat (ucast len :: u16)) c)
               else if p_lengthFieldLength p = 4 then
                 (if p_networkByteOrder p then cur_writeBE F 4 (unat (ucast len :: u32)) c
                  else cur_writeLE F 4 (unat (ucast len :: u32)) c)
               else if p_lengthFieldLength p = 8 then
                 (if p_networkByteOrder p then cur_writeBE F 8 (unat (scast len :: u64)) c
                  else cur_writeLE F 8 (unat (scast len :: u64)) c)
               else Inl (RuntimeError ''Invalid lengthFieldLength''))
        in map_sum id (\<lambda>head. io_prependChain F head buf) written))"

section \<open>The documented behaviour\<close>

definition prepend_length :: "LengthFieldPrepender \<Rightarrow> string \<Rightarrow> int" where
  "prepend_length p payload =
     sint (p_lengthAdjustment p) + int (length payload)
     + (if p_lengthIncludesLengthField p then sint (p_lengthFieldLength p) else 0)"

definition prepend_spec :: "LengthFieldPrepender \<Rightarrow> string \<Rightarrow> string result" where
  "prepend_spec p payload =
     (let w = unat (p_lengthFieldLength p); len = prepend_length p payload in
      if len < 0 then Inl (RuntimeError ''Length field < 0'')
      else if w < 4 \<and> 256 ^ w \<le> len then Inl (RuntimeError ''length does not fit byte'')
      else Inr (order_bytes (p_networkByteOrder p) w (nat len) @ payload))"

text \<open>
  The widths the constructor accepts, and messages whose adjusted length stays clear of the
  ends of the \<open>int\<close> range.
\<close>

definition prepender_ok :: "LengthFieldPrepender \<Rightarrow> bool" where
  "prepender_ok p \<longleftrightarrow> unat (p_lengthFieldLength p) \<in> {1, 2, 4, 8}"

definition length_in_int :: "LengthFieldPrepender \<Rightarrow> nat \<Rightarrow> bool" where
  "length_in_int p n \<longleftrightarrow> sint (p_lengthAdjustment p) + int n + 8 < 2 ^ 31"

section \<open>Lemmas\<close>

lemma new_LengthFieldPrepender_ok:
  "new_LengthFieldPrepender l a i b = Inr p \<Longrightarrow> prepender_ok p"
  by (auto simp: new_LengthFieldPrepender_def prepender_ok_def split: if_splits)

lemma ucast_word_of_int_u64: "(ucast (word_of_int k :: u64) :: i32) = word_of_int k"
  by (rule ucast_down_wi) (simp add: is_down)

lemma narrow_length:
  assumes "- (2 ^ 31) \<le> sint (a :: i32) + int n" and "sint a + int n < 2 ^ 31"
  shows "sint (ucast ((scast a :: u64) + of_nat n) :: i32) = sint a + int n"
proof -
  have "(scast a :: u64) + of_nat n = word_of_int (sint a + int n)" by simp
  then show ?thesis
    using sint_word_of_int_i32 [OF assms] by (simp only: ucast_word_of_int_u64)
qed

lemma add_i32_ok:
  assumes "- (2 ^ 31) \<le> sint a + sint b" and "sint a + sint b < 2 ^ 31"
  shows "\<exists>c. add_i32 a b = Inr c \<and> sint c = sint a + sint b"
proof -
  have "a + b = word_of_int (sint a + sint b)" by simp
  then have "sint (a + b) = sint a + sint b"
    using sint_word_of_int_i32 [OF assms] by (simp only:)
  with assms show ?thesis by (simp add: add_i32_def)
qed

lemma unat_i32_nonneg: "0 \<le> sint (w :: i32) \<Longrightarrow> unat w = nat (sint w)"
proof -
  assume "0 \<le> sint w"
  moreover have "sint w < 2 ^ 31" using sint_lt [of w] by simp
  ultimately have "take_bit LENGTH(32) (sint w) = sint w" by (intro take_bit_int_eq_self) simp_all
  then have "uint w = sint w" by (simp only: uint_sint)
  then show ?thesis by (metis nat_uint_eq)
qed

lemma unat_ucast_narrow:
  fixes w :: i32
  shows "unat w < 256 \<Longrightarrow> unat (ucast w :: 8 word) = unat w"
    and "unat w < 65536 \<Longrightarrow> unat (ucast w :: u16) = unat w"
  by (simp_all add: unsigned_ucast_eq take_bit_nat_eq_self)

lemma prepender_length:
  assumes "length_in_int p n" and "prepender_ok p"
  shows "\<exists>len. (let length0 = (ucast ((scast (p_lengthAdjustment p) :: u64) + of_nat n) :: i32) in
      if p_lengthIncludesLengthField p then add_i32 length0 (p_lengthFieldLength p) else Inr length0)
      = Inr len \<and>
      sint len = sint (p_lengthAdjustment p) + int n
        + (if p_lengthIncludesLengthField p then sint (p_lengthFieldLength p) else 0)"
proof -
  let ?l = "ucast ((scast (p_lengthAdjustment p) :: u64) + of_nat n) :: i32"
  have lo: "- (2 ^ 31) \<le> sint (p_lengthAdjustment p)"
    using sint_ge [of "p_lengthAdjustment p"] by simp
  then have s: "sint ?l = sint (p_lengthAdjustment p) + int n"
    using assms(1) by (intro narrow_length) (simp_all add: length_in_int_def)
  have "sint (p_lengthFieldLength p) = int (unat (p_lengthFieldLength p))"
    using assms(2) by (intro sint_i32_small) (auto simp: prepender_ok_def)
  then have w: "0 \<le> sint (p_lengthFieldLength p)" "sint (p_lengthFieldLength p) \<le> 8"
    using assms(2) by (auto simp: prepender_ok_def simp del: of_nat_unat)
  show ?thesis
  proof (cases "p_lengthIncludesLengthField p")
    case True
    have "- (2 ^ 31) \<le> sint ?l + sint (p_lengthFieldLength p)"
      "sint ?l + sint (p_lengthFieldLength p) < 2 ^ 31"
      using lo w assms(1) by (simp_all add: s length_in_int_def)
    from add_i32_ok [OF this] True show ?thesis by (simp add: Let_def s)
  next
    case False
    then show ?thesis by (simp add: s)
  qed
qed

context folly_io
begin

lemma prepender_refines:
  assumes p: "prepender_ok p" and n: "length_in_int p (length (concat b))"
  shows "map_sum id concat (prepender_write F p b) = prepend_spec p (concat b)"
proof -
  obtain len where len: "(let length0 = (ucast ((scast (p_lengthAdjustment p) :: u64)
          + of_nat (length (concat b))) :: i32) in
      if p_lengthIncludesLengthField p then add_i32 length0 (p_lengthFieldLength p) else Inr length0)
      = Inr len" and s: "sint len = prepend_length p (concat b)"
    using prepender_length [OF n p] by (auto simp: prepend_length_def)
  have bytes: "0 \<le> sint len \<Longrightarrow> unat len = nat (prepend_length p (concat b))"
    by (simp add: unat_i32_nonneg s)
  have "unat (scast len :: u64) = unat len" if "0 \<le> sint len"
    using that sint_lt [of len] by (intro unat_scast_i32) (simp add: unat_i32_nonneg)
  note cast = this unat_ucast_narrow [of len]
  have w: "unat (p_lengthFieldLength p) \<in> {1, 2, 4, 8}" using p by (simp add: prepender_ok_def)
  moreover have "p_lengthFieldLength p = of_nat (unat (p_lengthFieldLength p))" by simp
  ultimately consider
      "unat (p_lengthFieldLength p) = 1" "p_lengthFieldLength p = 1"
    | "unat (p_lengthFieldLength p) = 2" "p_lengthFieldLength p = 2"
    | "unat (p_lengthFieldLength p) = 4" "p_lengthFieldLength p = 4"
    | "unat (p_lengthFieldLength p) = 8" "p_lengthFieldLength p = 8"
    by fastforce
  then show ?thesis
    using bytes len
    by cases (auto simp: prepender_write_def prepend_spec_def computeChainDataLength Let_def s cast
        fresh_writeBE fresh_writeLE prependChain order_bytes_def nat_less_iff not_le not_less)
qed

end

end
