(* ===== verification/Frame_Codec.thy ===== *)
theory Frame_Codec
  imports Frame_Decoder Frame_Prepender "HOL-Library.Sublist"
begin

text \<open>
  The two framing handlers together: the contract between an encoder and a decoder of
  frames (locale \<open>frame_codec\<close>), what it gives for a stream of frames, and its
  interpretation on the decoder and prepender models. A \<open>decode_run\<close> is a sequence of
  successful calls of \<open>decode\<close>, as \<open>wangle::ByteToByteDecoder\<close> makes them.
\<close>

section \<open>Runs of the decoder\<close>

inductive decode_run :: "folly \<Rightarrow> LengthFieldBasedFrameDecoder \<Rightarrow> iobufq \<Rightarrow> iobuf list \<Rightarrow> iobufq \<Rightarrow> bool"
  for F d where
  run_stop: "decode_run F d q [] q"
| run_frame: "decode F d q = (Frame f, q') \<Longrightarrow> decode_run F d q' fs q'' \<Longrightarrow>
    decode_run F d q (f # fs) q''"

inductive_cases decode_run_ConsE: "decode_run F d q (f # fs) q''"
inductive_simps decode_run_Nil [simp]: "decode_run F d q [] q''"

section \<open>The contract of a frame codec\<close>

text \<open>
  \<open>enc\<close> is what the sender puts on the wire for a payload, \<open>dec\<close> one decoding step on the
  bytes received so far; \<open>fits\<close> are the payloads both sides agree on.
\<close>

locale frame_codec =
  fixes enc :: "string \<Rightarrow> string" and dec :: "string \<Rightarrow> string outcome \<times> string"
    and fits :: "string \<Rightarrow> bool"
  assumes enc_nonempty: "fits p \<Longrightarrow> enc p \<noteq> []"
    and dec_enc: "fits p \<Longrightarrow> dec (enc p @ rest) = (Frame p, rest)"
    and dec_partial: "fits p \<Longrightarrow> strict_prefix bs (enc p) \<Longrightarrow> dec bs = (NeedMore, bs)"
begin

text \<open>The wire image of a sequence of payloads determines the sequence.\<close>

lemma stream_inject:
  assumes "list_all fits ps" and "list_all fits qs"
    and "concat (map enc ps) = concat (map enc qs)"
  shows "ps = qs"
  using assms
proof (induction ps arbitrary: qs)
  case Nil
  then show ?case by (cases qs) (auto dest: enc_nonempty)
next
  case (Cons p ps)
  then obtain p' qs' where qs: "qs = p' # qs'"
    by (cases qs) (auto dest: enc_nonempty)
  have "dec (enc p @ concat (map enc ps)) = (Frame p, concat (map enc ps))"
    using Cons.prems(1) by (simp add: dec_enc)
  moreover have "dec (enc p' @ concat (map enc qs')) = (Frame p', concat (map enc qs'))"
    using Cons.prems(2) qs by (simp add: dec_enc)
  moreover have "enc p @ concat (map enc ps) = enc p' @ concat (map enc qs')"
    using Cons.prems(3) qs by simp
  ultimately have "(Frame p, concat (map enc ps)) = (Frame p', concat (map enc qs'))"
    by (simp only:)
  then have "p = p'" "concat (map enc ps) = concat (map enc qs')"
    by simp_all
  with Cons qs show ?case by simp
qed

end

section \<open>Prepender and decoder configurations that belong together\<close>

text \<open>
  The decoder reads a length field of the prepender's width at the start of the frame,
  undoes the prepender's adjustment and strips the field.
\<close>

definition matching :: "LengthFieldPrepender \<Rightarrow> LengthFieldBasedFrameDecoder \<Rightarrow> bool" where
  "matching p d \<longleftrightarrow>
     prepender_ok p \<and> supported d \<and>
     d_lengthFieldLength d = p_lengthFieldLength p \<and> d_lengthFieldOffset d = 0 \<and>
     d_lengthFieldEndOffset d = p_lengthFieldLength p \<and>
     d_initialBytesToStrip d = p_lengthFieldLength p \<and>
     d_networkByteOrder d = p_networkByteOrder p \<and>
     sint (d_lengthAdjustment d) =
       - sint (p_lengthAdjustment p)
       - (if p_lengthIncludesLengthField p then sint (p_lengthFieldLength p) else 0)"

lemma matchingD:
  assumes "matching p d"
  shows "prepender_ok p" and "supported d" and "d_lengthFieldLength d = p_lengthFieldLength p"
    and "d_lengthFieldOffset d = 0" and "d_lengthFieldEndOffset d = p_lengthFieldLength p"
    and "d_initialBytesToStrip d = p_lengthFieldLength p"
    and "d_networkByteOrder d = p_networkByteOrder p"
    and "sint (d_lengthAdjustment d) + prepend_length p s = int (length s)"
  using assms by (auto simp: matching_def prepend_length_def)

text \<open>A length the prepender wrote is read back by the decoder.\<close>

lemma prepend_spec_Inr:
  assumes "prepend_spec p s = Inr out"
  shows "0 \<le> prepend_length p s"
    and "out = order_bytes (p_networkByteOrder p) (unat (p_lengthFieldLength p)) (nat (prepend_length p s)) @ s"
    and "unat (p_lengthFieldLength p) < 4 \<Longrightarrow> prepend_length p s < 256 ^ unat (p_lengthFieldLength p)"
  using assms by (auto simp: prepend_spec_def Let_def split: if_splits)

lemma field_value_prepended:
  assumes m: "matching p d" and out: "prepend_spec p s = Inr out" and n: "length_in_int p (length s)"
  shows "int (field_value d (out @ rest)) = prepend_length p s"
proof -
  let ?w = "unat (p_lengthFieldLength p)" and ?len = "nat (prepend_length p s)"
  have w: "?w \<in> {1, 2, 4, 8}" using matchingD(1) [OF m] by (simp add: prepender_ok_def)
  then have "sint (p_lengthFieldLength p) = int ?w" by (intro sint_i32_small) auto
  then have sw: "sint (p_lengthFieldLength p) \<le> 8" using w by (auto simp del: of_nat_unat)
  have "prepend_length p s < 256 ^ ?w"
  proof (cases "?w < 4")
    case True
    then show ?thesis by (rule prepend_spec_Inr(3) [OF out])
  next
    case False
    then have "(256 :: int) ^ 4 \<le> 256 ^ ?w" by (intro power_increasing) simp_all
    moreover have "prepend_length p s < 2 ^ 31"
      using n sw by (simp add: prepend_length_def length_in_int_def)
    ultimately show ?thesis by simp
  qed
  then have "?len < 256 ^ ?w"
    by (simp add: nat_less_iff [OF prepend_spec_Inr(1) [OF out]])
  moreover have "field_value d (out @ rest) = ?len mod 256 ^ ?w"
    by (simp add: field_value_def matchingD(3,4,7) [OF m] prepend_spec_Inr(2) [OF out] byte_simps)
  ultimately show ?thesis using prepend_spec_Inr(1) [OF out] by simp
qed

lemma frame_length_prepended:
  assumes m: "matching p d" and out: "prepend_spec p s = Inr out" and n: "length_in_int p (length s)"
  shows "frame_length d (out @ rest) = int (unat (p_lengthFieldLength p) + length s)"
  using field_value_prepended [OF assms, of rest] matchingD(8) [OF m, of s]
  by (simp add: frame_length_def matchingD(5) [OF m] del: of_nat_unat)

lemma decode_spec_prepended:
  assumes m: "matching p d" and out: "prepend_spec p s = Inr out" and n: "length_in_int p (length s)"
    and b: "unat (p_lengthFieldLength p) + length s \<le> unat (d_maxFrameLength d)"
  shows "decode_spec d (out @ rest) = (Frame s, rest)"
proof -
  obtain h where h: "out = h @ s" "length h = unat (p_lengthFieldLength p)"
    by (simp add: prepend_spec_Inr(2) [OF out])
  have "frame_length d (h @ s @ rest) = int (unat (p_lengthFieldLength p) + length s)"
    using frame_length_prepended [OF m out n, of rest] h(1) by simp
  with b h(2) show ?thesis
    by (simp add: h(1) decode_spec_def Let_def matchingD(5,6) [OF m] del: of_nat_add of_nat_unat)
qed

lemma decode_spec_prepended_large:
  assumes m: "matching p d" and out: "prepend_spec p s = Inr out" and n: "length_in_int p (length s)"
    and b: "\<not> unat (p_lengthFieldLength p) + length s \<le> unat (d_maxFrameLength d)"
  shows "decode_spec d (out @ rest) =
    (FireReadException (''Frame larger than '' @ dec_nat (unat (d_maxFrameLength d))), rest)"
proof -
  obtain h where h: "out = h @ s" "length h = unat (p_lengthFieldLength p)"
    by (simp add: prepend_spec_Inr(2) [OF out])
  have "frame_length d (h @ s @ rest) = int (unat (p_lengthFieldLength p) + length s)"
    using frame_length_prepended [OF m out n, of rest] h(1) by simp
  with b h(2) show ?thesis
    by (simp add: h(1) decode_spec_def Let_def matchingD(5,6) [OF m] del: of_nat_add of_nat_unat)
qed

text \<open>What is still missing from a frame is waited for.\<close>

lemma decode_spec_partial:
  assumes m: "matching p d" and out: "prepend_spec p s = Inr out" and n: "length_in_int p (length s)"
    and b: "unat (p_lengthFieldLength p) + length s \<le> unat (d_maxFrameLength d)"
    and pre: "strict_prefix bs out"
  shows "decode_spec d bs = (NeedMore, bs)"
proof (cases "length bs < unat (p_lengthFieldLength p)")
  case True
  then show ?thesis by (simp add: decode_spec_def Let_def matchingD(5) [OF m])
next
  case False
  from pre obtain r where r: "out = bs @ r" by (auto simp: strict_prefix_def prefix_def)
  have "length out = unat (p_lengthFieldLength p) + length s"
    by (simp add: prepend_spec_Inr(2) [OF out])
  moreover have "length bs < length out" using pre by (rule prefix_length_less)
  ultimately have lt: "length bs < unat (p_lengthFieldLength p) + length s" by simp
  have "frame_length d bs = frame_length d out"
    using False unfolding r
    by (intro frame_length_append [symmetric]) (simp_all add: matchingD(2,5) [OF m])
  also have "\<dots> = int (unat (p_lengthFieldLength p) + length s)"
    using frame_length_prepended [OF m out n, of "[]"] by simp
  finally show ?thesis
    using lt False b by (simp add: decode_spec_def Let_def matchingD(5) [OF m] del: of_nat_add of_nat_unat)
qed

section \<open>The configuration of the minigame server\<close>

definition minigame_prepender :: LengthFieldPrepender where
  "minigame_prepender = \<lparr>p_lengthFieldLength = 2, p_lengthAdjustment = 0,
     p_lengthIncludesLengthField = False, p_networkByteOrder = False\<rparr>"

lemma new_minigame_prepender: "new_LengthFieldPrepender 2 0 False False = Inr minigame_prepender"
  by (simp add: new_LengthFieldPrepender_def minigame_prepender_def)

lemma prepender_ok_minigame [simp]: "prepender_ok minigame_prepender"
  by (simp add: prepender_ok_def minigame_prepender_def)

lemma matching_minigame [simp]: "matching minigame_prepender minigame_decoder"
  by (simp add: matching_def) (simp add: minigame_prepender_def minigame_decoder_def)

lemma length_in_int_minigame: "n < 2 ^ 30 \<Longrightarrow> length_in_int minigame_prepender n"
  by (simp add: length_in_int_def minigame_prepender_def)

lemma prepend_minigame:
  "prepend_spec minigame_prepender s =
     (if 65536 \<le> length s then Inl (RuntimeError ''length does not fit byte'')
      else Inr (le_bytes 2 (length s) @ s))"
  by (simp add: prepend_spec_def prepend_length_def minigame_prepender_def order_bytes_def Let_def)

lemma field_fits_minigame [simp]: "field_fits minigame_decoder bs"
  by (rule field_fits_narrow) (simp_all, simp add: minigame_decoder_def)

interpretation minigame: frame_codec
  "\<lambda>s. le_bytes 2 (length s) @ s" "decode_spec minigame_decoder" "\<lambda>s. length s \<le> 65534"
proof
  fix s rest bs :: string
  assume s: "length s \<le> 65534"
  then have out: "prepend_spec minigame_prepender s = Inr (le_bytes 2 (length s) @ s)"
    and n: "length_in_int minigame_prepender (length s)"
    and b: "unat (p_lengthFieldLength minigame_prepender) + length s \<le> unat (d_maxFrameLength minigame_decoder)"
    by (simp_all add: prepend_minigame length_in_int_minigame)
      (simp add: minigame_prepender_def minigame_decoder_def)
  show "le_bytes 2 (length s) @ s \<noteq> []" by simp
  show "decode_spec minigame_decoder ((le_bytes 2 (length s) @ s) @ rest) = (Frame s, rest)"
    by (rule decode_spec_prepended [OF matching_minigame out n b])
  show "decode_spec minigame_decoder bs = (NeedMore, bs)" if "strict_prefix bs (le_bytes 2 (length s) @ s)"
    by (rule decode_spec_partial [OF matching_minigame out n b that])
qed

section \<open>Properties\<close>

text \<open>
  C26: for every width the constructor accepts and every message whose adjusted length
  stays inside \<open>int\<close>, the prepender does what its class comment says: it refuses a
  negative length and a length that does not fit a one- or two-byte field, and otherwise
  puts the length in the configured byte order in front of the unchanged message.
\<close>

theorem prepender_refines_spec:
  assumes "folly_io F" and "prepender_ok p" and "length_in_int p (length (concat b))"
  shows "map_sum id concat (prepender_write F p b) = prepend_spec p (concat b)"
  by (rule folly_io.prepender_refines [OF assms])

theorem prepender_refines_spec_witness:
  "map_sum id concat (prepender_write folly_ref
     \<lparr>p_lengthFieldLength = 2, p_lengthAdjustment = 0, p_lengthIncludesLengthField = True,
      p_networkByteOrder = True\<rparr> [''HELLO, WORLD'']) = Inr ([CHR 0x00, CHR 0x0E] @ ''HELLO, WORLD'')"
proof -
  let ?p = "\<lparr>p_lengthFieldLength = 2, p_lengthAdjustment = 0, p_lengthIncludesLengthField = True,
      p_networkByteOrder = True\<rparr>"
  have "map_sum id concat (prepender_write folly_ref ?p [''HELLO, WORLD''])
      = prepend_spec ?p (concat [''HELLO, WORLD''])"
    by (rule prepender_refines_spec [OF folly_ref_laws(1)])
      (simp_all add: prepender_ok_def length_in_int_def)
  then show ?thesis
    by (simp add: prepend_spec_def prepend_length_def byte_eval)
qed

text \<open>
  C4: round trip. Take a prepender of any accepted width, byte order and adjustment, and a
  decoder with the same width and byte order whose adjustment takes the prepender's back, that
  reads the field at the start and strips it, is not below minus the width (below, every frame
  is rejected, see \<open>deep_adjustment_rejects_every_frame\<close>) and whose \<open>maxFrameLength\<close> is below
  \<open>2 ^ 31\<close>. Whatever the prepender framed (a message whose adjusted length stays inside \<open>int\<close>),
  and however the bytes are split into buffers: if field and message together are within
  \<open>maxFrameLength\<close>, the decoder gives back exactly the message, and otherwise it reports it as
  too large and drops it; what follows the frame is left in the queue in both cases.
\<close>

theorem prepend_then_decode:
  assumes "folly_io F" and m: "matching p d" and n: "length_in_int p (length (concat b))"
    and w: "prepender_write F p b = Inr out" and q: "concat q = concat out @ rest"
  shows "flat (decode F d q) =
    (if unat (p_lengthFieldLength p) + length (concat b) \<le> unat (d_maxFrameLength d) then (Frame (concat b), rest)
     else (FireReadException (''Frame larger than '' @ dec_nat (unat (d_maxFrameLength d))), rest))"
proof -
  have "map_sum id concat (prepender_write F p b) = prepend_spec p (concat b)"
    by (rule folly_io.prepender_refines [OF assms(1) matchingD(1) [OF m] n])
  then have out: "prepend_spec p (concat b) = Inr (concat out)" by (simp add: w)
  have "frame_length d (concat q) = int (unat (p_lengthFieldLength p) + length (concat b))"
    unfolding q by (rule frame_length_prepended [OF m out n])
  moreover have "unat (p_lengthFieldLength p) + length (concat b) < 2 ^ 34"
    using matchingD(1) [OF m] n sint_ge [of "p_lengthAdjustment p"] by (auto simp: prepender_ok_def length_in_int_def)
  ultimately have "field_fits d (concat q)"
    by (simp add: field_fits_def del: of_nat_unat)
  then show ?thesis
    using folly_io.decode_refines [OF assms(1) matchingD(2) [OF m]]
      decode_spec_prepended [OF m out n, of rest] decode_spec_prepended_large [OF m out n, of rest] by (simp add: q)
qed

theorem prepend_then_decode_witness:
  "\<exists>out. prepender_write folly_ref minigame_prepender [''ab'', ''c''] = Inr out \<and>
     flat (decode folly_ref minigame_decoder (out @ [''rest''])) = (Frame ''abc'', ''rest'') \<and>
     flat (decode folly_ref (minigame_decoder\<lparr>d_maxFrameLength := 4\<rparr>) (out @ [''rest''])) = (FireReadException ''Frame larger than 4'', ''rest'')"
proof -
  let ?out = "[[CHR 0x03, CHR 0x00], ''ab'', ''c'']"
  let ?d = "minigame_decoder\<lparr>d_maxFrameLength := 4\<rparr>"
  have w: "prepender_write folly_ref minigame_prepender [''ab'', ''c''] = Inr ?out"
    by (simp add: prepender_write_def minigame_prepender_def folly_ref_def byte_eval)
  have n: "length_in_int minigame_prepender (length (concat [''ab'', ''c'']))" by (simp add: length_in_int_minigame)
  have m: "matching minigame_prepender ?d"
    by (simp add: matching_def) (simp add: minigame_prepender_def minigame_decoder_def supported_def field_placed_def)
  have "flat (decode folly_ref minigame_decoder (?out @ [''rest''])) = (Frame ''abc'', ''rest'')"
    using prepend_then_decode [OF folly_ref_laws(1) matching_minigame n w, of "?out @ [''rest'']" "''rest''"]
    by (simp add: minigame_prepender_def minigame_decoder_def)
  moreover have "flat (decode folly_ref ?d (?out @ [''rest''])) = (FireReadException ''Frame larger than 4'', ''rest'')"
    using prepend_then_decode [OF folly_ref_laws(1) m n w, of "?out @ [''rest'']" "''rest''"]
    by (simp add: minigame_prepender_def byte_eval)
  ultimately show ?thesis using w by (intro exI [of _ ?out]) simp
qed

text \<open>
  C5: a whole stream. If the bytes of the queue are framed messages of at most 65534 bytes
  each followed by the beginning of another frame, then a run of \<open>decode\<close> delivers exactly
  these messages in order, keeps the incomplete frame untouched and then waits; the buffer
  boundaries of the queue play no role.
\<close>

lemma decode_stream_run:
  assumes F: "folly_io F"
  shows "list_all (\<lambda>s. length s \<le> 65534) ps \<Longrightarrow>
    concat q = concat (map (\<lambda>s. le_bytes 2 (length s) @ s) ps) @ tail \<Longrightarrow>
    \<exists>fs q'. decode_run F minigame_decoder q fs q' \<and> map concat fs = ps \<and> concat q' = tail"
proof (induction ps arbitrary: q)
  case Nil
  then show ?case by (intro exI [of _ "[]"] exI [of _ q]) simp
next
  case (Cons s ps)
  let ?rest = "concat (map (\<lambda>s. le_bytes 2 (length s) @ s) ps) @ tail"
  have "flat (decode F minigame_decoder q) = decode_spec minigame_decoder (concat q)"
    by (rule folly_io.decode_refines [OF F]) simp_all
  also have "\<dots> = (Frame s, ?rest)"
    using minigame.dec_enc [of s ?rest] Cons.prems by (simp del: le_bytes_numeral)
  finally obtain f q1 where f: "decode F minigame_decoder q = (Frame f, q1)" "concat f = s"
      "concat q1 = ?rest"
    by (cases "decode F minigame_decoder q") (auto simp: flat_eq_iff)
  with Cons.IH [of q1] Cons.prems obtain fs q' where
      "decode_run F minigame_decoder q1 fs q'" "map concat fs = ps" "concat q' = tail" by auto
  with f show ?case by (intro exI [of _ "f # fs"] exI [of _ q']) (auto intro: run_frame)
qed

theorem decode_stream:
  assumes "folly_io F" and "list_all (\<lambda>s. length s \<le> 65534) ps"
    and "concat q = concat (map (\<lambda>s. le_bytes 2 (length s) @ s) ps) @ tail"
    and "length s \<le> 65534" and "strict_prefix tail (le_bytes 2 (length s) @ s)"
  shows "\<exists>fs q'. decode_run F minigame_decoder q fs q' \<and> map concat fs = ps \<and>
     concat q' = tail \<and> decode F minigame_decoder q' = (NeedMore, q')"
proof -
  obtain fs q' where run: "decode_run F minigame_decoder q fs q'" "map concat fs = ps" "concat q' = tail"
    using decode_stream_run [OF assms(1-3)] by blast
  have "flat (decode F minigame_decoder q') = (NeedMore, tail)"
    using folly_io.decode_refines [OF assms(1) supported_minigame field_fits_minigame, of q']
      minigame.dec_partial [OF assms(4,5)] run(3) by simp
  then have "decode F minigame_decoder q' = (NeedMore, q')"
    by (cases "decode F minigame_decoder q'") (auto simp: flat_eq_iff dest: decode_NeedMore)
  with run show ?thesis by blast
qed

theorem decode_stream_witness:
  "\<exists>fs q'. decode_run folly_ref minigame_decoder [[CHR 0x01], [CHR 0x00, CHR ''a'', CHR 0x02]] fs q' \<and>
     map concat fs = [''a''] \<and> concat q' = [CHR 0x02] \<and> decode folly_ref minigame_decoder q' = (NeedMore, q')"
proof (rule decode_stream [OF folly_ref_laws(1), where s = "''bc''"])
  show "strict_prefix [CHR 0x02] (le_bytes 2 (length ''bc'') @ ''bc'')"
    unfolding strict_prefix_def by code_simp
qed (simp_all add: byte_eval)

text \<open>
  C39: the two ends disagree on the longest message. The prepender frames a message of
  65535 bytes, the decoder refuses that frame because the length field counts towards its
  bound of 65536, and drops it.
\<close>

theorem longest_frame_is_refused:
  assumes F: "folly_io F" and len: "length (concat b) = 65535"
  shows "\<exists>out. prepender_write F minigame_prepender b = Inr out \<and>
    flat (decode F minigame_decoder out) = (FireReadException ''Frame larger than 65536'', [])"
proof -
  let ?s = "concat b"
  have n: "length_in_int minigame_prepender (length ?s)"
    by (rule length_in_int_minigame) (simp add: len)
  have out: "prepend_spec minigame_prepender ?s = Inr (le_bytes 2 65535 @ ?s)"
    by (simp add: prepend_minigame len del: le_bytes_numeral)
  obtain out' where w: "prepender_write F minigame_prepender b = Inr out'"
      "concat out' = le_bytes 2 65535 @ ?s"
    using folly_io.prepender_refines [OF F prepender_ok_minigame n] out
    by (cases "prepender_write F minigame_prepender b") auto
  have "frame_length minigame_decoder (concat out') = 65537"
    using frame_length_prepended [OF matching_minigame out n, of "[]"]
    by (simp add: w(2) len minigame_prepender_def del: le_bytes_numeral)
  then have "decode_spec minigame_decoder (concat out')
      = (FireReadException (''Frame larger than '' @ dec_nat 65536), [])"
    by (simp add: decode_spec_def Let_def w(2) len minigame_decoder_def)
  moreover have "dec_nat 65536 = ''65536''" by (simp add: byte_eval)
  ultimately show ?thesis
    using w(1) folly_io.decode_refines [OF F supported_minigame field_fits_minigame, of out'] by auto
qed

theorem longest_frame_is_refused_witness:
  "\<exists>out. prepender_write folly_ref minigame_prepender [replicate 65535 CHR ''x''] = Inr out \<and>
    flat (decode folly_ref minigame_decoder out) = (FireReadException ''Frame larger than 65536'', [])"
  by (rule longest_frame_is_refused [OF folly_ref_laws(1)]) simp

end
