(* ===== verification/Opcode_Handler.thy ===== *)
theory Opcode_Handler
  imports Folly_IO
begin

text \<open>
  \<open>littleB::OpcodeInjectHandler\<close> (\<open>libsrc/handlers\<close>) and the constants of
  \<open>common_def.h\<close>: the command id in front of a frame is read inbound and written
  outbound, where the reply to command \<open>n\<close> carries the id \<open>n + 1\<close>. The read goes over all
  buffers of a frame, the trimming that follows it over the first one only.
\<close>

section \<open>Operations\<close>

definition PKG_LENGTH_FIELD_SIZE :: u32 where "PKG_LENGTH_FIELD_SIZE = 2"

definition OPCODE_SIZE :: nat where "OPCODE_SIZE = 2"

type_synonym CmdBufPair = "u32 \<times> iobuf"

text \<open>
  \<open>IOBuf::trimStart\<close> moves the start of the first buffer; beyond its length it is undefined.
\<close>

definition trim_first :: "folly \<Rightarrow> nat \<Rightarrow> iobuf \<Rightarrow> iobuf result" where
  "trim_first F n msg =
     (if length (io_data F msg) < n then Inl (UndefinedBehaviour ''trimStart beyond the first buffer'')
      else Inr (io_trimStart F n msg))"

text \<open>\<open>read\<close>: the pair it passes to \<open>fireRead\<close>, or the exception of the cursor.\<close>

definition opcode_read :: "folly \<Rightarrow> iobuf \<Rightarrow> CmdBufPair result" where
  "opcode_read F msg =
     (if OPCODE_SIZE = 4 then
        bind_res (cur_readLE F 4 msg) (\<lambda>cmd_id. bind_res (trim_first F 4 msg) (\<lambda>msg. Inr (of_nat cmd_id, msg)))
      else
        bind_res (cur_readLE F 2 msg) (\<lambda>cmd_id. bind_res (trim_first F 2 msg) (\<lambda>msg. Inr (of_nat cmd_id, msg))))"

text \<open>\<open>write\<close>: the buffer it passes to \<open>fireWrite\<close>.\<close>

definition opcode_write :: "folly \<Rightarrow> CmdBufPair \<Rightarrow> iobuf result" where
  "opcode_write F msg =
     (let c = io_append F OPCODE_SIZE (io_create F OPCODE_SIZE) in
      bind_res
        (if OPCODE_SIZE = 4 then cur_writeLE F 4 (unat (fst msg + 1)) c
         else cur_writeLE F 2 (unat (ucast (fst msg + 1) :: u16)) c)
        (\<lambda>opcode_buf. Inr (io_prependChain F opcode_buf (snd msg))))"

section \<open>Lemmas\<close>

lemma unat_ucast_u16: "unat (ucast (x :: u32) :: u16) = unat x mod 65536"
  by (simp add: unsigned_ucast_eq take_bit_eq_mod)

context folly_io
begin

lemma opcode_read_head:
  assumes "2 \<le> length s"
  shows "opcode_read F (s # ss) = Inr (of_nat (le_val (take 2 s)), drop 2 s # ss)"
  using assms by (simp add: opcode_read_def OPCODE_SIZE_def readLE io_trimStart trim_first_def io_data)

text \<open>The two ways to fail: not enough bytes in the chain, or not enough in its first buffer.\<close>

lemma opcode_read_short: "length (concat msg) < 2 \<Longrightarrow> opcode_read F msg = Inl OutOfRange"
  by (simp add: opcode_read_def OPCODE_SIZE_def readLE)

lemma opcode_read_cut:
  "2 \<le> length (concat (s # ss)) \<Longrightarrow> length s < 2 \<Longrightarrow>
     opcode_read F (s # ss) = Inl (UndefinedBehaviour ''trimStart beyond the first buffer'')"
  by (simp add: opcode_read_def OPCODE_SIZE_def readLE trim_first_def io_data)

lemma opcode_write_eq:
  "opcode_write F (cmd_id, body) = Inr (le_bytes 2 (unat (cmd_id + 1) mod 65536) # body)"
  by (simp add: opcode_write_def OPCODE_SIZE_def fresh_writeLE prependChain unat_ucast_u16
      del: le_bytes_numeral)

end

section \<open>The reply protocol\<close>

text \<open>
  What \<open>write\<close> sends for command \<open>n\<close>, read back by the same
  handler, is command \<open>n + 1\<close> modulo \<open>2 ^ 16\<close> with the body unchanged, so ids up to 65534
  survive and the reply to 65535 is 0.
\<close>

lemma opcode_reply_roundtrip:
  assumes "folly_io F"
  shows "\<exists>out body'. opcode_write F (cmd_id, body) = Inr out \<and>
    opcode_read F out = Inr (of_nat (unat (cmd_id + 1) mod 65536), body') \<and>
    concat body' = concat body"
proof -
  let ?h = "le_bytes 2 (unat (cmd_id + 1) mod 65536)"
  have "le_val (take 2 ?h) = unat (cmd_id + 1) mod 65536"
    by (simp only: take_all length_le_bytes le_refl le_val_le_bytes) simp
  then have "opcode_read F (?h # body) = Inr (of_nat (unat (cmd_id + 1) mod 65536), drop 2 ?h # body)"
    using folly_io.opcode_read_head [OF assms, of ?h body] by (simp del: le_bytes_numeral)
  then show ?thesis
    using folly_io.opcode_write_eq [OF assms, of cmd_id body]
    by (intro exI [of _ "?h # body"] exI [of _ "drop 2 ?h # body"]) (simp del: le_bytes_numeral)
qed

end
