(* ===== verification/Tables.thy ===== *)
theory Tables
  imports LB_Prelude
begin

text \<open>
  The two contracts the managers of the system provide to their clients: a table in memory
  that is only inserted into (\<open>std::map::insert\<close> and \<open>emplace\<close>, which never overwrite), and
  a table of objects kept in the database. The clients' lemmas are proved once here; the
  theories of the managers interpret the locales on their models.
\<close>

section \<open>A table that insertion never overwrites\<close>

locale insert_table =
  fixes lookup :: "'s \<Rightarrow> 'k \<Rightarrow> 'v option" and insert :: "'k \<Rightarrow> 'v \<Rightarrow> 's \<Rightarrow> bool \<times> 's"
  assumes insert_fresh: "lookup s k = None \<Longrightarrow>
      fst (insert k v s) \<and> lookup (snd (insert k v s)) = (lookup s)(k \<mapsto> v)"
    and insert_taken: "lookup s k \<noteq> None \<Longrightarrow> insert k v s = (False, s)"
begin

lemma insert_reports: "fst (insert k v s) \<longleftrightarrow> lookup s k = None"
  by (cases "lookup s k = None") (auto simp: insert_fresh insert_taken)

lemma lookup_insert:
  "lookup (snd (insert k v s)) k' =
     (if k' = k then (case lookup s k of None \<Rightarrow> Some v | Some w \<Rightarrow> Some w) else lookup s k')"
  by (cases "lookup s k") (auto simp: insert_fresh insert_taken)

lemma insert_twice: "lookup (snd (insert k w (snd (insert k v s)))) = lookup (snd (insert k v s))"
  by (simp add: insert_taken lookup_insert split: option.splits)

text \<open>A sequence of insertions: entries that were there stay, and the first new one wins.\<close>

lemma lookup_insert_all:
  "lookup (fold (\<lambda>(k, v) s. snd (insert k v s)) kvs s) k =
     (case lookup s k of Some w \<Rightarrow> Some w | None \<Rightarrow> map_of kvs k)"
proof (induction kvs arbitrary: s)
  case Nil
  then show ?case by (simp split: option.splits)
next
  case (Cons kv kvs)
  then show ?case
    by (cases kv) (auto simp: lookup_insert split: option.splits)
qed

end

section \<open>A table kept in the database\<close>

text \<open>
  \<open>view\<close> is what the table holds under a \<open>key\<close>, \<open>push\<close> stores a value under its key and
  \<open>pull\<close> fetches it; \<open>abs\<close> forgets what the encoding does not keep.
\<close>

locale persistent_table =
  fixes ok :: "'s \<Rightarrow> bool" and view :: "'s \<Rightarrow> 'k \<Rightarrow> 'w option" and abs :: "'v \<Rightarrow> 'w"
    and key :: "'k \<Rightarrow> bool" and good :: "'k \<Rightarrow> 'v \<Rightarrow> bool"
    and push :: "'k \<Rightarrow> 'v \<Rightarrow> ('s, bool) action" and pull :: "'k \<Rightarrow> ('s, 'v option) action"
  assumes good_key: "good k v \<Longrightarrow> key k"
    and push: "ok s \<Longrightarrow> good k v \<Longrightarrow>
      \<exists>s'. push k v s = (Inr True, s') \<and> ok s' \<and> view s' = (view s)(k \<mapsto> abs v)"
    and pull: "ok s \<Longrightarrow> key k \<Longrightarrow>
      \<exists>r s'. pull k s = (Inr r, s') \<and> map_option abs r = view s k \<and> ok s' \<and> view s' = view s"
begin

lemma push_then_pull:
  assumes "ok s" and "good k v"
  shows "\<exists>v' s1 s2. push k v s = (Inr True, s1) \<and> pull k s1 = (Inr (Some v'), s2) \<and> abs v' = abs v"
proof -
  obtain s1 where s1: "push k v s = (Inr True, s1)" "ok s1" "view s1 = (view s)(k \<mapsto> abs v)"
    using push [OF assms] by blast
  obtain r s2 where "pull k s1 = (Inr r, s2)" "map_option abs r = view s1 k"
    using pull [OF s1(2) good_key [OF assms(2)]] by blast
  with s1 show ?thesis by auto
qed

text \<open>Pushes under other keys do not disturb a pull, and the last push under a key wins.\<close>

lemma push_all_view:
  "ok s \<Longrightarrow> list_all (\<lambda>(k, v). good k v) kvs \<Longrightarrow>
     ok (fold (\<lambda>(k, v) s. snd (push k v s)) kvs s) \<and>
     view (fold (\<lambda>(k, v) s. snd (push k v s)) kvs s) = view s ++ map_of (rev (map (apsnd abs) kvs))"
proof (induction kvs arbitrary: s)
  case (Cons kv kvs)
  obtain k v where kv: "kv = (k, v)" by (cases kv)
  obtain s1 where s1: "push k v s = (Inr True, s1)" "ok s1" "view s1 = (view s)(k \<mapsto> abs v)"
    using push [of s k v] Cons.prems kv by auto
  with Cons.IH [OF s1(2)] Cons.prems kv show ?case
    by (auto simp: map_add_def fun_eq_iff map_of_append split: option.splits)
qed simp

lemma push_all_pull:
  assumes "ok s" and "list_all (\<lambda>(k, v). good k v) kvs" and "key k"
  shows "\<exists>r s'. pull k (fold (\<lambda>(k, v) s. snd (push k v s)) kvs s) = (Inr r, s') \<and>
    map_option abs r = (case map_of (rev kvs) k of Some v \<Rightarrow> Some (abs v) | None \<Rightarrow> view s k)"
proof -
  have "map_of (map (apsnd abs) xs) k = map_option abs (map_of xs k)" for xs
    by (induction xs) auto
  then have "map_of (rev (map (apsnd abs) kvs)) k = map_option abs (map_of (rev kvs) k)"
    by (simp add: rev_map)
  with push_all_view [OF assms(1,2)] pull [OF _ assms(3)] show ?thesis
    by (fastforce simp: map_add_def split: option.splits)
qed

end

end
