(* ===== verification/Messages.thy ===== *)
theory Messages
  imports LB_Prelude
begin

text \<open>
  The protocol buffer messages of the system: the schemas under \<open>libsrc/proto\<close> and
  \<open>minigame_server/proto\<close> as records, the polymorphic \<open>google::protobuf::Message\<close> as a sum
  of them, and the conversions between \<open>double\<close> and \<open>int32\<close> the task service performs. The
  code \<open>protoc\<close> generates is not part of the sources: parsing and serialising are the
  fields of the record \<open>protobuf\<close>, and the locale \<open>protobuf_wire\<close> states what the server
  relies on.
\<close>

section \<open>Schemas\<close>

text \<open>\<open>login.proto\<close> and \<open>register.proto\<close>.\<close>

record LoginReq =
  lq_rpcid :: i32
  lq_account :: string
  lq_password :: string

record LoginRsp =
  lr_rpcid :: i32
  lr_error :: i32
  lr_message :: string
  lr_gid :: i32
  lr_is_returning_visitor :: bool

datatype LoginErrorCode = LOGIN_SUCCEED | LOGIN_UNKOWN_EORROR | LOGIN_PASSWORD_WRONG | LOGIN_NOT_REGISTERED

fun LoginErrorCode_value :: "LoginErrorCode \<Rightarrow> i32" where
  "LoginErrorCode_value LOGIN_SUCCEED = 0"
| "LoginErrorCode_value LOGIN_UNKOWN_EORROR = 200001"
| "LoginErrorCode_value LOGIN_PASSWORD_WRONG = 200002"
| "LoginErrorCode_value LOGIN_NOT_REGISTERED = 200003"

fun LoginErrorCode_Name :: "LoginErrorCode \<Rightarrow> string" where
  "LoginErrorCode_Name LOGIN_SUCCEED = ''SUCCEED''"
| "LoginErrorCode_Name LOGIN_UNKOWN_EORROR = ''UNKOWN_EORROR''"
| "LoginErrorCode_Name LOGIN_PASSWORD_WRONG = ''LOGIN_PASSWORD_WRONG''"
| "LoginErrorCode_Name LOGIN_NOT_REGISTERED = ''LOGIN_NOT_REGISTERED''"

record RegisterReq =
  rq_rpcid :: i32
  rq_account :: string
  rq_password :: string

record RegisterRsp =
  rr_rpcid :: i32
  rr_error :: i32
  rr_message :: string
  rr_gid :: i32

datatype RegisterErrorCode = REGISTER_SUCCEED | REGISTER_UNKOWN_EORROR | ACCOUNT_ALREADY_EXIST

fun RegisterErrorCode_value :: "RegisterErrorCode \<Rightarrow> i32" where
  "RegisterErrorCode_value REGISTER_SUCCEED = 0"
| "RegisterErrorCode_value REGISTER_UNKOWN_EORROR = 200001"
| "RegisterErrorCode_value ACCOUNT_ALREADY_EXIST = 200002"

fun RegisterErrorCode_Name :: "RegisterErrorCode \<Rightarrow> string" where
  "RegisterErrorCode_Name REGISTER_SUCCEED = ''SUCCEED''"
| "RegisterErrorCode_Name REGISTER_UNKOWN_EORROR = ''UNKOWN_EORROR''"
| "RegisterErrorCode_Name ACCOUNT_ALREADY_EXIST = ''ACCOUNT_ALREADY_EXIST''"

text \<open>\<open>role.proto\<close>; a message field that is not set reads as the default message.\<close>

record TaskProgress =
  main_task_id :: i32

record BasicInfo =
  player_id :: i32
  is_returning_visitor :: bool
  username :: string

record RoleInfo =
  opt_basic_info :: "BasicInfo option"
  opt_progress :: "TaskProgress option"

definition default_BasicInfo :: BasicInfo where
  "default_BasicInfo = \<lparr>player_id = 0, is_returning_visitor = False, username = []\<rparr>"

definition default_TaskProgress :: TaskProgress where
  "default_TaskProgress = \<lparr>main_task_id = 0\<rparr>"

definition empty_role :: RoleInfo where
  "empty_role = \<lparr>opt_basic_info = None, opt_progress = None\<rparr>"

definition basic_info :: "RoleInfo \<Rightarrow> BasicInfo" where
  "basic_info r = (case opt_basic_info r of None \<Rightarrow> default_BasicInfo | Some b \<Rightarrow> b)"

definition mutable_basic_info :: "(BasicInfo \<Rightarrow> BasicInfo) \<Rightarrow> RoleInfo \<Rightarrow> RoleInfo" where
  "mutable_basic_info f r = r\<lparr>opt_basic_info := Some (f (basic_info r))\<rparr>"

definition mutable_progress :: "(TaskProgress \<Rightarrow> TaskProgress) \<Rightarrow> RoleInfo \<Rightarrow> RoleInfo" where
  "mutable_progress f r = r\<lparr>opt_progress :=
     Some (f (case opt_progress r of None \<Rightarrow> default_TaskProgress | Some p \<Rightarrow> p))\<rparr>"

text \<open>
  \<open>task_db.proto\<close>. A \<open>map\<close> field is the list of its entries in the order the container
  iterates over them, which protobuf leaves open; proto3 enums are open, so a
  \<open>ProgressState\<close> is any 32-bit number.
\<close>

type_synonym ProgressState = i32

definition NOT_EXIST :: ProgressState where "NOT_EXIST = 0"
definition START :: ProgressState where "START = 1"
definition FINISH :: ProgressState where "FINISH = 2"

record DBTaskInfo =
  tasks :: "(i32 \<times> ProgressState) list"
  db_position_x :: i32
  db_position_y :: i32

definition empty_DBTaskInfo :: DBTaskInfo where
  "empty_DBTaskInfo = \<lparr>tasks = [], db_position_x = 0, db_position_y = 0\<rparr>"

text \<open>\<open>task_progress.proto\<close> and \<open>erase_role.proto\<close>.\<close>

datatype double = Finite rat | PosInf | NegInf | NaN

record TaskQueryReq =
  tq_rpcid :: i32

record TaskQueryRsp =
  tqr_rpcid :: i32
  tqr_error :: i32
  tqr_message :: string
  done_tasks :: "i32 list"
  tqr_position_x :: double
  tqr_position_y :: double

record TaskUpdateReq =
  tu_rpcid :: i32
  finished_task_ids :: "i32 list"
  tu_position_x :: double
  tu_position_y :: double

record TaskUpdateRsp =
  tur_rpcid :: i32
  tur_error :: i32
  tur_message :: string

record EraseRoleReq =
  er_rpcid :: i32

record EraseRoleRsp =
  err_rpcid :: i32
  err_error :: i32
  err_message :: string

text \<open>The enum \<open>ErrorCode\<close> of the task and erase responses.\<close>

datatype TaskErrorCode = TASK_SUCCEED | TASK_UNKOWN_EORROR

fun TaskErrorCode_value :: "TaskErrorCode \<Rightarrow> i32" where
  "TaskErrorCode_value TASK_SUCCEED = 0"
| "TaskErrorCode_value TASK_UNKOWN_EORROR = 200001"

fun TaskErrorCode_Name :: "TaskErrorCode \<Rightarrow> string" where
  "TaskErrorCode_Name TASK_SUCCEED = ''SUCCEED''"
| "TaskErrorCode_Name TASK_UNKOWN_EORROR = ''UNKOWN_EORROR''"

text \<open>\<open>cmd_id.proto\<close>.\<close>

definition CMD_LOGIN :: u32 where "CMD_LOGIN = 101"
definition CMD_REGISTER :: u32 where "CMD_REGISTER = 103"
definition CMD_QUERY_TASK :: u32 where "CMD_QUERY_TASK = 105"
definition CMD_UPDATE_TASK :: u32 where "CMD_UPDATE_TASK = 107"
definition CMD_ERASE_ROLE :: u32 where "CMD_ERASE_ROLE = 109"

lemmas cmd_ids = CMD_LOGIN_def CMD_REGISTER_def CMD_QUERY_TASK_def CMD_UPDATE_TASK_def CMD_ERASE_ROLE_def

section \<open>Conversions between double and int32\<close>

definition double_of_i32 :: "i32 \<Rightarrow> double" where
  "double_of_i32 w = Finite (of_int (sint w))"

definition truncate_rat :: "rat \<Rightarrow> int" where
  "truncate_rat r = (if 0 \<le> r then \<lfloor>r\<rfloor> else \<lceil>r\<rceil>)"

text \<open>Towards zero; outside the range of \<open>int32\<close> the conversion is undefined.\<close>

fun i32_of_double :: "double \<Rightarrow> i32 result" where
  "i32_of_double (Finite r) =
     (let t = truncate_rat r in
      if - (2 ^ 31) \<le> t \<and> t < 2 ^ 31 then Inr (word_of_int t)
      else Inl (UndefinedBehaviour ''double out of the range of int32''))"
| "i32_of_double _ = Inl (UndefinedBehaviour ''double out of the range of int32'')"

section \<open>Polymorphic messages\<close>

datatype Message =
    MLoginReq LoginReq | MLoginRsp LoginRsp
  | MRegisterReq RegisterReq | MRegisterRsp RegisterRsp
  | MRoleInfo RoleInfo | MDBTaskInfo DBTaskInfo
  | MTaskQueryReq TaskQueryReq | MTaskQueryRsp TaskQueryRsp
  | MTaskUpdateReq TaskUpdateReq | MTaskUpdateRsp TaskUpdateRsp
  | MEraseRoleReq EraseRoleReq | MEraseRoleRsp EraseRoleRsp

datatype msg_type =
    TLoginReq | TLoginRsp | TRegisterReq | TRegisterRsp | TRoleInfo | TDBTaskInfo
  | TTaskQueryReq | TTaskQueryRsp | TTaskUpdateReq | TTaskUpdateRsp | TEraseRoleReq | TEraseRoleRsp

fun type_of :: "Message \<Rightarrow> msg_type" where
  "type_of (MLoginReq _) = TLoginReq"
| "type_of (MLoginRsp _) = TLoginRsp"
| "type_of (MRegisterReq _) = TRegisterReq"
| "type_of (MRegisterRsp _) = TRegisterRsp"
| "type_of (MRoleInfo _) = TRoleInfo"
| "type_of (MDBTaskInfo _) = TDBTaskInfo"
| "type_of (MTaskQueryReq _) = TTaskQueryReq"
| "type_of (MTaskQueryRsp _) = TTaskQueryRsp"
| "type_of (MTaskUpdateReq _) = TTaskUpdateReq"
| "type_of (MTaskUpdateRsp _) = TTaskUpdateRsp"
| "type_of (MEraseRoleReq _) = TEraseRoleReq"
| "type_of (MEraseRoleRsp _) = TEraseRoleRsp"

text \<open>\<open>dynamic_cast\<close> to the request types: nothing when the dynamic type differs.\<close>

definition as_LoginReq :: "Message \<Rightarrow> LoginReq option" where
  "as_LoginReq m = (case m of MLoginReq r \<Rightarrow> Some r | _ \<Rightarrow> None)"

definition as_RegisterReq :: "Message \<Rightarrow> RegisterReq option" where
  "as_RegisterReq m = (case m of MRegisterReq r \<Rightarrow> Some r | _ \<Rightarrow> None)"

definition as_TaskQueryReq :: "Message \<Rightarrow> TaskQueryReq option" where
  "as_TaskQueryReq m = (case m of MTaskQueryReq r \<Rightarrow> Some r | _ \<Rightarrow> None)"

definition as_TaskUpdateReq :: "Message \<Rightarrow> TaskUpdateReq option" where
  "as_TaskUpdateReq m = (case m of MTaskUpdateReq r \<Rightarrow> Some r | _ \<Rightarrow> None)"

definition as_EraseRoleReq :: "Message \<Rightarrow> EraseRoleReq option" where
  "as_EraseRoleReq m = (case m of MEraseRoleReq r \<Rightarrow> Some r | _ \<Rightarrow> None)"

definition as_RoleInfo :: "Message \<Rightarrow> RoleInfo option" where
  "as_RoleInfo m = (case m of MRoleInfo r \<Rightarrow> Some r | _ \<Rightarrow> None)"

definition as_DBTaskInfo :: "Message \<Rightarrow> DBTaskInfo option" where
  "as_DBTaskInfo m = (case m of MDBTaskInfo r \<Rightarrow> Some r | _ \<Rightarrow> None)"

lemmas msg_casts = as_LoginReq_def as_RegisterReq_def as_TaskQueryReq_def as_TaskUpdateReq_def
  as_EraseRoleReq_def as_RoleInfo_def as_DBTaskInfo_def

text \<open>The keys of a map field are distinct.\<close>

definition wf_msg :: "Message \<Rightarrow> bool" where
  "wf_msg m = (case m of MDBTaskInfo t \<Rightarrow> distinct (map fst (tasks t)) | _ \<Rightarrow> True)"

text \<open>Messages that differ at most in the order of a map field.\<close>

definition same_tasks :: "DBTaskInfo \<Rightarrow> DBTaskInfo \<Rightarrow> bool" where
  "same_tasks s t \<longleftrightarrow> map_of (tasks s) = map_of (tasks t) \<and>
     db_position_x s = db_position_x t \<and> db_position_y s = db_position_y t"

definition same_msg :: "Message \<Rightarrow> Message \<Rightarrow> bool" where
  "same_msg m n = (case (m, n) of (MDBTaskInfo s, MDBTaskInfo t) \<Rightarrow> same_tasks s t | _ \<Rightarrow> m = n)"

lemma same_msg_RoleInfo [simp]: "same_msg m (MRoleInfo r) \<longleftrightarrow> m = MRoleInfo r"
  by (cases m) (simp_all add: same_msg_def)

lemma same_msg_DBTaskInfo [simp]:
  "same_msg m (MDBTaskInfo t) \<longleftrightarrow> (\<exists>t'. m = MDBTaskInfo t' \<and> same_tasks t' t)"
  by (cases m) (simp_all add: same_msg_def)

lemma same_msg_refl [simp]: "same_msg m m"
  by (cases m) (simp_all add: same_msg_def same_tasks_def)

section \<open>The generated code\<close>

text \<open>
  \<open>ParseFromArray\<close> on a new message of a type gives whether it succeeded and what the
  message holds then; \<open>SerializeToString\<close> gives the bytes, of which \<open>ByteSize\<close> is the length.
\<close>

record protobuf =
  ParseFromArray :: "msg_type \<Rightarrow> string \<Rightarrow> bool \<times> Message"
  SerializeToString :: "Message \<Rightarrow> string"

text \<open>
  What the server relies on: the dynamic type of a parsed message is the one asked for, its
  map fields have distinct keys, and a message of a kind the wire format can carry
  (\<open>wire_ok\<close>: text fields hold UTF-8, the size is below the limit) is read back equal up
  to the order of map entries.
\<close>

locale protobuf_wire =
  fixes P :: protobuf and wire_ok :: "Message \<Rightarrow> bool"
  assumes parse_type: "type_of (snd (ParseFromArray P t s)) = t"
    and parse_wf: "wf_msg (snd (ParseFromArray P t s))"
    and roundtrip: "wire_ok m \<Longrightarrow> wf_msg m \<Longrightarrow>
      \<exists>m'. ParseFromArray P (type_of m) (SerializeToString P m) = (True, m') \<and> same_msg m' m"
begin

lemma roundtrip_role:
  "wire_ok (MRoleInfo r) \<Longrightarrow>
     ParseFromArray P TRoleInfo (SerializeToString P (MRoleInfo r)) = (True, MRoleInfo r)"
  using roundtrip [of "MRoleInfo r"]
  by (auto simp: wf_msg_def)

lemma roundtrip_tasks:
  assumes "wire_ok (MDBTaskInfo t)" and "distinct (map fst (tasks t))"
  shows "\<exists>t'. ParseFromArray P TDBTaskInfo (SerializeToString P (MDBTaskInfo t)) = (True, MDBTaskInfo t')
    \<and> same_tasks t' t \<and> distinct (map fst (tasks t'))"
proof -
  obtain m where m: "ParseFromArray P TDBTaskInfo (SerializeToString P (MDBTaskInfo t)) = (True, m)"
      "same_msg m (MDBTaskInfo t)"
    using roundtrip [of "MDBTaskInfo t"] assms by (auto simp: wf_msg_def)
  then obtain t' where "m = MDBTaskInfo t'" "same_tasks t' t"
    by auto
  moreover have "wf_msg m"
    using parse_wf [of TDBTaskInfo "SerializeToString P (MDBTaskInfo t)"] m(1) by simp
  ultimately show ?thesis using m(1) by (simp add: wf_msg_def)
qed

lemma parse_RoleInfo: "\<exists>r. snd (ParseFromArray P TRoleInfo s) = MRoleInfo r"
  using parse_type [of TRoleInfo s] by (cases "snd (ParseFromArray P TRoleInfo s)") auto

lemma parse_DBTaskInfo:
  "\<exists>t. snd (ParseFromArray P TDBTaskInfo s) = MDBTaskInfo t \<and> distinct (map fst (tasks t))"
  using parse_type [of TDBTaskInfo s] parse_wf [of TDBTaskInfo s]
  by (cases "snd (ParseFromArray P TDBTaskInfo s)") (auto simp: wf_msg_def)

end

end
