(* ===== verification/Command_Registry.thy ===== *)
theory Command_Registry
  imports Tables Messages
begin

text \<open>
  \<open>littleB::CommandManager\<close> and \<open>littleB::PbReflectionManager\<close> (\<open>libsrc/data_manager\<close>) and
  the registration templates of \<open>register_helper.h\<close>: which service runs a command and which
  message types it exchanges. Services are computations on a state \<open>'s\<close> that take a
  reference \<open>'r\<close> to the role of the caller. Folly is not part of the sources: a future is
  one of the three states in which a continuation can find it, and \<open>'f\<close> is the opaque
  handle of one that has no result yet.
\<close>

section \<open>Futures\<close>

text \<open>
  A \<open>folly::Future<MessagePtr>\<close> when \<open>thenValue\<close> is called on it: it has its value, as that
  of \<open>folly::makeFuture\<close> has, and the continuation runs inside the call; it holds an
  exception and the continuation never runs; or the continuation is kept and runs when the
  value arrives.
\<close>

datatype 'f Future = Ready Message | Failed | Pending 'f

section \<open>The command manager\<close>

type_synonym ('r, 's) InternalSyncServiceType = "'r \<Rightarrow> Message \<Rightarrow> ('s, Message) action"
type_synonym ('r, 's, 'f) InternalAsyncServiceType = "'r \<Rightarrow> Message \<Rightarrow> ('s, 'f Future) action"

record ('r, 's, 'f) CommandManager =
  sync_services :: "u32 \<Rightarrow> ('r, 's) InternalSyncServiceType option"
  async_services :: "u32 \<Rightarrow> ('r, 's, 'f) InternalAsyncServiceType option"

definition new_CommandManager :: "('r, 's, 'f) CommandManager" where
  "new_CommandManager = \<lparr>sync_services = Map.empty, async_services = Map.empty\<rparr>"

definition IsSyncCmd :: "u32 \<Rightarrow> ('r, 's, 'f) CommandManager \<Rightarrow> bool" where
  "IsSyncCmd cmd_id C \<longleftrightarrow> sync_services C cmd_id \<noteq> None"

definition IsAsyncCmd :: "u32 \<Rightarrow> ('r, 's, 'f) CommandManager \<Rightarrow> bool" where
  "IsAsyncCmd cmd_id C \<longleftrightarrow> async_services C cmd_id \<noteq> None"

definition CommandManager_IsValidCmd :: "u32 \<Rightarrow> ('r, 's, 'f) CommandManager \<Rightarrow> bool" where
  "CommandManager_IsValidCmd cmd_id C \<longleftrightarrow> sync_services C cmd_id \<noteq> None \<or> async_services C cmd_id \<noteq> None"

text \<open>\<open>std::map::insert\<close> into the two maps.\<close>

definition insert_sync ::
  "u32 \<Rightarrow> ('r, 's) InternalSyncServiceType \<Rightarrow> ('r, 's, 'f) CommandManager \<Rightarrow> bool \<times> ('r, 's, 'f) CommandManager" where
  "insert_sync cmd_id func C =
     (case sync_services C cmd_id of
        None \<Rightarrow> (True, C\<lparr>sync_services := (sync_services C)(cmd_id \<mapsto> func)\<rparr>)
      | Some _ \<Rightarrow> (False, C))"

definition insert_async ::
  "u32 \<Rightarrow> ('r, 's, 'f) InternalAsyncServiceType \<Rightarrow> ('r, 's, 'f) CommandManager \<Rightarrow> bool \<times> ('r, 's, 'f) CommandManager" where
  "insert_async cmd_id func C =
     (case async_services C cmd_id of
        None \<Rightarrow> (True, C\<lparr>async_services := (async_services C)(cmd_id \<mapsto> func)\<rparr>)
      | Some _ \<Rightarrow> (False, C))"

definition RegisterSyncCmd ::
  "u32 \<Rightarrow> ('r, 's) InternalSyncServiceType \<Rightarrow> ('r, 's, 'f) CommandManager
     \<Rightarrow> (bool \<times> ('r, 's, 'f) CommandManager) result" where
  "RegisterSyncCmd cmd_id func C =
     (if CommandManager_IsValidCmd cmd_id C then Inl AssertFail else Inr (insert_sync cmd_id func C))"

definition RegisterAsyncCmd ::
  "u32 \<Rightarrow> ('r, 's, 'f) InternalAsyncServiceType \<Rightarrow> ('r, 's, 'f) CommandManager
     \<Rightarrow> (bool \<times> ('r, 's, 'f) CommandManager) result" where
  "RegisterAsyncCmd cmd_id func C =
     (if CommandManager_IsValidCmd cmd_id C then Inl AssertFail else Inr (insert_async cmd_id func C))"

definition RunSyncService :: "('r, 's, 'f) CommandManager \<Rightarrow> u32 \<Rightarrow> 'r \<Rightarrow> Message \<Rightarrow> ('s, Message) action" where
  "RunSyncService C cmd_id role request =
     (case sync_services C cmd_id of
        None \<Rightarrow> raise_act AssertFail
      | Some sync_service \<Rightarrow> sync_service role request)"

definition RunAsyncService :: "('r, 's, 'f) CommandManager \<Rightarrow> u32 \<Rightarrow> 'r \<Rightarrow> Message \<Rightarrow> ('s, 'f Future) action" where
  "RunAsyncService C cmd_id role request =
     (case async_services C cmd_id of
        None \<Rightarrow> raise_act AssertFail
      | Some async_service \<Rightarrow> async_service role request)"

section \<open>The reflection manager\<close>

text \<open>The prototypes are default messages, of which only the type is used.\<close>

record MethodData =
  request_proto :: msg_type
  response_proto :: msg_type

record PbReflectionManager =
  reflection_data :: "u32 \<Rightarrow> MethodData option"

definition new_PbReflectionManager :: PbReflectionManager where
  "new_PbReflectionManager = \<lparr>reflection_data = Map.empty\<rparr>"

definition IsValidCmd :: "u32 \<Rightarrow> PbReflectionManager \<Rightarrow> bool" where
  "IsValidCmd cmd_id M \<longleftrightarrow> reflection_data M cmd_id \<noteq> None"

definition emplace_reflection :: "u32 \<Rightarrow> MethodData \<Rightarrow> PbReflectionManager \<Rightarrow> bool \<times> PbReflectionManager" where
  "emplace_reflection cmd_id d M =
     (case reflection_data M cmd_id of
        None \<Rightarrow> (True, M\<lparr>reflection_data := (reflection_data M)(cmd_id \<mapsto> d)\<rparr>)
      | Some _ \<Rightarrow> (False, M))"

definition AddReflection ::
  "u32 \<Rightarrow> msg_type \<Rightarrow> msg_type \<Rightarrow> PbReflectionManager \<Rightarrow> (bool \<times> PbReflectionManager) result" where
  "AddReflection cmd_id request response M =
     (if reflection_data M cmd_id \<noteq> None then Inl AssertFail
      else Inr (emplace_reflection cmd_id \<lparr>request_proto = request, response_proto = response\<rparr> M))"

definition GetRequestReflection :: "u32 \<Rightarrow> PbReflectionManager \<Rightarrow> msg_type result" where
  "GetRequestReflection cmd_id M =
     (case reflection_data M cmd_id of None \<Rightarrow> Inl AssertFail | Some d \<Rightarrow> Inr (request_proto d))"

definition GetResponseReflection :: "u32 \<Rightarrow> PbReflectionManager \<Rightarrow> msg_type result" where
  "GetResponseReflection cmd_id M =
     (case reflection_data M cmd_id of None \<Rightarrow> Inl AssertFail | Some d \<Rightarrow> Inr (response_proto d))"

section \<open>The service interfaces\<close>

text \<open>
  A service class \<open>T\<close>: its \<open>RequestType\<close> and \<open>ResponseType\<close>, the dynamic cast of a message to
  the request type and the response as a message. \<open>SyncServiceInterface\<close> and
  \<open>AsyncServiceInterface\<close> add \<open>operator()\<close>, called on an object \<open>T{args...}\<close> that is
  constructed from references into the state; the asynchronous one returns a future \<open>'g\<close>.
\<close>

record ('q, 'p) ServiceTypes =
  RequestType :: msg_type
  ResponseType :: msg_type
  cast_request :: "Message \<Rightarrow> 'q option"
  response_message :: "'p \<Rightarrow> Message"

record ('r, 's, 'q, 'p) SyncServiceInterface = "('q, 'p) ServiceTypes" +
  operator_call :: "'s \<Rightarrow> 'r \<Rightarrow> 'q \<Rightarrow> ('s, 'p) action"

record ('r, 's, 'q, 'p, 'g) AsyncServiceInterface = "('q, 'p) ServiceTypes" +
  operator_async :: "'s \<Rightarrow> 'r \<Rightarrow> 'q \<Rightarrow> ('s, 'g) action"

text \<open>The casts and conversions agree with the declared types.\<close>

definition well_typed :: "('q, 'p, 'z) ServiceTypes_scheme \<Rightarrow> bool" where
  "well_typed T \<longleftrightarrow>
     (\<forall>msg. cast_request T msg = None \<longleftrightarrow> type_of msg \<noteq> RequestType T) \<and>
     (\<forall>rsp. type_of (response_message T rsp) = ResponseType T)"

section \<open>The registration templates\<close>

text \<open>
  The decorators cast by reference, so a message of another type throws \<open>std::bad_cast\<close>.
  The first one wraps a plain function from the request type to the response type.
\<close>

definition SyncServiceDecorator ::
  "('q, 'p, 'z) ServiceTypes_scheme \<Rightarrow> ('r \<Rightarrow> 'q \<Rightarrow> ('s, 'p) action) \<Rightarrow> ('r, 's) InternalSyncServiceType" where
  "SyncServiceDecorator T sync_service = (\<lambda>role req.
     case cast_request T req of
       None \<Rightarrow> raise_act BadCast
     | Some derived_req \<Rightarrow>
         bind_act (sync_service role derived_req) (\<lambda>derived_rsp. ret_act (response_message T derived_rsp)))"

text \<open>The class form constructs \<open>T{args...}\<close> for every call, before the cast.\<close>

definition SyncServiceClassDecorator ::
  "('r, 's, 'q, 'p) SyncServiceInterface \<Rightarrow> ('r, 's) InternalSyncServiceType" where
  "SyncServiceClassDecorator T = (\<lambda>role req s.
     let sync_service = operator_call T s in
     case cast_request T req of
       None \<Rightarrow> raise_act BadCast s
     | Some derived_req \<Rightarrow>
         bind_act (sync_service role derived_req) (\<lambda>derived_rsp. ret_act (response_message T derived_rsp)) s)"

text \<open>\<open>thenValue\<close> with a function from the response to a message is a parameter of the model.\<close>

definition AsyncServiceClassDecorator ::
  "(('p \<Rightarrow> Message) \<Rightarrow> 'g \<Rightarrow> 'f Future) \<Rightarrow> ('r, 's, 'q, 'p, 'g) AsyncServiceInterface
     \<Rightarrow> ('r, 's, 'f) InternalAsyncServiceType" where
  "AsyncServiceClassDecorator thenValue T = (\<lambda>role req s.
     let async_service = operator_async T s in
     case cast_request T req of
       None \<Rightarrow> raise_act BadCast s
     | Some derived_req \<Rightarrow>
         bind_act (async_service role derived_req) (\<lambda>rsp_future. ret_act (thenValue (response_message T) rsp_future)) s)"

text \<open>The two managers a registration writes to; \<open>&&\<close> skips the second call on \<open>false\<close>.\<close>

type_synonym ('r, 's, 'f) managers = "('r, 's, 'f) CommandManager \<times> PbReflectionManager"

definition RegisterSyncCommand ::
  "u32 \<Rightarrow> ('r, 's, 'q, 'p) SyncServiceInterface \<Rightarrow> ('r, 's, 'f) managers
     \<Rightarrow> (bool \<times> ('r, 's, 'f) managers) result" where
  "RegisterSyncCommand cmd_id T m =
     bind_res (RegisterSyncCmd cmd_id (SyncServiceClassDecorator T) (fst m)) (\<lambda>(ok, C).
       if \<not> ok then Inr (False, C, snd m)
       else bind_res (AddReflection cmd_id (RequestType T) (ResponseType T) (snd m)) (\<lambda>(ok', M). Inr (ok', C, M)))"

definition RegisterAsyncCommand ::
  "(('p \<Rightarrow> Message) \<Rightarrow> 'g \<Rightarrow> 'f Future) \<Rightarrow> u32 \<Rightarrow> ('r, 's, 'q, 'p, 'g) AsyncServiceInterface \<Rightarrow> ('r, 's, 'f) managers
     \<Rightarrow> (bool \<times> ('r, 's, 'f) managers) result" where
  "RegisterAsyncCommand thenValue cmd_id T m =
     bind_res (RegisterAsyncCmd cmd_id (AsyncServiceClassDecorator thenValue T) (fst m)) (\<lambda>(ok, C).
       if \<not> ok then Inr (False, C, snd m)
       else bind_res (AddReflection cmd_id (RequestType T) (ResponseType T) (snd m)) (\<lambda>(ok', M). Inr (ok', C, M)))"

section \<open>The managers provide insert-only tables\<close>

interpretation sync_tab: insert_table sync_services insert_sync
  by unfold_locales (auto simp: insert_sync_def split: option.splits)

interpretation async_tab: insert_table async_services insert_async
  by unfold_locales (auto simp: insert_async_def split: option.splits)

interpretation refl_tab: insert_table reflection_data emplace_reflection
  by unfold_locales (auto simp: emplace_reflection_def split: option.splits)

section \<open>Invariant\<close>

text \<open>
  The two managers know the same commands, and a command is synchronous or asynchronous
  but not both.
\<close>

definition in_sync :: "('r, 's, 'f) managers \<Rightarrow> bool" where
  "in_sync m \<longleftrightarrow>
     (\<forall>cmd. IsValidCmd cmd (snd m) \<longleftrightarrow> CommandManager_IsValidCmd cmd (fst m)) \<and>
     (\<forall>cmd. \<not> (IsSyncCmd cmd (fst m) \<and> IsAsyncCmd cmd (fst m)))"

lemmas registry_defs = RegisterSyncCommand_def RegisterAsyncCommand_def RegisterSyncCmd_def RegisterAsyncCmd_def
  AddReflection_def insert_sync_def insert_async_def emplace_reflection_def

lemmas validity_defs = IsValidCmd_def CommandManager_IsValidCmd_def IsSyncCmd_def IsAsyncCmd_def

lemma in_sync_new [simp]: "in_sync (new_CommandManager, new_PbReflectionManager)"
  by (simp add: in_sync_def validity_defs new_CommandManager_def new_PbReflectionManager_def)

lemma unknown_cmd:
  assumes "in_sync m" and "\<not> IsValidCmd cmd_id (snd m)"
  shows "reflection_data (snd m) cmd_id = None" and "sync_services (fst m) cmd_id = None"
    and "async_services (fst m) cmd_id = None"
proof -
  have "\<not> CommandManager_IsValidCmd cmd_id (fst m)" using assms by (simp add: in_sync_def)
  then show "sync_services (fst m) cmd_id = None" "async_services (fst m) cmd_id = None"
    by (simp_all add: CommandManager_IsValidCmd_def)
  show "reflection_data (snd m) cmd_id = None" using assms(2) by (simp add: IsValidCmd_def)
qed

lemma RegisterSyncCommand_new:
  assumes "in_sync m" and "\<not> IsValidCmd cmd_id (snd m)"
  shows "RegisterSyncCommand cmd_id T m = Inr (True,
     (fst m)\<lparr>sync_services := (sync_services (fst m))(cmd_id \<mapsto> SyncServiceClassDecorator T)\<rparr>,
     (snd m)\<lparr>reflection_data := (reflection_data (snd m))(cmd_id \<mapsto>
        \<lparr>request_proto = RequestType T, response_proto = ResponseType T\<rparr>)\<rparr>)"
  using unknown_cmd [OF assms] by (simp add: validity_defs registry_defs)

lemma RegisterAsyncCommand_new:
  assumes "in_sync m" and "\<not> IsValidCmd cmd_id (snd m)"
  shows "RegisterAsyncCommand thenValue cmd_id U m = Inr (True,
     (fst m)\<lparr>async_services := (async_services (fst m))(cmd_id \<mapsto> AsyncServiceClassDecorator thenValue U)\<rparr>,
     (snd m)\<lparr>reflection_data := (reflection_data (snd m))(cmd_id \<mapsto>
        \<lparr>request_proto = RequestType U, response_proto = ResponseType U\<rparr>)\<rparr>)"
  using unknown_cmd [OF assms] by (simp add: validity_defs registry_defs)

lemma Register_taken:
  assumes "in_sync m" and "IsValidCmd cmd_id (snd m)"
  shows "RegisterSyncCommand cmd_id T m = Inl AssertFail"
    and "RegisterAsyncCommand thenValue cmd_id U m = Inl AssertFail"
  using assms by (auto simp: in_sync_def IsValidCmd_def CommandManager_IsValidCmd_def registry_defs)

lemma RegisterSyncCommand_in_sync:
  "in_sync m \<Longrightarrow> RegisterSyncCommand cmd_id T m = Inr (ok, m') \<Longrightarrow> in_sync m' \<and> ok"
  by (cases "IsValidCmd cmd_id (snd m)")
    (auto simp: Register_taken RegisterSyncCommand_new, auto simp: in_sync_def validity_defs)

lemma RegisterAsyncCommand_in_sync:
  "in_sync m \<Longrightarrow> RegisterAsyncCommand thenValue cmd_id U m = Inr (ok, m') \<Longrightarrow> in_sync m' \<and> ok"
  by (cases "IsValidCmd cmd_id (snd m)")
    (auto simp: Register_taken RegisterAsyncCommand_new, auto simp: in_sync_def validity_defs)

section \<open>Types of the registered services\<close>

text \<open>
  A service with request type \<open>q\<close> and response type \<open>p\<close>: it throws on a message of another
  type before it does anything, and whatever it returns is a message of its response type.
\<close>

definition has_types :: "msg_type \<Rightarrow> msg_type \<Rightarrow> ('r, 's) InternalSyncServiceType \<Rightarrow> bool" where
  "has_types q p f \<longleftrightarrow> (\<forall>role req s.
     (type_of req \<noteq> q \<longrightarrow> f role req s = (Inl BadCast, s)) \<and>
     (\<forall>rsp s'. f role req s = (Inr rsp, s') \<longrightarrow> type_of rsp = p))"

text \<open>Every synchronous command has the types its reflection data says.\<close>

definition typed_registry :: "('r, 's, 'f) managers \<Rightarrow> bool" where
  "typed_registry m \<longleftrightarrow> (\<forall>cmd d f. reflection_data (snd m) cmd = Some d \<longrightarrow> sync_services (fst m) cmd = Some f \<longrightarrow>
     has_types (request_proto d) (response_proto d) f)"

lemma typed_registryD:
  "typed_registry m \<Longrightarrow> reflection_data (snd m) cmd = Some d \<Longrightarrow> sync_services (fst m) cmd = Some f \<Longrightarrow>
     f role req s = (Inr rsp, s') \<Longrightarrow> type_of rsp = response_proto d"
  unfolding typed_registry_def has_types_def by blast

lemma well_typed_cast: "well_typed T \<Longrightarrow> cast_request T msg = Some q \<Longrightarrow> type_of msg = RequestType T"
  by (metis option.distinct(1) well_typed_def)

lemma decorated_has_types:
  assumes "well_typed T"
  shows "has_types (RequestType T) (ResponseType T) (SyncServiceClassDecorator T)"
proof -
  have "type_of msg \<noteq> RequestType T \<Longrightarrow> cast_request T msg = None" and "type_of (response_message T rsp) = ResponseType T" for msg rsp
    using assms by (simp_all add: well_typed_def)
  then show ?thesis
    by (auto simp: has_types_def SyncServiceClassDecorator_def bind_act_def ret_act_def raise_act_def
        split: option.splits sum.splits prod.splits)
qed

lemma typed_registry_new: "typed_registry (new_CommandManager, new_PbReflectionManager)"
  by (simp add: typed_registry_def new_CommandManager_def)

lemma RegisterSyncCommand_typed:
  assumes "in_sync m" and "typed_registry m" and "well_typed T" and "RegisterSyncCommand cmd_id T m = Inr (ok, m')"
  shows "typed_registry m'"
proof (cases "IsValidCmd cmd_id (snd m)")
  case True
  then show ?thesis using assms(4) by (simp add: Register_taken [OF assms(1) True])
next
  case False
  then show ?thesis
    using assms(4) RegisterSyncCommand_new [OF assms(1) False, of T] decorated_has_types [OF assms(3)] assms(2)
    by (auto simp: typed_registry_def split: if_splits)
qed

lemma RegisterAsyncCommand_typed:
  assumes "in_sync m" and "typed_registry m" and "RegisterAsyncCommand thenValue cmd_id U m = Inr (ok, m')"
  shows "typed_registry m'"
proof (cases "IsValidCmd cmd_id (snd m)")
  case True
  then show ?thesis using assms(3) by (simp add: Register_taken [OF assms(1) True])
next
  case False
  then show ?thesis
    using assms RegisterAsyncCommand_new [OF assms(1) False, of thenValue U] unknown_cmd(2) [OF assms(1) False]
    by (auto simp: typed_registry_def split: if_splits)
qed

text \<open>
  The class form of the decorator is the function form for a service whose \<open>operator()\<close> does
  not depend on the object it is called on.
\<close>

lemma decorators_agree:
  assumes "\<And>s. operator_call T s = f"
  shows "SyncServiceClassDecorator T = SyncServiceDecorator T f"
proof (intro ext)
  fix role req s
  show "SyncServiceClassDecorator T role req s = SyncServiceDecorator T f role req s"
    unfolding SyncServiceClassDecorator_def SyncServiceDecorator_def Let_def assms by (simp split: option.splits)
qed

section \<open>Properties\<close>

text \<open>
  C29: registrations keep the two managers in step. From managers in step, a synchronous or
  an asynchronous registration aborts exactly when the command is already known to either
  manager; otherwise it returns true and leaves managers in step that know one more command.
\<close>

theorem registration_keeps_managers_in_step:
  assumes "in_sync m"
  shows "(case RegisterSyncCommand cmd_id T m of
        Inl e \<Rightarrow> e = AssertFail \<and> IsValidCmd cmd_id (snd m)
      | Inr (ok, m') \<Rightarrow> ok \<and> in_sync m' \<and> \<not> IsValidCmd cmd_id (snd m) \<and>
          (\<forall>c. IsValidCmd c (snd m') \<longleftrightarrow> c = cmd_id \<or> IsValidCmd c (snd m)) \<and> IsSyncCmd cmd_id (fst m')) \<and>
    (case RegisterAsyncCommand thenValue cmd_id U m of
        Inl e \<Rightarrow> e = AssertFail \<and> IsValidCmd cmd_id (snd m)
      | Inr (ok, m') \<Rightarrow> ok \<and> in_sync m' \<and> \<not> IsValidCmd cmd_id (snd m) \<and>
          (\<forall>c. IsValidCmd c (snd m') \<longleftrightarrow> c = cmd_id \<or> IsValidCmd c (snd m)) \<and> IsAsyncCmd cmd_id (fst m'))"
proof (cases "IsValidCmd cmd_id (snd m)")
  case True
  then show ?thesis by (simp add: Register_taken [OF assms])
next
  case False
  have "in_sync m'" if "RegisterSyncCommand cmd_id T m = Inr (True, m')" for m'
    using RegisterSyncCommand_in_sync [OF assms that] by simp
  moreover have "in_sync m'" if "RegisterAsyncCommand thenValue cmd_id U m = Inr (True, m')" for m'
    using RegisterAsyncCommand_in_sync [OF assms that] by simp
  ultimately show ?thesis
    using False by (simp add: RegisterSyncCommand_new [OF assms] RegisterAsyncCommand_new [OF assms])
      (auto simp: validity_defs)
qed

text \<open>A service that answers every login request with an empty response.\<close>

definition empty_login :: "(nat, nat, LoginReq, LoginRsp) SyncServiceInterface" where
  "empty_login = \<lparr>RequestType = TLoginReq, ResponseType = TLoginRsp, cast_request = as_LoginReq,
     response_message = MLoginRsp, operator_call = (\<lambda>s role req. ret_act
       \<lparr>lr_rpcid = lq_rpcid req, lr_error = 0, lr_message = [], lr_gid = 0, lr_is_returning_visitor = False\<rparr>)\<rparr>"

definition later_login :: "(nat, nat, LoginReq, LoginRsp, nat) AsyncServiceInterface" where
  "later_login = \<lparr>RequestType = TLoginReq, ResponseType = TLoginRsp, cast_request = as_LoginReq,
     response_message = MLoginRsp, operator_async = (\<lambda>s role req. ret_act s)\<rparr>"

theorem registration_keeps_managers_in_step_witness:
  "\<exists>m'. RegisterSyncCommand 101 empty_login
       (new_CommandManager :: (nat, nat, nat) CommandManager, new_PbReflectionManager) = Inr (True, m') \<and>
     in_sync m' \<and> IsSyncCmd 101 (fst m')"
proof -
  have "\<not> IsValidCmd 101 new_PbReflectionManager"
    by (simp add: new_PbReflectionManager_def IsValidCmd_def)
  then show ?thesis
    using registration_keeps_managers_in_step [OF in_sync_new, of 101 empty_login "\<lambda>_. Pending" later_login]
    by (auto split: sum.splits prod.splits)
qed

end
