(* ===== verification/Redis.thy ===== *)
theory Redis
  imports LB_Prelude
begin

text \<open>
  \<open>littleB::SyncRedisWrapper\<close> (\<open>libsrc/sync_redis_wrapper\<close>) over the hiredis client, which
  is a git submodule: its calls are the fields of the record \<open>hiredis\<close>, over an opaque
  context \<open>'c\<close> that stands for the connection and the server behind it. The locale
  \<open>redis_server\<close> states the documented behaviour of the three commands the sources send
  to a server that is up, in terms of the key-value store it holds.
\<close>

section \<open>The hiredis interface\<close>

datatype reply_type =
    REDIS_REPLY_STRING | REDIS_REPLY_ARRAY | REDIS_REPLY_INTEGER
  | REDIS_REPLY_NIL | REDIS_REPLY_STATUS | REDIS_REPLY_ERROR

record redisReply =
  rtype :: reply_type
  integer :: u64
  str :: string

text \<open>The arguments behind a format: \<open>%s\<close> takes a C string, \<open>%b\<close> a pointer and a length.\<close>

datatype redis_arg = ArgS string | ArgB string

record 'c hiredis =
  redisConnectWithTimeout :: "string \<Rightarrow> i32 \<Rightarrow> nat \<times> nat \<Rightarrow> 'c option"
  redis_err :: "'c \<Rightarrow> i32"
  redisCommand :: "'c \<Rightarrow> string \<Rightarrow> redis_arg list \<Rightarrow> redisReply option \<times> 'c"

section \<open>The wrapper\<close>

text \<open>Its state is \<open>redis_ptr_\<close>, null until \<open>Connect\<close>; the mutex serialises the calls.\<close>

definition Connect :: "'c hiredis \<Rightarrow> string \<Rightarrow> i32 \<Rightarrow> nat \<times> nat \<Rightarrow> ('c option, 'c) action" where
  "Connect R hostname port timeout redis_ptr =
     (case redisConnectWithTimeout R (c_str hostname) port timeout of
        None \<Rightarrow> (Inl NullDeref, redis_ptr)
      | Some redis_context \<Rightarrow> (Inr redis_context, Some redis_context))"

definition RedisCommand :: "'c hiredis \<Rightarrow> string \<Rightarrow> redis_arg list \<Rightarrow> ('c option, redisReply) action" where
  "RedisCommand R format args redis_ptr =
     (case redis_ptr of
        None \<Rightarrow> (Inl NullDeref, redis_ptr)
      | Some c \<Rightarrow>
          if redis_err R c \<noteq> 0 then (Inl AssertFail, redis_ptr)
          else (case redisCommand R c format args of
                  (None, c') \<Rightarrow> (Inl NullDeref, Some c')
                | (Some reply, c') \<Rightarrow> (Inr reply, Some c')))"

section \<open>What the server relies on\<close>

definition reply_string :: "string \<Rightarrow> redisReply" where
  "reply_string s = \<lparr>rtype = REDIS_REPLY_STRING, integer = 0, str = s\<rparr>"

definition reply_nil :: redisReply where
  "reply_nil = \<lparr>rtype = REDIS_REPLY_NIL, integer = 0, str = []\<rparr>"

definition reply_status :: redisReply where
  "reply_status = \<lparr>rtype = REDIS_REPLY_STATUS, integer = 0, str = ''OK''\<rparr>"

definition reply_error :: "string \<Rightarrow> redisReply" where
  "reply_error e = \<lparr>rtype = REDIS_REPLY_ERROR, integer = 0, str = e\<rparr>"

definition reply_integer :: "int \<Rightarrow> redisReply" where
  "reply_integer n = \<lparr>rtype = REDIS_REPLY_INTEGER, integer = word_of_int n, str = []\<rparr>"

definition reply_get :: "string option \<Rightarrow> redisReply" where
  "reply_get v = (case v of None \<Rightarrow> reply_nil | Some s \<Rightarrow> reply_string s)"

lemmas replies = reply_string_def reply_nil_def reply_status_def reply_error_def reply_integer_def reply_get_def

lemma rtype_replies [simp]:
  "rtype (reply_string s) = REDIS_REPLY_STRING" "rtype reply_nil = REDIS_REPLY_NIL"
  "rtype reply_status = REDIS_REPLY_STATUS" "rtype (reply_error e) = REDIS_REPLY_ERROR" "rtype (reply_integer n) = REDIS_REPLY_INTEGER"
  by (simp_all add: replies)

text \<open>A piece of a format that stands for itself.\<close>

definition plain :: "string \<Rightarrow> bool" where
  "plain p \<longleftrightarrow> p \<noteq> [] \<and> CHR '' '' \<notin> set p \<and> CHR ''%'' \<notin> set p"

text \<open>A key that counts: absent stands for zero.\<close>

definition counts :: "string option \<Rightarrow> int \<Rightarrow> bool" where
  "counts v n \<longleftrightarrow> v = Some (to_string n) \<or> v = None \<and> n = 0"

text \<open>A value redis refuses to count on: not a 64-bit number in decimal, or the largest one.\<close>

definition refuses_incr :: "string \<Rightarrow> bool" where
  "refuses_incr v \<longleftrightarrow> (\<forall>n. - (2 ^ 63) \<le> n \<and> n + 1 < 2 ^ 63 \<longrightarrow> v \<noteq> to_string n)"

text \<open>
  A server that is up has no connection error, answers \<open>get\<close> with the value or nil, stores
  what \<open>set\<close> gives it, and counts with \<open>incr\<close> from 0 up to the largest \<open>long long\<close>; a value it
  cannot count on is an error, and stays.
\<close>

locale redis_server =
  fixes R :: "'c hiredis" and up :: "'c \<Rightarrow> bool" and store :: "'c \<Rightarrow> string \<Rightarrow> string option"
  assumes up_err: "up c \<Longrightarrow> redis_err R c = 0"
    and cmd_get: "up c \<Longrightarrow> plain p \<Longrightarrow>
      \<exists>c'. redisCommand R c (''get '' @ p @ ''%s'') [ArgS k] = (Some (reply_get (store c (p @ k))), c') \<and>
        up c' \<and> store c' = store c"
    and cmd_set_s: "up c \<Longrightarrow> plain p \<Longrightarrow>
      \<exists>c'. redisCommand R c (''set '' @ p @ ''%s %s'') [ArgS k, ArgS v] = (Some reply_status, c') \<and>
        up c' \<and> store c' = (store c)(p @ k \<mapsto> v)"
    and cmd_set_b: "up c \<Longrightarrow> plain p \<Longrightarrow>
      \<exists>c'. redisCommand R c (''set '' @ p @ ''%s %b'') [ArgS k, ArgB v] = (Some reply_status, c') \<and>
        up c' \<and> store c' = (store c)(p @ k \<mapsto> v)"
    and cmd_incr: "up c \<Longrightarrow> plain key \<Longrightarrow> counts (store c key) n \<Longrightarrow>
      0 \<le> n \<Longrightarrow> n + 1 < 2 ^ 63 \<Longrightarrow>
      \<exists>c'. redisCommand R c (''incr '' @ key) [] = (Some (reply_integer (n + 1)), c') \<and>
        up c' \<and> store c' = (store c)(key \<mapsto> to_string (n + 1))"
    and cmd_incr_refused: "up c \<Longrightarrow> plain key \<Longrightarrow> store c key = Some v \<Longrightarrow> refuses_incr v \<Longrightarrow>
      \<exists>e c'. redisCommand R c (''incr '' @ key) [] = (Some (reply_error e), c') \<and> up c' \<and> store c' = store c"
begin

text \<open>The same commands through the wrapper.\<close>

lemma RedisCommand_get:
  "up c \<Longrightarrow> plain p \<Longrightarrow>
     \<exists>c'. RedisCommand R (''get '' @ p @ ''%s'') [ArgS k] (Some c) = (Inr (reply_get (store c (p @ k))), Some c')
       \<and> up c' \<and> store c' = store c"
  using cmd_get [of c p k] up_err [of c] by (auto simp: RedisCommand_def)

lemma RedisCommand_set_s:
  "up c \<Longrightarrow> plain p \<Longrightarrow>
     \<exists>c'. RedisCommand R (''set '' @ p @ ''%s %s'') [ArgS k, ArgS v] (Some c) = (Inr reply_status, Some c')
       \<and> up c' \<and> store c' = (store c)(p @ k \<mapsto> v)"
  using cmd_set_s [of c p k v] up_err [of c] by (auto simp: RedisCommand_def)

lemma RedisCommand_set_b:
  "up c \<Longrightarrow> plain p \<Longrightarrow>
     \<exists>c'. RedisCommand R (''set '' @ p @ ''%s %b'') [ArgS k, ArgB v] (Some c) = (Inr reply_status, Some c')
       \<and> up c' \<and> store c' = (store c)(p @ k \<mapsto> v)"
  using cmd_set_b [of c p k v] up_err [of c] by (auto simp: RedisCommand_def)

lemma RedisCommand_incr:
  "up c \<Longrightarrow> plain key \<Longrightarrow> counts (store c key) n \<Longrightarrow>
     0 \<le> n \<Longrightarrow> n + 1 < 2 ^ 63 \<Longrightarrow>
     \<exists>c'. RedisCommand R (''incr '' @ key) [] (Some c) = (Inr (reply_integer (n + 1)), Some c')
       \<and> up c' \<and> store c' = (store c)(key \<mapsto> to_string (n + 1))"
  using cmd_incr [of c key n] up_err [of c] by (auto simp: RedisCommand_def)

lemma RedisCommand_incr_refused:
  "up c \<Longrightarrow> plain key \<Longrightarrow> store c key = Some v \<Longrightarrow> refuses_incr v \<Longrightarrow>
     \<exists>e c'. RedisCommand R (''incr '' @ key) [] (Some c) = (Inr (reply_error e), Some c') \<and> up c' \<and> store c' = store c"
  using cmd_incr_refused [of c key v] up_err [of c] by (fastforce simp: RedisCommand_def)

end

section \<open>An executable instance\<close>

text \<open>An in-memory store; the context is the store itself.\<close>

fun format_argv :: "string \<Rightarrow> redis_arg list \<Rightarrow> string \<Rightarrow> bool \<Rightarrow> string list" where
  "format_argv [] args cur touched = (if touched then [cur] else [])"
| "format_argv [c] args cur touched =
     (if c = CHR '' '' then (if touched then [cur] else []) else [cur @ [c]])"
| "format_argv (c # d # cs) args cur touched =
     (if c = CHR '' '' then
        (if touched then cur # format_argv (d # cs) args [] False else format_argv (d # cs) args [] False)
      else if c = CHR ''%'' then
        (case args of
           [] \<Rightarrow> format_argv cs [] cur True
         | ArgS a # as \<Rightarrow> format_argv cs as (cur @ a) True
         | ArgB a # as \<Rightarrow> format_argv cs as (cur @ a) True)
      else format_argv (d # cs) args (cur @ [c]) True)"

text \<open>The number a value stands for.\<close>

definition int_val :: "string \<Rightarrow> int option" where
  "int_val s =
     (let n = (if s \<noteq> [] \<and> hd s = CHR ''-'' then - int (dec_val (tl s)) else int (dec_val s))
      in if s = to_string n \<and> - (2 ^ 63) \<le> n \<and> n < 2 ^ 63 then Some n else None)"

lemma int_val_Some: "int_val s = Some n \<longleftrightarrow> s = to_string n \<and> - (2 ^ 63) \<le> n \<and> n < 2 ^ 63"
proof -
  have "(if to_string n \<noteq> [] \<and> hd (to_string n) = CHR ''-'' then - int (dec_val (tl (to_string n))) else int (dec_val (to_string n))) = n"
  proof (cases "n < 0")
    case False
    then have "\<not> (dec_nat (nat n) \<noteq> [] \<and> hd (dec_nat (nat n)) = CHR ''-'')"
      using minus_not_digit [of "nat n"] by (metis list.set_sel(1))
    with False show ?thesis by (auto simp: to_string_def)
  qed (simp add: to_string_def)
  then show ?thesis by (auto simp: int_val_def Let_def)
qed

definition command_ref :: "(string \<Rightarrow> string option) \<Rightarrow> string list \<Rightarrow> redisReply option \<times> (string \<Rightarrow> string option)" where
  "command_ref m argv =
     (if length argv = 2 \<and> argv ! 0 = ''get'' then (Some (reply_get (m (argv ! 1))), m)
      else if length argv = 3 \<and> argv ! 0 = ''set'' then (Some reply_status, m(argv ! 1 \<mapsto> argv ! 2))
      else if length argv = 2 \<and> argv ! 0 = ''incr'' then
        (case (case m (argv ! 1) of None \<Rightarrow> Some 0 | Some s \<Rightarrow> int_val s) of
           None \<Rightarrow> (Some (reply_error ''ERR value is not an integer or out of range''), m)
         | Some n \<Rightarrow>
             if n + 1 < 2 ^ 63 then (Some (reply_integer (n + 1)), m(argv ! 1 \<mapsto> to_string (n + 1)))
             else (Some (reply_error ''ERR increment or decrement would overflow''), m))
      else (Some (reply_error ''ERR unknown command''), m))"

definition redis_ref :: "(string \<Rightarrow> string option) hiredis" where
  "redis_ref = \<lparr>
     redisConnectWithTimeout = (\<lambda>_ _ _. Some Map.empty),
     redis_err = (\<lambda>_. 0),
     redisCommand = (\<lambda>m format args. command_ref m (format_argv format args [] False))\<rparr>"

lemma format_plain:
  assumes "plain p"
  shows "format_argv (p @ c # cs) args cur t = format_argv (c # cs) args (cur @ p) True"
proof -
  have "format_argv (p @ c # cs) args cur t = format_argv (c # cs) args (cur @ p) (t \<or> p \<noteq> [])"
    if "CHR '' '' \<notin> set p" "CHR ''%'' \<notin> set p"
    using that
  proof (induction p arbitrary: cur t)
    case (Cons x p)
    then show ?case by (cases p) auto
  qed simp
  with assms show ?thesis by (simp add: plain_def)
qed

lemma format_plain_end:
  assumes "plain p"
  shows "format_argv p args cur t = [cur @ p]"
  using assms
proof (induction p arbitrary: cur t)
  case (Cons x p)
  then show ?case by (cases p) (auto simp: plain_def)
qed (simp add: plain_def)

lemma incr_ref:
  assumes "plain key"
  shows "redisCommand redis_ref m (''incr '' @ key) [] =
    (case (case m key of None \<Rightarrow> Some 0 | Some s \<Rightarrow> int_val s) of
       None \<Rightarrow> (Some (reply_error ''ERR value is not an integer or out of range''), m)
     | Some n \<Rightarrow>
         if n + 1 < 2 ^ 63 then (Some (reply_integer (n + 1)), m(key \<mapsto> to_string (n + 1)))
         else (Some (reply_error ''ERR increment or decrement would overflow''), m))"
proof -
  have argv: "format_argv (''incr '' @ key) [] [] False = [''incr'', key]"
    using format_plain_end [OF assms, of "[]" "[]" False]
    by (cases key) (use assms in \<open>simp_all add: plain_def\<close>)
  show ?thesis unfolding redis_ref_def hiredis.simps argv by (simp add: command_ref_def cong: if_cong option.case_cong)
qed

interpretation rref: redis_server redis_ref "\<lambda>_. True" "\<lambda>m. m"
proof
  fix c :: "string \<Rightarrow> string option" and p k v key w :: string and n :: int
  show "redis_err redis_ref c = 0" by (simp add: redis_ref_def)
  show "\<exists>c'. redisCommand redis_ref c (''get '' @ p @ ''%s'') [ArgS k] = (Some (reply_get (c (p @ k))), c')
      \<and> True \<and> c' = c" if "plain p"
    using format_plain [OF that, of "CHR ''%''" "''s''" "[ArgS k]" "[]" False]
    by (cases p) (use that in \<open>auto simp: redis_ref_def command_ref_def plain_def\<close>)
  show "\<exists>c'. redisCommand redis_ref c (''set '' @ p @ ''%s %s'') [ArgS k, ArgS v] = (Some reply_status, c')
      \<and> True \<and> c' = c(p @ k \<mapsto> v)" if "plain p"
    using format_plain [OF that, of "CHR ''%''" "''s %s''" "[ArgS k, ArgS v]" "[]" False]
    by (cases p) (use that in \<open>auto simp: redis_ref_def command_ref_def plain_def\<close>)
  show "\<exists>c'. redisCommand redis_ref c (''set '' @ p @ ''%s %b'') [ArgS k, ArgB v] = (Some reply_status, c')
      \<and> True \<and> c' = c(p @ k \<mapsto> v)" if "plain p"
    using format_plain [OF that, of "CHR ''%''" "''s %b''" "[ArgS k, ArgB v]" "[]" False]
    by (cases p) (use that in \<open>auto simp: redis_ref_def command_ref_def plain_def\<close>)
  show "\<exists>c'. redisCommand redis_ref c (''incr '' @ key) [] = (Some (reply_integer (n + 1)), c')
      \<and> True \<and> c' = c(key \<mapsto> to_string (n + 1))"
    if "plain key" "counts (c key) n" "0 \<le> n" "n + 1 < 2 ^ 63"
  proof -
    have "(case c key of None \<Rightarrow> Some 0 | Some s \<Rightarrow> int_val s) = Some n"
      using that(2-4) by (auto simp: counts_def int_val_Some split: option.splits)
    with that(4) show ?thesis unfolding incr_ref [OF that(1)] by simp
  qed
  show "\<exists>e c'. redisCommand redis_ref c (''incr '' @ key) [] = (Some (reply_error e), c') \<and> True \<and> c' = c"
    if "plain key" "c key = Some w" "refuses_incr w"
    unfolding incr_ref [OF that(1)] using that(2,3) by (fastforce simp: refuses_incr_def int_val_Some split: option.splits)
qed

lemmas redis_ref_laws = rref.redis_server_axioms

end
