(* ===== verification/Messages_Ref.thy ===== *)
theory Messages_Ref
  imports Messages
begin

text \<open>
  An executable instance of the \<open>protobuf\<close> interface that satisfies the laws of
  \<open>protobuf_wire\<close>: fixed-width little-endian numbers and length-prefixed text. It is not
  the protocol buffer encoding, which no theorem depends on; it lets closed examples be
  evaluated and shows that the laws can hold.
\<close>

section \<open>Pieces of the encoding\<close>

type_synonym 'a reader = "string \<Rightarrow> ('a \<times> string) option"

definition put_u32 :: "u32 \<Rightarrow> string" where
  "put_u32 w = le_bytes 4 (unat w)"

definition get_u32 :: "u32 reader" where
  "get_u32 s = (if length s < 4 then None else Some (of_nat (le_val (take 4 s)), drop 4 s))"

definition put_bool :: "bool \<Rightarrow> string" where
  "put_bool b = [if b then CHR 0x01 else CHR 0x00]"

definition get_bool :: "bool reader" where
  "get_bool s = (case s of [] \<Rightarrow> None | c # cs \<Rightarrow> Some (c \<noteq> CHR 0x00, cs))"

definition put_text :: "string \<Rightarrow> string" where
  "put_text t = put_u32 (of_nat (length t)) @ t"

definition get_text :: "string reader" where
  "get_text s = (case get_u32 s of None \<Rightarrow> None
     | Some (n, r) \<Rightarrow> if length r < unat n then None else Some (take (unat n) r, drop (unat n) r))"

fun get_list :: "nat \<Rightarrow> 'a reader \<Rightarrow> 'a list reader" where
  "get_list 0 g s = Some ([], s)"
| "get_list (Suc n) g s = (case g s of None \<Rightarrow> None
     | Some (x, r) \<Rightarrow> (case get_list n g r of None \<Rightarrow> None | Some (xs, r') \<Rightarrow> Some (x # xs, r')))"

definition put_opt :: "('a \<Rightarrow> string) \<Rightarrow> 'a option \<Rightarrow> string" where
  "put_opt p x = (case x of None \<Rightarrow> put_bool False | Some y \<Rightarrow> put_bool True @ p y)"

definition get_opt :: "'a reader \<Rightarrow> 'a option reader" where
  "get_opt g s = (case get_bool s of None \<Rightarrow> None
     | Some (b, r) \<Rightarrow> if b then map_option (map_prod Some id) (g r) else Some (None, r))"

definition then_get :: "'a reader \<Rightarrow> ('a \<Rightarrow> 'b reader) \<Rightarrow> 'b reader" where
  "then_get g k s = (case g s of None \<Rightarrow> None | Some (x, r) \<Rightarrow> k x r)"

definition done_get :: "'a \<Rightarrow> 'a reader" where
  "done_get x s = Some (x, s)"

lemma get_u32_put [simp]: "get_u32 (put_u32 w @ s) = Some (w, s)"
proof -
  have "unat w < 4294967296" using unsigned_less [of w, where 'a = nat] by simp
  then have "le_val (le_bytes 4 (unat w)) = unat w"
    by (simp only: le_val_le_bytes) simp
  then show ?thesis by (simp add: get_u32_def put_u32_def del: le_bytes_numeral)
qed

lemma get_bool_put [simp]: "get_bool (put_bool b @ s) = Some (b, s)"
  by (simp add: get_bool_def put_bool_def)

lemma get_text_put [simp]: "length t < 2 ^ 32 \<Longrightarrow> get_text (put_text t @ s) = Some (t, s)"
  by (simp add: get_text_def put_text_def unat_of_nat take_bit_nat_eq_self)

lemma get_opt_put:
  assumes "\<And>y s. x = Some y \<Longrightarrow> g (p y @ s) = Some (y, s)"
  shows "get_opt g (put_opt p x @ s) = Some (x, s)"
  using assms by (cases x) (simp_all add: get_opt_def put_opt_def)

lemma get_list_put:
  "(\<And>x s. x \<in> set xs \<Longrightarrow> g (p x @ s) = Some (x, s)) \<Longrightarrow>
     get_list (length xs) g (concat (map p xs) @ s) = Some (xs, s)"
  by (induction xs arbitrary: s) auto

lemma then_get_put [simp]: "g s = Some (x, r) \<Longrightarrow> then_get g k s = k x r"
  by (simp add: then_get_def)

section \<open>Messages\<close>

definition put_basic :: "BasicInfo \<Rightarrow> string" where
  "put_basic b = put_u32 (player_id b) @ put_bool (is_returning_visitor b) @ put_text (username b)"

definition get_basic :: "BasicInfo reader" where
  "get_basic = then_get get_u32 (\<lambda>i. then_get get_bool (\<lambda>v. then_get get_text (\<lambda>u.
     done_get \<lparr>player_id = i, is_returning_visitor = v, username = u\<rparr>)))"

definition put_role :: "RoleInfo \<Rightarrow> string" where
  "put_role r = put_opt put_basic (opt_basic_info r) @
     put_opt (\<lambda>p. put_u32 (main_task_id p)) (opt_progress r)"

definition get_role :: "RoleInfo reader" where
  "get_role = then_get (get_opt get_basic) (\<lambda>b.
     then_get (get_opt (then_get get_u32 (\<lambda>i. done_get \<lparr>main_task_id = i\<rparr>))) (\<lambda>p.
     done_get \<lparr>opt_basic_info = b, opt_progress = p\<rparr>))"

definition put_entry :: "i32 \<times> i32 \<Rightarrow> string" where
  "put_entry e = put_u32 (fst e) @ put_u32 (snd e)"

definition get_entry :: "(i32 \<times> i32) reader" where
  "get_entry = then_get get_u32 (\<lambda>k. then_get get_u32 (\<lambda>v. done_get (k, v)))"

definition put_tasks :: "DBTaskInfo \<Rightarrow> string" where
  "put_tasks t = put_u32 (db_position_x t) @ put_u32 (db_position_y t) @
     put_u32 (of_nat (length (tasks t))) @ concat (map put_entry (tasks t))"

definition get_tasks :: "DBTaskInfo reader" where
  "get_tasks = then_get get_u32 (\<lambda>x. then_get get_u32 (\<lambda>y. then_get get_u32 (\<lambda>n.
     then_get (get_list (unat n) get_entry) (\<lambda>es.
     done_get \<lparr>tasks = es, db_position_x = x, db_position_y = y\<rparr>))))"

definition put_login :: "i32 \<Rightarrow> string \<Rightarrow> string \<Rightarrow> string" where
  "put_login i a p = put_u32 i @ put_text a @ put_text p"

definition get_login :: "(i32 \<times> string \<times> string) reader" where
  "get_login = then_get get_u32 (\<lambda>i. then_get get_text (\<lambda>a. then_get get_text (\<lambda>p. done_get (i, a, p))))"

definition get_update :: "TaskUpdateReq reader" where
  "get_update = then_get get_u32 (\<lambda>i. then_get get_u32 (\<lambda>x. then_get get_u32 (\<lambda>y.
     then_get get_u32 (\<lambda>n. then_get (get_list (unat n) get_u32) (\<lambda>ids.
     done_get \<lparr>tu_rpcid = i, finished_task_ids = ids, tu_position_x = double_of_i32 x,
       tu_position_y = double_of_i32 y\<rparr>)))))"

fun serialize_ref :: "Message \<Rightarrow> string" where
  "serialize_ref (MLoginReq r) = put_login (lq_rpcid r) (lq_account r) (lq_password r)"
| "serialize_ref (MRegisterReq r) = put_login (rq_rpcid r) (rq_account r) (rq_password r)"
| "serialize_ref (MRoleInfo r) = put_role r"
| "serialize_ref (MDBTaskInfo t) = put_tasks t"
| "serialize_ref (MTaskQueryReq r) = put_u32 (tq_rpcid r)"
| "serialize_ref (MEraseRoleReq r) = put_u32 (er_rpcid r)"
| "serialize_ref (MTaskUpdateReq r) = put_u32 (tu_rpcid r)"
| "serialize_ref (MLoginRsp r) = put_u32 (lr_rpcid r) @ put_u32 (lr_error r)"
| "serialize_ref (MRegisterRsp r) = put_u32 (rr_rpcid r) @ put_u32 (rr_error r)"
| "serialize_ref (MTaskQueryRsp r) =
     put_u32 (tqr_rpcid r) @ put_u32 (tqr_error r) @ concat (map put_u32 (done_tasks r))"
| "serialize_ref (MTaskUpdateRsp r) = put_u32 (tur_rpcid r) @ put_u32 (tur_error r)"
| "serialize_ref (MEraseRoleRsp r) = put_u32 (err_rpcid r) @ put_u32 (err_error r)"

text \<open>The empty message of a type, left behind by a failed parse.\<close>

fun default_msg :: "msg_type \<Rightarrow> Message" where
  "default_msg TLoginReq = MLoginReq \<lparr>lq_rpcid = 0, lq_account = [], lq_password = []\<rparr>"
| "default_msg TLoginRsp = MLoginRsp \<lparr>lr_rpcid = 0, lr_error = 0, lr_message = [], lr_gid = 0,
     lr_is_returning_visitor = False\<rparr>"
| "default_msg TRegisterReq = MRegisterReq \<lparr>rq_rpcid = 0, rq_account = [], rq_password = []\<rparr>"
| "default_msg TRegisterRsp = MRegisterRsp \<lparr>rr_rpcid = 0, rr_error = 0, rr_message = [], rr_gid = 0\<rparr>"
| "default_msg TRoleInfo = MRoleInfo empty_role"
| "default_msg TDBTaskInfo = MDBTaskInfo empty_DBTaskInfo"
| "default_msg TTaskQueryReq = MTaskQueryReq \<lparr>tq_rpcid = 0\<rparr>"
| "default_msg TTaskQueryRsp = MTaskQueryRsp \<lparr>tqr_rpcid = 0, tqr_error = 0, tqr_message = [],
     done_tasks = [], tqr_position_x = Finite 0, tqr_position_y = Finite 0\<rparr>"
| "default_msg TTaskUpdateReq = MTaskUpdateReq \<lparr>tu_rpcid = 0, finished_task_ids = [],
     tu_position_x = Finite 0, tu_position_y = Finite 0\<rparr>"
| "default_msg TTaskUpdateRsp = MTaskUpdateRsp \<lparr>tur_rpcid = 0, tur_error = 0, tur_message = []\<rparr>"
| "default_msg TEraseRoleReq = MEraseRoleReq \<lparr>er_rpcid = 0\<rparr>"
| "default_msg TEraseRoleRsp = MEraseRoleRsp \<lparr>err_rpcid = 0, err_error = 0, err_message = []\<rparr>"

definition whole :: "'a reader \<Rightarrow> ('a \<Rightarrow> Message) \<Rightarrow> msg_type \<Rightarrow> string \<Rightarrow> bool \<times> Message" where
  "whole g f t s = (case g s of
     Some (x, []) \<Rightarrow> if wf_msg (f x) then (True, f x) else (False, default_msg t)
   | _ \<Rightarrow> (False, default_msg t))"

fun parse_ref :: "msg_type \<Rightarrow> string \<Rightarrow> bool \<times> Message" where
  "parse_ref TLoginReq s = whole get_login
     (\<lambda>(i, a, p). MLoginReq \<lparr>lq_rpcid = i, lq_account = a, lq_password = p\<rparr>) TLoginReq s"
| "parse_ref TRegisterReq s = whole get_login
     (\<lambda>(i, a, p). MRegisterReq \<lparr>rq_rpcid = i, rq_account = a, rq_password = p\<rparr>) TRegisterReq s"
| "parse_ref TRoleInfo s = whole get_role MRoleInfo TRoleInfo s"
| "parse_ref TDBTaskInfo s = whole get_tasks MDBTaskInfo TDBTaskInfo s"
| "parse_ref TTaskQueryReq s = whole get_u32 (\<lambda>i. MTaskQueryReq \<lparr>tq_rpcid = i\<rparr>) TTaskQueryReq s"
| "parse_ref TEraseRoleReq s = whole get_u32 (\<lambda>i. MEraseRoleReq \<lparr>er_rpcid = i\<rparr>) TEraseRoleReq s"
| "parse_ref TTaskUpdateReq s = whole get_update MTaskUpdateReq TTaskUpdateReq s"
| "parse_ref t s = (False, default_msg t)"

definition protobuf_ref :: protobuf where
  "protobuf_ref = \<lparr>ParseFromArray = parse_ref, SerializeToString = serialize_ref\<rparr>"

fun wire_ok_ref :: "Message \<Rightarrow> bool" where
  "wire_ok_ref (MLoginReq r) = (length (lq_account r) < 2 ^ 32 \<and> length (lq_password r) < 2 ^ 32)"
| "wire_ok_ref (MRegisterReq r) = (length (rq_account r) < 2 ^ 32 \<and> length (rq_password r) < 2 ^ 32)"
| "wire_ok_ref (MRoleInfo r) = (length (username (basic_info r)) < 2 ^ 32)"
| "wire_ok_ref (MDBTaskInfo t) = (length (tasks t) < 2 ^ 32)"
| "wire_ok_ref (MTaskQueryReq r) = True"
| "wire_ok_ref (MEraseRoleReq r) = True"
| "wire_ok_ref _ = False"

section \<open>The laws hold\<close>

lemma get_entry_put: "get_entry (put_entry e @ s) = Some (e, s)"
  by (simp add: get_entry_def put_entry_def done_get_def)

lemma get_tasks_put:
  assumes "length (tasks t) < 2 ^ 32"
  shows "get_tasks (put_tasks t) = Some (t, [])"
proof -
  have "get_list (length (tasks t)) get_entry (concat (map put_entry (tasks t)) @ []) = Some (tasks t, [])"
    by (rule get_list_put) (rule get_entry_put)
  with assms show ?thesis
    by (simp add: get_tasks_def put_tasks_def done_get_def unat_of_nat take_bit_nat_eq_self)
qed

lemma get_role_put:
  assumes "length (username (basic_info r)) < 2 ^ 32"
  shows "get_role (put_role r) = Some (r, [])"
proof -
  have b: "get_opt get_basic (put_opt put_basic (opt_basic_info r) @ s) = Some (opt_basic_info r, s)" for s
    using assms by (intro get_opt_put)
      (simp add: get_basic_def put_basic_def done_get_def basic_info_def)
  have p: "get_opt (then_get get_u32 (\<lambda>i. done_get \<lparr>main_task_id = i\<rparr>))
      (put_opt (\<lambda>p. put_u32 (main_task_id p)) (opt_progress r) @ s) = Some (opt_progress r, s)" for s
    by (rule get_opt_put) (simp add: done_get_def)
  show ?thesis
    using p [of "[]"] by (simp add: get_role_def put_role_def b done_get_def)
qed

lemma get_login_put:
  "length a < 2 ^ 32 \<Longrightarrow> length p < 2 ^ 32 \<Longrightarrow> get_login (put_login i a p) = Some ((i, a, p), [])"
  using get_text_put [of p "[]"] by (simp add: get_login_def put_login_def done_get_def)

lemma wf_default_msg: "wf_msg (default_msg t)" "type_of (default_msg t) = t"
  by (cases t; simp add: wf_msg_def empty_DBTaskInfo_def)+

lemma whole_laws:
  assumes "\<And>x. type_of (f x) = t"
  shows "type_of (snd (whole g f t s)) = t" and "wf_msg (snd (whole g f t s))"
  using assms by (auto simp: whole_def wf_default_msg split: option.splits list.splits)

lemma parse_ref_laws: "type_of (snd (parse_ref t s)) = t \<and> wf_msg (snd (parse_ref t s))"
  using wf_default_msg(1) [of t]
  by (cases t) (auto intro!: whole_laws split: prod.splits)

lemma parse_ref_serialize:
  assumes "wire_ok_ref m" and "wf_msg m"
  shows "parse_ref (type_of m) (serialize_ref m) = (True, m)"
  using assms get_u32_put [where s = "[]"]
  by (cases m) (simp_all add: get_login_put get_role_put get_tasks_put whole_def wf_msg_def)

interpretation pref: protobuf_wire protobuf_ref wire_ok_ref
  by unfold_locales (simp_all add: protobuf_ref_def parse_ref_laws parse_ref_serialize)

lemmas protobuf_ref_laws = pref.protobuf_wire_axioms

lemmas codec_eval = put_u32_def get_u32_def put_bool_def get_bool_def put_text_def get_text_def
  put_opt_def get_opt_def then_get_def done_get_def put_basic_def get_basic_def put_role_def get_role_def
  put_entry_def get_entry_def put_tasks_def get_tasks_def put_login_def get_login_def get_update_def
  whole_def protobuf_ref_def wf_msg_def

end
