(* ===== verification/Server_State.thy ===== *)
theory Server_State
  imports Redis Messages Messages_Ref
begin

text \<open>
  The state the handlers and services of one server process share, computations on it, and
  the environment it lives in: a redis server that is up and the generated message code
  (locale \<open>server_env\<close>).
\<close>

section \<open>State\<close>

text \<open>\<open>TaskDataManager\<close>: its field \<open>task_infos_\<close>; the wrapper it refers to is \<open>redis_ptr\<close> below.\<close>

record TaskDataManager =
  task_infos :: "i32 \<Rightarrow> DBTaskInfo option"

definition new_TaskDataManager :: TaskDataManager where
  "new_TaskDataManager = \<lparr>task_infos = Map.empty\<rparr>"

text \<open>
  \<open>SyncRedisWrapper\<close>: the connection it owns, a null pointer until \<open>Connect\<close>. Its mutex is what
  makes a command one step of the threads (theory \<open>Threads\<close>).
\<close>

record 'c SyncRedisWrapper =
  redis_ptr :: "'c option"

definition new_SyncRedisWrapper :: "'c SyncRedisWrapper" where
  "new_SyncRedisWrapper = \<lparr>redis_ptr = None\<rparr>"

text \<open>
  \<open>RoleinfoManager\<close> with the wrapper it refers to: its table \<open>roles_\<close>, and the \<open>RoleInfo\<close>
  objects the shared pointers in it and elsewhere refer to, a pointer being an index into
  the list.
\<close>

type_synonym role_ptr = nat

record ('addr, 'c) RoleinfoManager = "'c SyncRedisWrapper" +
  roles :: "'addr \<Rightarrow> role_ptr option"
  role_heap :: "RoleInfo list"

definition new_RoleinfoManager :: "'c SyncRedisWrapper \<Rightarrow> ('addr, 'c) RoleinfoManager" where
  "new_RoleinfoManager redisWrapper = SyncRedisWrapper.extend redisWrapper (RoleinfoManager.fields Map.empty [])"

text \<open>The objects \<open>main\<close> creates and shares between the handlers.\<close>

record ('addr, 'c) server = "('addr, 'c) RoleinfoManager" +
  task_manager :: TaskDataManager

definition on_redis :: "('c option, 'a) action \<Rightarrow> (('addr, 'c) server, 'a) action" where
  "on_redis m S = (case m (redis_ptr S) of (r, p) \<Rightarrow> (r, S\<lparr>redis_ptr := p\<rparr>))"

definition redis_cmd :: "'c hiredis \<Rightarrow> string \<Rightarrow> redis_arg list \<Rightarrow> (('addr, 'c) server, redisReply) action" where
  "redis_cmd R format args = on_redis (RedisCommand R format args)"

text \<open>\<open>make_shared\<close>, and reading and writing through a pointer.\<close>

definition make_shared :: "RoleInfo \<Rightarrow> (('addr, 'c) server, role_ptr) action" where
  "make_shared r S = (Inr (length (role_heap S)), S\<lparr>role_heap := role_heap S @ [r]\<rparr>)"

definition read_role :: "role_ptr \<Rightarrow> (('addr, 'c) server, RoleInfo) action" where
  "read_role p S =
     (if p < length (role_heap S) then (Inr (role_heap S ! p), S)
      else (Inl (UndefinedBehaviour ''dangling pointer''), S))"

definition write_role :: "role_ptr \<Rightarrow> (RoleInfo \<Rightarrow> RoleInfo) \<Rightarrow> (('addr, 'c) server, unit) action" where
  "write_role p f S =
     (if p < length (role_heap S)
      then (Inr (), S\<lparr>role_heap := (role_heap S)[p := f (role_heap S ! p)]\<rparr>)
      else (Inl (UndefinedBehaviour ''dangling pointer''), S))"

section \<open>Lemmas\<close>

lemma on_redis_eq: "m (redis_ptr S) = (r, p) \<Longrightarrow> on_redis m S = (r, S\<lparr>redis_ptr := p\<rparr>)"
  by (simp add: on_redis_def)

lemma redis_cmd_frame [simp]:
  "roles (snd (redis_cmd R f as S)) = roles S"
  "role_heap (snd (redis_cmd R f as S)) = role_heap S"
  "task_manager (snd (redis_cmd R f as S)) = task_manager S"
  by (simp_all add: redis_cmd_def on_redis_def split: prod.splits)

section \<open>Invariants of the shared state\<close>

text \<open>
  What an invariant has to survive to survive the managers and services: a redis command, a
  write through a role pointer and the allocation of a role. The theories of the managers
  and services add that their operations keep every such invariant.
\<close>

locale server_inv =
  fixes I :: "('addr, 'c) server \<Rightarrow> bool"
  assumes keeps_redis_cmd [intro!]: "keeps I (redis_cmd R format args)"
    and keeps_write_role [intro!]: "keeps I (write_role p f)"
    and keeps_make_shared [intro!]: "keeps I (make_shared r)"

lemma keeps_read_role [intro!]: "keeps I (read_role p)"
  by (rule keepsI) (simp add: read_role_def)

lemma keeps_lift_res [intro!]: "keeps I (lift_res r)"
  by (simp add: keeps_def)

section \<open>The database behind the managers\<close>

text \<open>The connection is up, and what the store behind it holds.\<close>

definition db_connected :: "('c \<Rightarrow> bool) \<Rightarrow> ('addr, 'c) server \<Rightarrow> bool" where
  "db_connected up S \<longleftrightarrow> (case redis_ptr S of None \<Rightarrow> False | Some c \<Rightarrow> up c)"

definition db :: "('c \<Rightarrow> string \<Rightarrow> string option) \<Rightarrow> ('addr, 'c) server \<Rightarrow> string \<Rightarrow> string option" where
  "db store S = (case redis_ptr S of None \<Rightarrow> Map.empty | Some c \<Rightarrow> store c)"

text \<open>Two server states that differ at most in the database connection.\<close>

definition same_roles :: "('addr, 'c) server \<Rightarrow> ('addr, 'c) server \<Rightarrow> bool" where
  "same_roles S S' \<longleftrightarrow> roles S' = roles S \<and> role_heap S' = role_heap S \<and> task_manager S' = task_manager S"

locale server_env = redis_server R up store + protobuf_wire P wire_ok
  for R :: "'c hiredis" and up :: "'c \<Rightarrow> bool" and store :: "'c \<Rightarrow> string \<Rightarrow> string option"
    and P :: protobuf and wire_ok :: "Message \<Rightarrow> bool"
begin

lemma db_connectedE:
  assumes "db_connected up S"
  obtains c where "redis_ptr S = Some c" and "up c" and "db store S = store c"
  using assms by (auto simp: db_connected_def db_def split: option.splits)

lemma db_connectedI:
  "redis_ptr S = Some c \<Longrightarrow> up c \<Longrightarrow> db_connected up S \<and> db store S = store c"
  by (simp add: db_connected_def db_def)

lemma redis_get:
  assumes "db_connected up S" and "plain p"
  shows "\<exists>S'. redis_cmd R (''get '' @ p @ ''%s'') [ArgS k] S = (Inr (reply_get (db store S (p @ k))), S')
    \<and> db_connected up S' \<and> db store S' = db store S \<and> same_roles S S'"
proof -
  obtain c where c: "redis_ptr S = Some c" "up c" "db store S = store c"
    using assms(1) by (rule db_connectedE)
  obtain c' where "RedisCommand R (''get '' @ p @ ''%s'') [ArgS k] (Some c)
      = (Inr (reply_get (store c (p @ k))), Some c')" "up c'" "store c' = store c"
    using RedisCommand_get [OF c(2) assms(2)] by blast
  with c show ?thesis
    using db_connectedI [of "S\<lparr>redis_ptr := Some c'\<rparr>" c']
    by (intro exI [of _ "S\<lparr>redis_ptr := Some c'\<rparr>"])
      (simp add: redis_cmd_def on_redis_eq [of _ S] same_roles_def)
qed

lemma redis_set_s:
  assumes "db_connected up S" and "plain p"
  shows "\<exists>S'. redis_cmd R (''set '' @ p @ ''%s %s'') [ArgS k, ArgS v] S = (Inr reply_status, S')
    \<and> db_connected up S' \<and> db store S' = (db store S)(p @ k \<mapsto> v) \<and> same_roles S S'"
proof -
  obtain c where c: "redis_ptr S = Some c" "up c" "db store S = store c"
    using assms(1) by (rule db_connectedE)
  obtain c' where "RedisCommand R (''set '' @ p @ ''%s %s'') [ArgS k, ArgS v] (Some c)
      = (Inr reply_status, Some c')" "up c'" "store c' = (store c)(p @ k \<mapsto> v)"
    using RedisCommand_set_s [OF c(2) assms(2)] by blast
  with c show ?thesis
    using db_connectedI [of "S\<lparr>redis_ptr := Some c'\<rparr>" c']
    by (intro exI [of _ "S\<lparr>redis_ptr := Some c'\<rparr>"])
      (simp add: redis_cmd_def on_redis_eq [of _ S] same_roles_def)
qed

lemma redis_set_b:
  assumes "db_connected up S" and "plain p"
  shows "\<exists>S'. redis_cmd R (''set '' @ p @ ''%s %b'') [ArgS k, ArgB v] S = (Inr reply_status, S')
    \<and> db_connected up S' \<and> db store S' = (db store S)(p @ k \<mapsto> v) \<and> same_roles S S'"
proof -
  obtain c where c: "redis_ptr S = Some c" "up c" "db store S = store c"
    using assms(1) by (rule db_connectedE)
  obtain c' where "RedisCommand R (''set '' @ p @ ''%s %b'') [ArgS k, ArgB v] (Some c)
      = (Inr reply_status, Some c')" "up c'" "store c' = (store c)(p @ k \<mapsto> v)"
    using RedisCommand_set_b [OF c(2) assms(2)] by blast
  with c show ?thesis
    using db_connectedI [of "S\<lparr>redis_ptr := Some c'\<rparr>" c']
    by (intro exI [of _ "S\<lparr>redis_ptr := Some c'\<rparr>"])
      (simp add: redis_cmd_def on_redis_eq [of _ S] same_roles_def)
qed

lemma redis_incr:
  assumes "db_connected up S" and "plain key" and "counts (db store S key) n" and "0 \<le> n" and "n + 1 < 2 ^ 63"
  shows "\<exists>S'. redis_cmd R (''incr '' @ key) [] S = (Inr (reply_integer (n + 1)), S')
    \<and> db_connected up S' \<and> db store S' = (db store S)(key \<mapsto> to_string (n + 1)) \<and> same_roles S S'"
proof -
  obtain c where c: "redis_ptr S = Some c" "up c" "db store S = store c"
    using assms(1) by (rule db_connectedE)
  obtain c' where "RedisCommand R (''incr '' @ key) [] (Some c)
      = (Inr (reply_integer (n + 1)), Some c')" "up c'" "store c' = (store c)(key \<mapsto> to_string (n + 1))"
    using RedisCommand_incr [OF c(2) assms(2), of n] assms(3-5) c(3) by auto
  with c show ?thesis
    using db_connectedI [of "S\<lparr>redis_ptr := Some c'\<rparr>" c']
    by (intro exI [of _ "S\<lparr>redis_ptr := Some c'\<rparr>"])
      (simp add: redis_cmd_def on_redis_eq [of _ S] same_roles_def)
qed

lemma redis_incr_refused:
  assumes "db_connected up S" and "plain key" and "db store S key = Some v" and "refuses_incr v"
  shows "\<exists>e S'. redis_cmd R (''incr '' @ key) [] S = (Inr (reply_error e), S')
    \<and> db_connected up S' \<and> db store S' = db store S \<and> same_roles S S'"
proof -
  obtain c where c: "redis_ptr S = Some c" "up c" "db store S = store c"
    using assms(1) by (rule db_connectedE)
  obtain e c' where "RedisCommand R (''incr '' @ key) [] (Some c) = (Inr (reply_error e), Some c')" "up c'" "store c' = store c"
    using RedisCommand_incr_refused [OF c(2) assms(2), of v] assms(3,4) c(3) by auto
  with c show ?thesis
    using db_connectedI [of "S\<lparr>redis_ptr := Some c'\<rparr>" c']
    by (intro exI [of _ e] exI [of _ "S\<lparr>redis_ptr := Some c'\<rparr>"])
      (simp add: redis_cmd_def on_redis_eq [of _ S] same_roles_def)
qed

end

interpretation env_ref: server_env redis_ref "\<lambda>_. True" "\<lambda>m. m" protobuf_ref wire_ok_ref
  by (intro server_env.intro redis_ref_laws protobuf_ref_laws)

lemmas env_ref_laws = env_ref.server_env_axioms

lemma plain_prefixes [simp]:
  "plain ''__role_''" "plain ''__password_''" "plain ''__taskinfo_''" "plain ''gid''"
  by (simp_all add: plain_def)

text \<open>A server with an empty in-memory store.\<close>

definition server0 :: "(nat, string \<Rightarrow> string option) server" where
  "server0 = \<lparr>redis_ptr = Some Map.empty, roles = Map.empty, role_heap = [],
     task_manager = new_TaskDataManager\<rparr>"

lemma server0_connected [simp]: "db_connected (\<lambda>_. True) server0"
  by (simp add: server0_def db_connected_def)

end
