(* ===== verification/Role_Manager.thy ===== *)
theory Role_Manager
  imports Tables Server_State
begin

text \<open>
  \<open>littleB::RoleinfoManager\<close> (\<open>libsrc/data_manager/roleinfo_manager\<close>): the roles of the
  players that are logged in, by remote address, and their copies in the database. The
  table holds shared pointers and the services write through them, so the roles live on
  the heap of the server state. \<open>PushRoleToDB\<close> and \<open>PullRoleInfoFromDB\<close> provide the
  contract \<open>persistent_table\<close>, \<open>AddRole\<close> the contract \<open>insert_table\<close>.
\<close>

section \<open>Operations\<close>

definition AddRole :: "'addr \<Rightarrow> role_ptr \<Rightarrow> ('addr, 'c) server \<Rightarrow> bool \<times> ('addr, 'c) server" where
  "AddRole remote_address role_info S =
     (case roles S remote_address of
        None \<Rightarrow> (True, S\<lparr>roles := (roles S)(remote_address \<mapsto> role_info)\<rparr>)
      | Some _ \<Rightarrow> (False, S))"

definition RemoveRole :: "'addr \<Rightarrow> ('addr, 'c) server \<Rightarrow> bool \<times> ('addr, 'c) server" where
  "RemoveRole remote_address S =
     (roles S remote_address \<noteq> None, S\<lparr>roles := (roles S)(remote_address := None)\<rparr>)"

definition GetRole :: "'addr \<Rightarrow> ('addr, 'c) server \<Rightarrow> role_ptr option" where
  "GetRole remote_address S = roles S remote_address"

text \<open>
  \<open>PullRoleInfoFromDB\<close>: a null pointer when there is no string under the key or it does not
  parse. The object is a \<open>RoleInfo\<close> by its static type.
\<close>

definition PullRoleInfoFromDB ::
  "'c hiredis \<Rightarrow> protobuf \<Rightarrow> string \<Rightarrow> (('addr, 'c) server, role_ptr option) action" where
  "PullRoleInfoFromDB R P name =
     bind_act (redis_cmd R ''get __role_%s'' [ArgS (c_str name)]) (\<lambda>reply.
       if rtype reply \<noteq> REDIS_REPLY_STRING then ret_act None
       else (case ParseFromArray P TRoleInfo (str reply) of (ok, m) \<Rightarrow>
         if \<not> ok then ret_act None
         else (case as_RoleInfo m of
             None \<Rightarrow> raise_act BadCast
           | Some r \<Rightarrow> bind_act (make_shared r) (\<lambda>p. ret_act (Some p)))))"

text \<open>The three overloads of \<open>PushRoleToDB\<close>: by value, by pointer, by address.\<close>

definition PushRoleToDB :: "'c hiredis \<Rightarrow> protobuf \<Rightarrow> RoleInfo \<Rightarrow> (('addr, 'c) server, bool) action" where
  "PushRoleToDB R P role =
     bind_act (redis_cmd R ''set __role_%s %b''
         [ArgS (c_str (username (basic_info role))), ArgB (SerializeToString P (MRoleInfo role))]) (\<lambda>reply.
       ret_act (\<not> rtype reply \<noteq> REDIS_REPLY_STATUS))"

definition PushRoleToDB_ptr ::
  "'c hiredis \<Rightarrow> protobuf \<Rightarrow> role_ptr option \<Rightarrow> (('addr, 'c) server, bool) action" where
  "PushRoleToDB_ptr R P role =
     (case role of None \<Rightarrow> ret_act False | Some p \<Rightarrow> bind_act (read_role p) (PushRoleToDB R P))"

definition PushRoleToDB_addr :: "'c hiredis \<Rightarrow> protobuf \<Rightarrow> 'addr \<Rightarrow> (('addr, 'c) server, bool) action" where
  "PushRoleToDB_addr R P remote_address S =
     (case roles S remote_address of
        None \<Rightarrow> (Inr False, S)
      | Some p \<Rightarrow> PushRoleToDB_ptr R P (Some p) S)"

section \<open>Invariant\<close>

text \<open>Every pointer in the table refers to an object, and no two addresses share one.\<close>

definition roles_ok :: "('addr, 'c) server \<Rightarrow> bool" where
  "roles_ok S \<longleftrightarrow>
     (\<forall>a p. roles S a = Some p \<longrightarrow> p < length (role_heap S)) \<and>
     (\<forall>a b p. roles S a = Some p \<longrightarrow> roles S b = Some p \<longrightarrow> a = b)"

interpretation roles_inv: server_inv roles_ok
proof
  show "keeps roles_ok (redis_cmd R f as)" for R f as
    by (rule keepsI) (simp add: roles_ok_def)
  show "keeps roles_ok (write_role p f)" for p f
    by (rule keepsI) (auto simp: roles_ok_def write_role_def)
  show "keeps roles_ok (make_shared r)" for r
    by (rule keepsI) (auto simp: roles_ok_def make_shared_def intro: less_SucI)
qed

lemma RemoveRole_roles_ok: "roles_ok S \<Longrightarrow> roles_ok (snd (RemoveRole a S))"
  by (auto simp: roles_ok_def RemoveRole_def split: if_splits)

lemma AddRole_roles_ok:
  assumes "roles_ok S" and "p < length (role_heap S)" and "p \<notin> ran (roles S)"
  shows "roles_ok (snd (AddRole a p S))"
  using assms by (auto simp: AddRole_def roles_ok_def ran_def split: option.splits)

context server_inv
begin

lemma keeps_Pull [intro!]: "keeps I (PullRoleInfoFromDB R P u)"
  unfolding PullRoleInfoFromDB_def
  by (intro keeps_bind keeps_redis_cmd) (auto split: prod.splits option.splits intro!: keeps_bind)

lemma keeps_Push [intro!]: "keeps I (PushRoleToDB R P r)"
  unfolding PushRoleToDB_def by (auto intro!: keeps_bind)

lemma keeps_Push_ptr [intro!]: "keeps I (PushRoleToDB_ptr R P p)"
  by (auto simp: PushRoleToDB_ptr_def split: option.splits intro!: keeps_bind)

lemma keeps_Push_addr [intro!]: "keeps I (PushRoleToDB_addr R P a)"
  using keepsD [OF keeps_Push_ptr, of _ R P]
  by (intro keepsI) (auto simp: PushRoleToDB_addr_def split: option.splits)

end

text \<open>A pulled role is a new object: no address refers to it yet.\<close>

lemma Pull_fresh:
  assumes "PullRoleInfoFromDB R P u S = (Inr (Some p), S')" and "roles_ok S"
  shows "p < length (role_heap S')" and "p \<notin> ran (roles S')"
proof -
  obtain r S1 where S1: "S' = S1\<lparr>role_heap := role_heap S1 @ [r]\<rparr>" "p = length (role_heap S1)"
      "roles S1 = roles S" "role_heap S1 = role_heap S"
  proof -
    obtain reply S1 where cmd: "redis_cmd R ''get __role_%s'' [ArgS (c_str u)] S = (Inr reply, S1)"
      using assms(1) by (auto simp: PullRoleInfoFromDB_def bind_act_Inr_iff)
    moreover from cmd have "roles S1 = roles S" "role_heap S1 = role_heap S"
      using redis_cmd_frame [of R "''get __role_%s''" "[ArgS (c_str u)]" S] by simp_all
    ultimately show ?thesis
      using assms(1) that
      by (auto simp: PullRoleInfoFromDB_def make_shared_def bind_act_def split: if_splits prod.splits option.splits)
  qed
  then show "p < length (role_heap S')" and "p \<notin> ran (roles S')"
    using assms(2) by (auto simp: roles_ok_def ran_def)
qed

section \<open>The roles in the database\<close>

definition role_view :: "('c \<Rightarrow> string \<Rightarrow> string option) \<Rightarrow> protobuf \<Rightarrow> ('addr, 'c) server \<Rightarrow> string \<Rightarrow> RoleInfo option" where
  "role_view store P S k =
     (case db store S (''__role_'' @ k) of
        None \<Rightarrow> None
      | Some s \<Rightarrow> (case ParseFromArray P TRoleInfo s of (ok, m) \<Rightarrow> if ok then as_RoleInfo m else None))"

text \<open>Pull a role and read the object the pointer refers to.\<close>

definition pull_role :: "'c hiredis \<Rightarrow> protobuf \<Rightarrow> string \<Rightarrow> (('addr, 'c) server, RoleInfo option) action" where
  "pull_role R P k = bind_act (PullRoleInfoFromDB R P k) (\<lambda>p. case p of
     None \<Rightarrow> ret_act None
   | Some p \<Rightarrow> bind_act (read_role p) (\<lambda>r. ret_act (Some r)))"

context server_env
begin

lemma Pull_eq:
  assumes "db_connected up S"
  shows "\<exists>S1. db_connected up S1 \<and> db store S1 = db store S \<and> same_roles S S1 \<and>
    PullRoleInfoFromDB R P u S = (case role_view store P S (c_str u) of
        None \<Rightarrow> (Inr None, S1)
      | Some r \<Rightarrow> (Inr (Some (length (role_heap S))), S1\<lparr>role_heap := role_heap S @ [r]\<rparr>))"
proof -
  obtain S1 where S1: "redis_cmd R ''get __role_%s'' [ArgS (c_str u)] S
      = (Inr (reply_get (db store S (''__role_'' @ c_str u))), S1)"
      "db_connected up S1" "db store S1 = db store S" "same_roles S S1"
    using redis_get [OF assms, of "''__role_''" "c_str u"] by auto
  obtain r where r: "snd (ParseFromArray P TRoleInfo (the (db store S (''__role_'' @ c_str u)))) = MRoleInfo r"
    using parse_RoleInfo by blast
  show ?thesis
    using S1 r
    by (intro exI [of _ S1])
      (cases "db store S (''__role_'' @ c_str u)";
       auto simp: PullRoleInfoFromDB_def role_view_def replies make_shared_def same_roles_def as_RoleInfo_def
         bind_act_def split: prod.splits)
qed

lemma Push_eq:
  assumes "db_connected up S"
  shows "\<exists>S1. PushRoleToDB R P r S = (Inr True, S1) \<and> db_connected up S1 \<and> same_roles S S1 \<and>
    db store S1 = (db store S)(''__role_'' @ c_str (username (basic_info r))
      \<mapsto> SerializeToString P (MRoleInfo r))"
proof -
  obtain S1 where "redis_cmd R ''set __role_%s %b'' [ArgS (c_str (username (basic_info r))),
        ArgB (SerializeToString P (MRoleInfo r))] S = (Inr reply_status, S1)"
      "db_connected up S1" "same_roles S S1"
      "db store S1 = (db store S)(''__role_'' @ c_str (username (basic_info r))
        \<mapsto> SerializeToString P (MRoleInfo r))"
    using redis_set_b [OF assms, of "''__role_''"] by fastforce
  then show ?thesis by (intro exI [of _ S1]) (simp add: PushRoleToDB_def replies)
qed

lemma role_view_pushed:
  assumes "wire_ok (MRoleInfo r)"
    and "db store S' = (db store S)(''__role_'' @ k \<mapsto> SerializeToString P (MRoleInfo r))"
  shows "role_view store P S' = (role_view store P S)(k \<mapsto> r)"
  using assms roundtrip_role [OF assms(1)]
  by (auto simp: role_view_def fun_eq_iff as_RoleInfo_def)

lemma pull_role_eq:
  assumes "db_connected up S"
  shows "\<exists>S'. pull_role R P u S = (Inr (role_view store P S (c_str u)), S') \<and>
    db_connected up S' \<and> db store S' = db store S \<and> roles S' = roles S"
proof -
  obtain S1 where S1: "db_connected up S1" "db store S1 = db store S" "same_roles S S1"
      "PullRoleInfoFromDB R P u S = (case role_view store P S (c_str u) of
        None \<Rightarrow> (Inr None, S1)
      | Some r \<Rightarrow> (Inr (Some (length (role_heap S))), S1\<lparr>role_heap := role_heap S @ [r]\<rparr>))"
    using Pull_eq [OF assms] by blast
  then show ?thesis
    by (cases "role_view store P S (c_str u)")
      (auto simp: pull_role_def read_role_def same_roles_def db_connected_def db_def nth_append)
qed

end

definition role_key :: "string \<Rightarrow> bool" where
  "role_key k \<longleftrightarrow> c_str k = k"

definition role_storable :: "(Message \<Rightarrow> bool) \<Rightarrow> string \<Rightarrow> RoleInfo \<Rightarrow> bool" where
  "role_storable wire_ok k r \<longleftrightarrow> c_str (username (basic_info r)) = k \<and> wire_ok (MRoleInfo r)"

sublocale server_env \<subseteq> role_table: persistent_table "db_connected up" "role_view store P" "\<lambda>r. r"
  role_key "role_storable wire_ok" "\<lambda>k. PushRoleToDB R P" "pull_role R P"
proof
  fix S :: "('x, 'c) server" and k r
  show "role_key k" if "role_storable wire_ok k r"
    using that by (auto simp: role_key_def role_storable_def)
  show "\<exists>S'. PushRoleToDB R P r S = (Inr True, S') \<and> db_connected up S' \<and>
      role_view store P S' = (role_view store P S)(k \<mapsto> r)"
    if "db_connected up S" "role_storable wire_ok k r"
    using Push_eq [OF that(1), of r] that(2) role_view_pushed by (auto simp: role_storable_def)
  show "\<exists>q S'. pull_role R P k S = (Inr q, S') \<and> map_option (\<lambda>r. r) q = role_view store P S k \<and>
      db_connected up S' \<and> role_view store P S' = role_view store P S"
    if c: "db_connected up S" and k: "role_key k"
  proof -
    obtain S' where "pull_role R P k S = (Inr (role_view store P S (c_str k)), S')"
        "db_connected up S'" "db store S' = db store S"
      using pull_role_eq [OF c] by blast
    then show ?thesis
      using k by (auto simp: role_key_def role_view_def option.map_ident)
  qed
qed

section \<open>The table of logged-in roles\<close>

interpretation role_tab: insert_table roles AddRole
  by unfold_locales (auto simp: AddRole_def split: option.splits)

definition pull_and_add :: "'c hiredis \<Rightarrow> protobuf \<Rightarrow> string \<Rightarrow> 'addr \<Rightarrow> (('addr, 'c) server, bool) action" where
  "pull_and_add R P u a = bind_act (PullRoleInfoFromDB R P u) (\<lambda>p S. case p of
     None \<Rightarrow> (Inr False, S)
   | Some p \<Rightarrow> map_prod Inr id (AddRole a p S))"

lemma keeps_pull_and_add [intro!]:
  fixes a :: 'addr and R :: "'c hiredis"
  shows "keeps roles_ok (pull_and_add R P u a)"
proof (rule keepsI)
  fix S :: "('addr, 'c) server"
  assume S: "roles_ok S"
  show "roles_ok (snd (pull_and_add R P u a S))"
  proof (cases "PullRoleInfoFromDB R P u S")
    case (Pair res S1)
    have S1: "roles_ok S1" using keepsD [OF roles_inv.keeps_Pull S, of R P u] Pair by simp
    have "roles_ok (snd (AddRole a q S1))" if "res = Inr (Some q)" for q
      using Pull_fresh [OF _ S, of R P u q S1] Pair that S1 by (intro AddRole_roles_ok) auto
    with Pair S1 show ?thesis
      by (auto simp: pull_and_add_def bind_act_def split: sum.splits option.splits)
  qed
qed

text \<open>
  The role table stays well formed. Every pointer in it refers to an object and no two
  addresses share one; this is kept by pulling a role and adding it under an address, as a
  login does, by removing an address, by writing through a pointer and by the three forms
  of pushing, whether they return or fail.
\<close>

lemma role_operations_keep_invariant:
  "keeps roles_ok (pull_and_add R P u a) \<and>
   keeps roles_ok (\<lambda>S. map_prod Inr id (RemoveRole a S)) \<and>
   keeps roles_ok (write_role p f) \<and>
   keeps roles_ok (PushRoleToDB R P r) \<and> keeps roles_ok (PushRoleToDB_ptr R P q) \<and>
   keeps roles_ok (PushRoleToDB_addr R P a)"
proof -
  have "keeps roles_ok (\<lambda>S. map_prod Inr id (RemoveRole a S))"
    by (rule keepsI) (simp add: RemoveRole_roles_ok)
  then show ?thesis by blast
qed

context server_env
begin

lemma push_pull_role:
  assumes S: "db_connected up S" and r: "wire_ok (MRoleInfo r)"
  shows "\<exists>S1 S2. PushRoleToDB R P r S = (Inr True, S1) \<and>
    pull_role R P (username (basic_info r)) S1 = (Inr (Some r), S2) \<and>
    (\<forall>k. k \<noteq> c_str (username (basic_info r)) \<longrightarrow> role_view store P S1 k = role_view store P S k)"
proof -
  let ?u = "username (basic_info r)"
  obtain S1 where S1: "PushRoleToDB R P r S = (Inr True, S1)" "db_connected up S1"
      "role_view store P S1 = (role_view store P S)(c_str ?u \<mapsto> r)"
    using role_table.push [OF S, of "c_str ?u" r] r
    unfolding role_storable_def by blast
  obtain S2 where "pull_role R P ?u S1 = (Inr (role_view store P S1 (c_str ?u)), S2)"
    using pull_role_eq [OF S1(2)] by blast
  with S1 show ?thesis by auto
qed

end

text \<open>
  C32: the database keeps a role. After \<open>PushRoleToDB\<close> on a server that is up, pulling the
  role's user name gives an equal role, and what every other user name pulls is unchanged.
\<close>

theorem role_push_then_pull:
  assumes "server_env R up store P wire_ok" and "db_connected up S" and "wire_ok (MRoleInfo r)"
  shows "\<exists>S1 S2. PushRoleToDB R P r S = (Inr True, S1) \<and>
    pull_role R P (username (basic_info r)) S1 = (Inr (Some r), S2) \<and>
    (\<forall>k. k \<noteq> c_str (username (basic_info r)) \<longrightarrow> role_view store P S1 k = role_view store P S k)"
  by (rule server_env.push_pull_role [OF assms])

theorem role_push_then_pull_witness:
  "\<exists>S1 S2. PushRoleToDB redis_ref protobuf_ref (mutable_basic_info (\<lambda>b. b\<lparr>username := ''bob''\<rparr>) empty_role) server0
      = (Inr True, S1) \<and>
    pull_role redis_ref protobuf_ref ''bob'' S1
      = (Inr (Some (mutable_basic_info (\<lambda>b. b\<lparr>username := ''bob''\<rparr>) empty_role)), S2)"
  using role_push_then_pull [OF env_ref_laws server0_connected,
      of "mutable_basic_info (\<lambda>b. b\<lparr>username := ''bob''\<rparr>) empty_role"]
  by (auto simp: mutable_basic_info_def basic_info_def)

end
