(* ===== verification/Login_Services.thy ===== *)
theory Login_Services
  imports Role_Manager
begin

text \<open>
  The login and register services (\<open>libsrc/login_service\<close>) and the abstract account
  database they implement: a password and a role for every account name and a counter of
  player ids. The refinement is proved per operation and lifted to sequences of requests;
  what holds of accounts over time is then proved on the abstract side.
\<close>

section \<open>The services\<close>

text \<open>
  The body of the \<open>do ... while (0)\<close> gives the error code and whether the response says that
  the visitor returns; a \<open>break\<close> ends it. Both services ignore the role they are given. \<open>reply->str\<close> is compared as a C string. The gid
  of the response is never set.
\<close>

definition MinigameFakeLoginService ::
  "'c hiredis \<Rightarrow> protobuf \<Rightarrow> 'r \<Rightarrow> LoginReq \<Rightarrow> (('addr, 'c) server, LoginRsp) action" where
  "MinigameFakeLoginService R P role request =
     bind_act
       (bind_act (redis_cmd R ''get __password_%s'' [ArgS (c_str (lq_account request))]) (\<lambda>reply.
          if rtype reply \<noteq> REDIS_REPLY_STRING then ret_act (LOGIN_NOT_REGISTERED, False)
          else if lq_password request \<noteq> c_str (str reply) then ret_act (LOGIN_PASSWORD_WRONG, False)
          else bind_act (PullRoleInfoFromDB R P (lq_account request)) (\<lambda>ptr.
            case ptr of
              None \<Rightarrow> ret_act (LOGIN_UNKOWN_EORROR, False)
            | Some p \<Rightarrow> bind_act (read_role p) (\<lambda>r.
                if \<not> is_returning_visitor (basic_info r) then
                  bind_act (write_role p (mutable_basic_info (\<lambda>b. b\<lparr>is_returning_visitor := True\<rparr>))) (\<lambda>_.
                    bind_act (PushRoleToDB_ptr R P (Some p)) (\<lambda>_. ret_act (LOGIN_SUCCEED, False)))
                else ret_act (LOGIN_SUCCEED, True)))))
       (\<lambda>(ret, returning). ret_act
          \<lparr>lr_rpcid = lq_rpcid request, lr_error = LoginErrorCode_value ret,
           lr_message = LoginErrorCode_Name ret, lr_gid = 0, lr_is_returning_visitor = returning\<rparr>)"

text \<open>\<open>int gid = reply->integer\<close> keeps the low 32 bits.\<close>

definition MinigameRegisterService ::
  "'c hiredis \<Rightarrow> protobuf \<Rightarrow> 'r \<Rightarrow> RegisterReq \<Rightarrow> (('addr, 'c) server, RegisterRsp) action" where
  "MinigameRegisterService R P role request =
     bind_act
       (bind_act (redis_cmd R ''get __password_%s'' [ArgS (c_str (rq_account request))]) (\<lambda>reply.
          if rtype reply \<noteq> REDIS_REPLY_NIL then ret_act ACCOUNT_ALREADY_EXIST
          else bind_act (redis_cmd R ''set __password_%s %s''
                 [ArgS (c_str (rq_account request)), ArgS (c_str (rq_password request))]) (\<lambda>reply.
            if rtype reply \<noteq> REDIS_REPLY_STATUS then ret_act REGISTER_UNKOWN_EORROR
            else bind_act (redis_cmd R ''incr gid'' []) (\<lambda>reply.
              if rtype reply \<noteq> REDIS_REPLY_INTEGER then ret_act REGISTER_UNKOWN_EORROR
              else let gid = (ucast (integer reply) :: i32);
                       initial_role = mutable_basic_info (\<lambda>b. b\<lparr>username := rq_account request\<rparr>)
                         (mutable_basic_info (\<lambda>b. b\<lparr>player_id := gid\<rparr>) empty_role);
                       role_buf = SerializeToString P (MRoleInfo initial_role)
                   in bind_act (redis_cmd R ''set __role_%s %b''
                        [ArgS (c_str (rq_account request)), ArgB role_buf]) (\<lambda>reply.
                      if rtype reply = REDIS_REPLY_STATUS then ret_act REGISTER_SUCCEED
                      else ret_act REGISTER_UNKOWN_EORROR)))))
       (\<lambda>ret. ret_act
          \<lparr>rr_rpcid = rq_rpcid request, rr_error = RegisterErrorCode_value ret,
           rr_message = RegisterErrorCode_Name ret, rr_gid = 0\<rparr>)"

context server_inv
begin

lemma keeps_login [intro!]: "keeps I (MinigameFakeLoginService R P role req)"
  unfolding MinigameFakeLoginService_def
  by (auto intro!: keeps_bind split: option.splits)

lemma keeps_register [intro!]: "keeps I (MinigameRegisterService R P role req)"
  unfolding MinigameRegisterService_def Let_def
  by (auto intro!: keeps_bind)

end

section \<open>The abstract account database\<close>

record accounts =
  acc_password :: "string \<Rightarrow> string option"
  acc_role :: "string \<Rightarrow> RoleInfo option"
  acc_gid :: int

definition login_rsp :: "LoginReq \<Rightarrow> LoginErrorCode \<Rightarrow> bool \<Rightarrow> LoginRsp" where
  "login_rsp req ret returning =
     \<lparr>lr_rpcid = lq_rpcid req, lr_error = LoginErrorCode_value ret,
      lr_message = LoginErrorCode_Name ret, lr_gid = 0, lr_is_returning_visitor = returning\<rparr>"

definition register_rsp :: "RegisterReq \<Rightarrow> RegisterErrorCode \<Rightarrow> RegisterRsp" where
  "register_rsp req ret =
     \<lparr>rr_rpcid = rq_rpcid req, rr_error = RegisterErrorCode_value ret,
      rr_message = RegisterErrorCode_Name ret, rr_gid = 0\<rparr>"

definition visited :: "RoleInfo \<Rightarrow> RoleInfo" where
  "visited = mutable_basic_info (\<lambda>b. b\<lparr>is_returning_visitor := True\<rparr>)"

definition new_role :: "i32 \<Rightarrow> string \<Rightarrow> RoleInfo" where
  "new_role gid u = \<lparr>opt_basic_info = Some \<lparr>player_id = gid, is_returning_visitor = False, username = u\<rparr>,
     opt_progress = None\<rparr>"

definition login_spec :: "LoginReq \<Rightarrow> accounts \<Rightarrow> LoginRsp \<times> accounts" where
  "login_spec req A =
     (let k = c_str (lq_account req) in
      case acc_password A k of
        None \<Rightarrow> (login_rsp req LOGIN_NOT_REGISTERED False, A)
      | Some pw \<Rightarrow>
          if lq_password req \<noteq> c_str pw then (login_rsp req LOGIN_PASSWORD_WRONG False, A)
          else (case acc_role A k of
              None \<Rightarrow> (login_rsp req LOGIN_UNKOWN_EORROR False, A)
            | Some r \<Rightarrow>
                if is_returning_visitor (basic_info r) then (login_rsp req LOGIN_SUCCEED True, A)
                else (login_rsp req LOGIN_SUCCEED False, A\<lparr>acc_role := (acc_role A)(k \<mapsto> visited r)\<rparr>)))"

definition register_spec :: "RegisterReq \<Rightarrow> accounts \<Rightarrow> RegisterRsp \<times> accounts" where
  "register_spec req A =
     (let k = c_str (rq_account req) in
      case acc_password A k of
        Some _ \<Rightarrow> (register_rsp req ACCOUNT_ALREADY_EXIST, A)
      | None \<Rightarrow>
          (register_rsp req REGISTER_SUCCEED,
           \<lparr>acc_password = (acc_password A)(k \<mapsto> c_str (rq_password req)),
            acc_role = (acc_role A)(k \<mapsto> new_role (word_of_int (acc_gid A + 1)) (rq_account req)),
            acc_gid = acc_gid A + 1\<rparr>))"

text \<open>The database behind a server state holds these accounts.\<close>

definition account_rel ::
  "('c \<Rightarrow> bool) \<Rightarrow> ('c \<Rightarrow> string \<Rightarrow> string option) \<Rightarrow> protobuf \<Rightarrow> ('addr, 'c) server \<Rightarrow> accounts \<Rightarrow> bool" where
  "account_rel up store P S A \<longleftrightarrow> db_connected up S \<and>
     acc_password A = (\<lambda>k. db store S (''__password_'' @ k)) \<and>
     acc_role A = role_view store P S \<and>
     counts (db store S ''gid'') (acc_gid A) \<and> 0 \<le> acc_gid A"

text \<open>
  A name whose roles the wire format carries, and accounts whose roles are stored under
  their own such names.
\<close>

definition name_ok :: "(Message \<Rightarrow> bool) \<Rightarrow> string \<Rightarrow> bool" where
  "name_ok wire_ok u \<longleftrightarrow> (\<forall>r. username (basic_info r) = u \<longrightarrow> wire_ok (MRoleInfo r))"

definition accounts_ok :: "(Message \<Rightarrow> bool) \<Rightarrow> accounts \<Rightarrow> bool" where
  "accounts_ok wire_ok A \<longleftrightarrow> (\<forall>k r. acc_role A k = Some r \<longrightarrow>
     c_str (username (basic_info r)) = k \<and> name_ok wire_ok (username (basic_info r)))"

section \<open>Lemmas\<close>

lemma visited_basic_info [simp]:
  "basic_info (visited r) = (basic_info r)\<lparr>is_returning_visitor := True\<rparr>"
  by (simp add: visited_def mutable_basic_info_def basic_info_def)

lemma new_role_basic_info [simp]:
  "basic_info (new_role gid u) = \<lparr>player_id = gid, is_returning_visitor = False, username = u\<rparr>"
  by (simp add: new_role_def basic_info_def)

lemma new_role_eq:
  "mutable_basic_info (\<lambda>b. b\<lparr>username := u\<rparr>) (mutable_basic_info (\<lambda>b. b\<lparr>player_id := gid\<rparr>) empty_role)
     = new_role gid u"
  by (simp add: mutable_basic_info_def basic_info_def empty_role_def new_role_def default_BasicInfo_def)

lemma ucast_reply_integer [simp]: "(ucast (integer (reply_integer n)) :: i32) = word_of_int n"
  by (simp add: reply_integer_def ucast_eq word_of_int_eq_iff take_bit_eq_mod uint_word_of_int mod_mod_cancel)

lemma login_spec_ok: "accounts_ok wire_ok A \<Longrightarrow> accounts_ok wire_ok (snd (login_spec req A))"
  by (simp add: login_spec_def Let_def accounts_ok_def split: option.splits)

lemma register_spec_ok:
  "accounts_ok wire_ok A \<Longrightarrow> name_ok wire_ok (rq_account req) \<Longrightarrow> accounts_ok wire_ok (snd (register_spec req A))"
  by (simp add: register_spec_def Let_def accounts_ok_def split: option.splits)

lemma account_relI:
  assumes "account_rel up store P S A" and "db_connected up S'" and "db store S' = db store S"
  shows "account_rel up store P S' A"
  using assms by (auto simp: account_rel_def role_view_def fun_eq_iff)

lemma account_rel_push:
  assumes "account_rel up store P S A" and "db_connected up S'"
    and "db store S' = (db store S)(''__role_'' @ k \<mapsto> s)" and "role_view store P S' = (role_view store P S)(k \<mapsto> r)"
  shows "account_rel up store P S' (A\<lparr>acc_role := (acc_role A)(k \<mapsto> r)\<rparr>)"
  using assms by (simp add: account_rel_def)

section \<open>The services implement the account database\<close>

context server_env
begin

text \<open>Writing back a role that was just pulled.\<close>

lemma write_push:
  assumes "db_connected up S" and "p < length (role_heap S)"
  shows "\<exists>S1. bind_act (write_role p f) (\<lambda>_. bind_act (PushRoleToDB_ptr R P (Some p)) (\<lambda>_. ret_act x)) S = (Inr x, S1) \<and>
    db_connected up S1 \<and> roles S1 = roles S \<and> role_heap S1 = (role_heap S)[p := f (role_heap S ! p)] \<and>
    task_manager S1 = task_manager S \<and>
    db store S1 = (db store S)(''__role_'' @ c_str (username (basic_info (f (role_heap S ! p))))
      \<mapsto> SerializeToString P (MRoleInfo (f (role_heap S ! p))))"
proof -
  let ?S = "S\<lparr>role_heap := (role_heap S)[p := f (role_heap S ! p)]\<rparr>"
  have S: "db_connected up ?S" "db store ?S = db store S"
    using assms(1) by (simp_all add: db_connected_def db_def)
  obtain S1 where "PushRoleToDB R P (f (role_heap S ! p)) ?S = (Inr True, S1)" "db_connected up S1"
      "same_roles ?S S1" "db store S1 = (db store ?S)(''__role_'' @ c_str (username (basic_info (f (role_heap S ! p))))
      \<mapsto> SerializeToString P (MRoleInfo (f (role_heap S ! p))))"
    using Push_eq [OF S(1)] by blast
  with assms(2) S show ?thesis
    by (intro exI [of _ S1]) (simp add: write_role_def PushRoleToDB_ptr_def read_role_def same_roles_def)
qed

lemma login_refines:
  assumes rel: "account_rel up store P S A" and ok: "accounts_ok wire_ok A"
  shows "\<exists>S'. MinigameFakeLoginService R P role req S = (Inr (fst (login_spec req A)), S') \<and>
    account_rel up store P S' (snd (login_spec req A)) \<and> roles S' = roles S \<and> task_manager S' = task_manager S"
proof -
  let ?k = "c_str (lq_account req)"
  have c: "db_connected up S" using rel by (simp add: account_rel_def)
  obtain S1 where S1: "redis_cmd R ''get __password_%s'' [ArgS ?k] S = (Inr (reply_get (acc_password A ?k)), S1)"
      "db_connected up S1" "db store S1 = db store S" "same_roles S S1"
    using redis_get [OF c, of "''__password_''" ?k] rel by (auto simp: account_rel_def)
  obtain S2 where S2: "db_connected up S2" "db store S2 = db store S1" "same_roles S1 S2"
      "PullRoleInfoFromDB R P (lq_account req) S1 = (case role_view store P S1 ?k of
        None \<Rightarrow> (Inr None, S2)
      | Some r \<Rightarrow> (Inr (Some (length (role_heap S1))), S2\<lparr>role_heap := role_heap S1 @ [r]\<rparr>))"
    using Pull_eq [OF S1(2)] by blast
  have rel1: "account_rel up store P S1 A" using account_relI [OF rel S1(2,3)] .
  then have rel2: "account_rel up store P S2 A" using account_relI [OF _ S2(1,2)] by blast
  have view: "role_view store P S1 ?k = acc_role A ?k" using rel1 by (simp add: account_rel_def)
  show ?thesis
  proof (cases "acc_password A ?k = None \<or> lq_password req \<noteq> c_str (the (acc_password A ?k)) \<or> acc_role A ?k = None")
    case True
    then show ?thesis
      using S1 S2 view rel1 rel2
      by (auto simp: MinigameFakeLoginService_def login_spec_def login_rsp_def Let_def replies same_roles_def
          split: option.splits)
  next
    case False
    then obtain r where r: "acc_role A ?k = Some r" by auto
    let ?p = "length (role_heap S1)" and ?S2 = "S2\<lparr>role_heap := role_heap S1 @ [r]\<rparr>"
    have c2: "db_connected up ?S2" "db store ?S2 = db store S2" "account_rel up store P ?S2 A"
      using S2(1) rel2 account_relI [of up store P S2 A ?S2] by (simp_all add: db_connected_def db_def)
    obtain S3 where S3: "bind_act (write_role ?p visited) (\<lambda>_. bind_act (PushRoleToDB_ptr R P (Some ?p)) (\<lambda>_. ret_act (LOGIN_SUCCEED, False))) ?S2
          = (Inr (LOGIN_SUCCEED, False), S3)"
        "db_connected up S3" "roles S3 = roles S2" "task_manager S3 = task_manager S2"
        "db store S3 = (db store ?S2)(''__role_'' @ c_str (username (basic_info r)) \<mapsto> SerializeToString P (MRoleInfo (visited r)))"
      using write_push [OF c2(1), of ?p visited "(LOGIN_SUCCEED, False)"] by (auto simp: nth_append)
    have name: "c_str (username (basic_info r)) = ?k" "wire_ok (MRoleInfo (visited r))"
      using ok r by (auto simp: accounts_ok_def name_ok_def)
    have "account_rel up store P S3 (A\<lparr>acc_role := (acc_role A)(?k \<mapsto> visited r)\<rparr>)"
      using account_rel_push [OF c2(3) S3(2) S3(5) [unfolded name(1)]]
        role_view_pushed [OF name(2), of S3 ?S2 ?k] S3(5) name(1) by simp
    then show ?thesis
      using False r S1 S2 view c2 S3
      by (auto simp: MinigameFakeLoginService_def login_spec_def login_rsp_def Let_def replies same_roles_def
          read_role_def nth_append visited_def)
  qed
qed

lemma register_refines:
  assumes rel: "account_rel up store P S A" and name: "name_ok wire_ok (rq_account req)"
    and gid: "acc_gid A + 1 < 2 ^ 63"
  shows "\<exists>S'. MinigameRegisterService R P role req S = (Inr (fst (register_spec req A)), S') \<and>
    account_rel up store P S' (snd (register_spec req A)) \<and> same_roles S S'"
proof -
  let ?k = "c_str (rq_account req)" and ?pw = "c_str (rq_password req)"
  let ?r = "new_role (word_of_int (acc_gid A + 1)) (rq_account req)"
  have c: "db_connected up S" using rel by (simp add: account_rel_def)
  obtain S1 where S1: "redis_cmd R ''get __password_%s'' [ArgS ?k] S = (Inr (reply_get (acc_password A ?k)), S1)"
      "db_connected up S1" "db store S1 = db store S" "same_roles S S1"
    using redis_get [OF c, of "''__password_''" ?k] rel by (auto simp: account_rel_def)
  obtain S2 where S2: "redis_cmd R ''set __password_%s %s'' [ArgS ?k, ArgS ?pw] S1 = (Inr reply_status, S2)"
      "db_connected up S2" "db store S2 = (db store S1)(''__password_'' @ ?k \<mapsto> ?pw)" "same_roles S1 S2"
    using redis_set_s [OF S1(2), of "''__password_''" ?k ?pw] by auto
  obtain S3 where S3: "redis_cmd R ''incr gid'' [] S2 = (Inr (reply_integer (acc_gid A + 1)), S3)"
      "db_connected up S3" "db store S3 = (db store S2)(''gid'' \<mapsto> to_string (acc_gid A + 1))" "same_roles S2 S3"
    using redis_incr [OF S2(2), of "''gid''" "acc_gid A"] rel gid S1(3) S2(3) by (auto simp: account_rel_def)
  obtain S4 where S4: "redis_cmd R ''set __role_%s %b'' [ArgS ?k, ArgB (SerializeToString P (MRoleInfo ?r))] S3
        = (Inr reply_status, S4)" "db_connected up S4" "same_roles S3 S4"
      "db store S4 = (db store S3)(''__role_'' @ ?k \<mapsto> SerializeToString P (MRoleInfo ?r))"
    using redis_set_b [OF S3(2), of "''__role_''" ?k "SerializeToString P (MRoleInfo ?r)"] by auto
  show ?thesis
  proof (cases "acc_password A ?k")
    case None
    have "role_view store P S3 = role_view store P S"
      using S1(3) S2(3) S3(3) by (auto simp: role_view_def fun_eq_iff)
    moreover have "wire_ok (MRoleInfo ?r)" using name by (simp add: name_ok_def)
    ultimately have "role_view store P S4 = (acc_role A)(?k \<mapsto> ?r)"
      using role_view_pushed [OF _ S4(4)] rel by (simp add: account_rel_def)
    then have "account_rel up store P S4 (snd (register_spec req A))"
      using None rel S4 S3(3) S2(3) S1(3)
      by (auto simp: account_rel_def register_spec_def Let_def counts_def fun_eq_iff)
    then show ?thesis
      using None S1 S2 S3 S4
      by (intro exI [of _ S4])
        (simp add: MinigameRegisterService_def register_spec_def register_rsp_def Let_def new_role_eq
          reply_get_def same_roles_def)
  next
    case (Some pw)
    then show ?thesis
      using S1 account_relI [OF rel S1(2,3)]
      by (intro exI [of _ S1])
        (simp add: MinigameRegisterService_def register_spec_def register_rsp_def Let_def replies)
  qed
qed

end

section \<open>Sequences of requests\<close>

datatype account_op = Register RegisterReq | Login LoginReq

definition account_call :: "'c hiredis \<Rightarrow> protobuf \<Rightarrow> 'r \<Rightarrow> account_op \<Rightarrow> (('addr, 'c) server, Message) action" where
  "account_call R P role op = (case op of
     Register q \<Rightarrow> bind_act (MinigameRegisterService R P role q) (\<lambda>rsp. ret_act (MRegisterRsp rsp))
   | Login q \<Rightarrow> bind_act (MinigameFakeLoginService R P role q) (\<lambda>rsp. ret_act (MLoginRsp rsp)))"

fun account_calls :: "'c hiredis \<Rightarrow> protobuf \<Rightarrow> 'r \<Rightarrow> account_op list \<Rightarrow> (('addr, 'c) server, Message list) action" where
  "account_calls R P role [] = ret_act []"
| "account_calls R P role (op # ops) =
     bind_act (account_call R P role op) (\<lambda>rsp.
       bind_act (account_calls R P role ops) (\<lambda>rsps. ret_act (rsp # rsps)))"

definition spec_call :: "account_op \<Rightarrow> accounts \<Rightarrow> Message \<times> accounts" where
  "spec_call op A = (case op of
     Register q \<Rightarrow> map_prod MRegisterRsp id (register_spec q A)
   | Login q \<Rightarrow> map_prod MLoginRsp id (login_spec q A))"

fun spec_calls :: "account_op list \<Rightarrow> accounts \<Rightarrow> Message list \<times> accounts" where
  "spec_calls [] A = ([], A)"
| "spec_calls (op # ops) A =
     (let (rsp, A') = spec_call op A; (rsps, A'') = spec_calls ops A' in (rsp # rsps, A''))"

fun op_ok :: "(Message \<Rightarrow> bool) \<Rightarrow> account_op \<Rightarrow> bool" where
  "op_ok wire_ok (Register q) = name_ok wire_ok (rq_account q)"
| "op_ok wire_ok (Login q) = True"

lemma spec_calls_fst_append:
  "fst (spec_calls (xs @ ys) A) = fst (spec_calls xs A) @ fst (spec_calls ys (snd (spec_calls xs A)))"
  by (induction xs arbitrary: A) (simp_all add: case_prod_beta Let_def)

lemma acc_gid_step: "acc_gid A \<le> acc_gid (snd (spec_call op A)) \<and> acc_gid (snd (spec_call op A)) \<le> acc_gid A + 1"
  by (auto simp: spec_call_def register_spec_def login_spec_def Let_def split: account_op.splits option.splits)

context server_env
begin

lemma account_call_refines:
  assumes "account_rel up store P S A" "accounts_ok wire_ok A" "op_ok wire_ok op" "acc_gid A + 1 < 2 ^ 63"
  shows "\<exists>S'. account_call R P role op S = (Inr (fst (spec_call op A)), S') \<and>
    account_rel up store P S' (snd (spec_call op A)) \<and> accounts_ok wire_ok (snd (spec_call op A)) \<and>
    roles S' = roles S"
proof (cases op)
  case (Register q)
  then show ?thesis
    using assms register_refines [OF assms(1), of q role] register_spec_ok [OF assms(2)]
    by (fastforce simp: account_call_def spec_call_def same_roles_def)
next
  case (Login q)
  then show ?thesis
    using login_refines [OF assms(1,2), of role q] login_spec_ok [OF assms(2)]
    by (fastforce simp: account_call_def spec_call_def)
qed

lemma account_calls_refine:
  assumes "account_rel up store P S A" "accounts_ok wire_ok A" "list_all (op_ok wire_ok) ops"
    "acc_gid A + int (length ops) < 2 ^ 63"
  shows "\<exists>S'. account_calls R P role ops S = (Inr (fst (spec_calls ops A)), S') \<and>
    account_rel up store P S' (snd (spec_calls ops A)) \<and> roles S' = roles S"
  using assms
proof (induction ops arbitrary: S A)
  case (Cons op ops)
  obtain S1 where S1: "account_call R P role op S = (Inr (fst (spec_call op A)), S1)"
      "account_rel up store P S1 (snd (spec_call op A))" "accounts_ok wire_ok (snd (spec_call op A))"
      "roles S1 = roles S"
    using account_call_refines [OF Cons.prems(1,2), of op role] Cons.prems(3,4) by auto
  moreover obtain S2 where "account_calls R P role ops S1 = (Inr (fst (spec_calls ops (snd (spec_call op A)))), S2)"
      "account_rel up store P S2 (snd (spec_calls ops (snd (spec_call op A))))" "roles S2 = roles S1"
    using Cons.IH [OF S1(2,3)] Cons.prems(3,4) acc_gid_step [of A op] by auto
  ultimately show ?case by (simp add: case_prod_beta Let_def)
qed simp

end

section \<open>What holds of an account over time\<close>

definition logged_in_before :: "string \<Rightarrow> string \<Rightarrow> account_op list \<Rightarrow> bool" where
  "logged_in_before k pw ops \<longleftrightarrow>
     (\<exists>l. Login l \<in> set ops \<and> c_str (lq_account l) = k \<and> lq_password l = pw)"

lemma spec_calls_account:
  assumes "acc_password A k = Some pw" and "c_str pw = pw" and "acc_role A k = Some r"
  shows "acc_password (snd (spec_calls ops A)) k = Some pw \<and>
    (\<exists>r'. acc_role (snd (spec_calls ops A)) k = Some r' \<and>
       (is_returning_visitor (basic_info r') \<longleftrightarrow>
          is_returning_visitor (basic_info r) \<or> logged_in_before k pw ops) \<and>
       player_id (basic_info r') = player_id (basic_info r) \<and>
       username (basic_info r') = username (basic_info r))"
  using assms
proof (induction ops arbitrary: A r)
  case (Cons op ops)
  have step: "acc_password (snd (spec_call op A)) k = Some pw \<and>
    (\<exists>r'. acc_role (snd (spec_call op A)) k = Some r' \<and>
       (is_returning_visitor (basic_info r') \<longleftrightarrow>
          is_returning_visitor (basic_info r) \<or> logged_in_before k pw [op]) \<and>
       player_id (basic_info r') = player_id (basic_info r) \<and>
       username (basic_info r') = username (basic_info r))"
    using Cons.prems
    by (cases op) (auto simp: spec_call_def register_spec_def login_spec_def Let_def logged_in_before_def
        split: option.splits)
  then obtain r' where r': "acc_role (snd (spec_call op A)) k = Some r'"
       "is_returning_visitor (basic_info r') \<longleftrightarrow>
          is_returning_visitor (basic_info r) \<or> logged_in_before k pw [op]"
       "player_id (basic_info r') = player_id (basic_info r)" "username (basic_info r') = username (basic_info r)"
    by blast
  have "logged_in_before k pw (op # ops) \<longleftrightarrow> logged_in_before k pw [op] \<or> logged_in_before k pw ops"
    by (auto simp: logged_in_before_def)
  with Cons.IH [OF conjunct1 [OF step] Cons.prems(2) r'(1)] r' show ?case
    by (simp add: case_prod_beta Let_def)
qed (simp add: logged_in_before_def)

lemma register_login:
  assumes "acc_password A (c_str (rq_account q)) = None" and "c_str (lq_account l) = c_str (rq_account q)"
  shows "fst (spec_calls (Register q # ops @ [Login l]) A) =
     MRegisterRsp (register_rsp q REGISTER_SUCCEED) # fst (spec_calls ops (snd (register_spec q A))) @
     [MLoginRsp (if lq_password l = c_str (rq_password q)
        then login_rsp l LOGIN_SUCCEED (logged_in_before (c_str (rq_account q)) (c_str (rq_password q)) ops)
        else login_rsp l LOGIN_PASSWORD_WRONG False)]"
proof -
  let ?A = "snd (register_spec q A)" and ?k = "c_str (rq_account q)" and ?pw = "c_str (rq_password q)"
  have A: "acc_password ?A ?k = Some ?pw" "fst (register_spec q A) = register_rsp q REGISTER_SUCCEED"
      "acc_role ?A ?k = Some (new_role (word_of_int (acc_gid A + 1)) (rq_account q))"
    using assms(1) by (simp_all add: register_spec_def Let_def)
  have "fst (spec_calls [Login l] (snd (spec_calls ops ?A))) =
     [MLoginRsp (if lq_password l = ?pw then login_rsp l LOGIN_SUCCEED (logged_in_before ?k ?pw ops)
        else login_rsp l LOGIN_PASSWORD_WRONG False)]"
    using spec_calls_account [OF A(1) _ A(3), of ops] assms(2)
    by (auto simp: spec_call_def login_spec_def Let_def case_prod_beta split: option.splits)
  then show ?thesis
    using A(2) by (simp add: case_prod_beta Let_def spec_calls_fst_append spec_call_def)
qed

text \<open>Player ids lie between one and the counter, and no two accounts share one.\<close>

definition ids_ok :: "accounts \<Rightarrow> bool" where
  "ids_ok A \<longleftrightarrow>
     (\<forall>k r. acc_role A k = Some r \<longrightarrow> 0 < sint (player_id (basic_info r)) \<and> sint (player_id (basic_info r)) \<le> acc_gid A) \<and>
     (\<forall>k k' r r'. acc_role A k = Some r \<longrightarrow> acc_role A k' = Some r' \<longrightarrow>
        player_id (basic_info r) = player_id (basic_info r') \<longrightarrow> k = k')"

lemma login_ids_ok: "ids_ok A \<Longrightarrow> ids_ok (snd (login_spec l A))"
  by (auto simp: login_spec_def Let_def ids_ok_def split: option.splits)

lemma register_ids_ok:
  assumes "ids_ok A" and "0 \<le> acc_gid A" and "acc_gid A + 1 < 2 ^ 31"
  shows "ids_ok (snd (register_spec q A))"
proof -
  have "sint (word_of_int (acc_gid A) + 1 :: i32) = acc_gid A + 1"
    using sint_word_of_int_i32 [of "acc_gid A + 1"] assms(2,3) by simp
  then show ?thesis
    using assms unfolding ids_ok_def
    by (auto simp: register_spec_def Let_def split: option.splits) fastforce+
qed

lemma calls_ids_ok:
  "ids_ok A \<Longrightarrow> 0 \<le> acc_gid A \<Longrightarrow> acc_gid A + int (length ops) < 2 ^ 31 \<Longrightarrow> ids_ok (snd (spec_calls ops A))"
proof (induction ops arbitrary: A)
  case (Cons op ops)
  have "ids_ok (snd (spec_call op A))"
    using Cons.prems register_ids_ok login_ids_ok
    by (cases op) (simp_all add: spec_call_def)
  then show ?case
    using Cons acc_gid_step [of A op] by (simp add: case_prod_beta Let_def)
qed simp

context server_env
begin

lemma register_then_login:
  assumes rel: "account_rel up store P S A" and ok: "accounts_ok wire_ok A"
    and ops: "list_all (op_ok wire_ok) ops" "name_ok wire_ok (rq_account q)"
    and gid: "acc_gid A + int (length ops) + 2 < 2 ^ 63"
    and new: "acc_password A (c_str (rq_account q)) = None" and same: "c_str (lq_account l) = c_str (rq_account q)"
  shows "\<exists>rsps S'. account_calls R P role (Register q # ops @ [Login l]) S =
     (Inr (MRegisterRsp (register_rsp q REGISTER_SUCCEED) # rsps @
        [MLoginRsp (if lq_password l = c_str (rq_password q)
           then login_rsp l LOGIN_SUCCEED (logged_in_before (c_str (rq_account q)) (c_str (rq_password q)) ops)
           else login_rsp l LOGIN_PASSWORD_WRONG False)]), S')"
  using account_calls_refine [OF rel ok, of "Register q # ops @ [Login l]" role] ops gid
  unfolding register_login [OF new same] by auto

lemma calls_ids:
  assumes rel: "account_rel up store P S A" and ok: "accounts_ok wire_ok A"
    and ops: "list_all (op_ok wire_ok) ops" and ids: "ids_ok A" and gid: "acc_gid A + int (length ops) < 2 ^ 31"
  shows "\<exists>rsps S'. account_calls R P role ops S = (Inr rsps, S') \<and>
     (\<forall>k k' r r'. role_view store P S' k = Some r \<longrightarrow> role_view store P S' k' = Some r' \<longrightarrow>
        player_id (basic_info r) = player_id (basic_info r') \<longrightarrow> k = k')"
proof -
  have "0 \<le> acc_gid A" using rel by (simp add: account_rel_def)
  then have "ids_ok (snd (spec_calls ops A))" using calls_ids_ok [OF ids _ gid] by simp
  moreover obtain S' where "account_calls R P role ops S = (Inr (fst (spec_calls ops A)), S')"
      "account_rel up store P S' (snd (spec_calls ops A))"
    using account_calls_refine [OF rel ok ops, of role] gid by auto
  ultimately show ?thesis by (auto simp: account_rel_def ids_ok_def)
qed

end

section \<open>Properties\<close>

text \<open>
  C6: the register and login services implement the account database. On a server that is
  up, for every sequence of requests the responses are those of the abstract operations,
  on every branch, and the database holds the abstract accounts afterwards; the table of
  logged-in roles is left alone.
\<close>

theorem account_services_refine_spec:
  assumes "server_env R up store P wire_ok" and "account_rel up store P S A" and "accounts_ok wire_ok A"
    and "list_all (op_ok wire_ok) ops" and "acc_gid A + int (length ops) < 2 ^ 63"
  shows "\<exists>S'. account_calls R P role ops S = (Inr (fst (spec_calls ops A)), S') \<and>
    account_rel up store P S' (snd (spec_calls ops A)) \<and> roles S' = roles S"
  using server_env.account_calls_refine [OF assms] .

text \<open>
  C8: a registered account stays usable. After an account is registered, and whatever
  register and login requests follow, a login with the same name succeeds exactly with the
  password of the registration, as far as it was stored as a C string, and any other
  password is reported as wrong; the response says that the visitor returns exactly when a
  login of this account succeeded in between.
\<close>

theorem registered_account_can_login:
  assumes "server_env R up store P wire_ok" and "account_rel up store P S A" and "accounts_ok wire_ok A"
    and "list_all (op_ok wire_ok) ops" and "name_ok wire_ok (rq_account q)"
    and "acc_gid A + int (length ops) + 2 < 2 ^ 63"
    and "acc_password A (c_str (rq_account q)) = None" and "c_str (lq_account l) = c_str (rq_account q)"
  shows "\<exists>rsps S'. account_calls R P role (Register q # ops @ [Login l]) S =
     (Inr (MRegisterRsp (register_rsp q REGISTER_SUCCEED) # rsps @
        [MLoginRsp (if lq_password l = c_str (rq_password q)
           then login_rsp l LOGIN_SUCCEED (logged_in_before (c_str (rq_account q)) (c_str (rq_password q)) ops)
           else login_rsp l LOGIN_PASSWORD_WRONG False)]), S')"
  using server_env.register_then_login [OF assms] .

text \<open>
  Player ids are unique. As long as the counter fits an \<open>int32\<close>, no sequence of
  register and login requests gives two account names the same player id.
\<close>

lemma player_ids_are_unique:
  assumes "server_env R up store P wire_ok" and "account_rel up store P S A" and "accounts_ok wire_ok A"
    and "list_all (op_ok wire_ok) ops" and "ids_ok A" and "acc_gid A + int (length ops) < 2 ^ 31"
  shows "\<exists>rsps S'. account_calls R P role ops S = (Inr rsps, S') \<and>
     (\<forall>k k' r r'. role_view store P S' k = Some r \<longrightarrow> role_view store P S' k' = Some r' \<longrightarrow>
        player_id (basic_info r) = player_id (basic_info r') \<longrightarrow> k = k')"
  using server_env.calls_ids [OF assms] .

section \<open>Witnesses\<close>

text \<open>Two accounts and a login on an empty in-memory database.\<close>

definition accounts0 :: accounts where
  "accounts0 = \<lparr>acc_password = Map.empty, acc_role = Map.empty, acc_gid = 0\<rparr>"

definition register_bob :: RegisterReq where
  "register_bob = \<lparr>rq_rpcid = 1, rq_account = ''bob'', rq_password = ''pw''\<rparr>"

definition register_eve :: RegisterReq where
  "register_eve = \<lparr>rq_rpcid = 2, rq_account = ''eve'', rq_password = ''x''\<rparr>"

definition login_bob :: LoginReq where
  "login_bob = \<lparr>lq_rpcid = 3, lq_account = ''bob'', lq_password = ''pw''\<rparr>"

lemmas account_examples = accounts0_def register_bob_def register_eve_def login_bob_def

lemma account_rel0: "account_rel (\<lambda>_. True) (\<lambda>m. m) protobuf_ref server0 accounts0"
  by (auto simp: account_rel_def accounts0_def role_view_def counts_def db_def server0_def db_connected_def)

lemma name_ok_ref [simp]: "length u < 2 ^ 32 \<Longrightarrow> name_ok wire_ok_ref u"
  by (simp add: name_ok_def)

lemma accounts_ok0 [simp]: "accounts_ok wire_ok_ref accounts0"
  by (simp add: accounts_ok_def accounts0_def)

theorem account_services_refine_spec_witness:
  "\<exists>S'. account_calls redis_ref protobuf_ref () [Register register_bob, Register register_bob, Login login_bob] server0
     = (Inr [MRegisterRsp (register_rsp register_bob REGISTER_SUCCEED),
             MRegisterRsp (register_rsp register_bob ACCOUNT_ALREADY_EXIST),
             MLoginRsp (login_rsp login_bob LOGIN_SUCCEED False)], S')"
proof -
  have "fst (spec_calls [Register register_bob, Register register_bob, Login login_bob] accounts0)
     = [MRegisterRsp (register_rsp register_bob REGISTER_SUCCEED),
        MRegisterRsp (register_rsp register_bob ACCOUNT_ALREADY_EXIST),
        MLoginRsp (login_rsp login_bob LOGIN_SUCCEED False)]"
    by (simp add: account_examples spec_call_def register_spec_def login_spec_def c_str_def Let_def)
  moreover have "list_all (op_ok wire_ok_ref) [Register register_bob, Register register_bob, Login login_bob]"
      "acc_gid accounts0 + int (length [Register register_bob, Register register_bob, Login login_bob]) < 2 ^ 63"
    by (simp_all add: account_examples)
  ultimately show ?thesis
    using account_services_refine_spec [OF env_ref_laws account_rel0 accounts_ok0,
        of "[Register register_bob, Register register_bob, Login login_bob]" "()"] by metis
qed

theorem registered_account_can_login_witness:
  "\<exists>rsps S'. account_calls redis_ref protobuf_ref ()
      [Register register_bob, Register register_eve, Login login_bob, Login login_bob] server0
     = (Inr (MRegisterRsp (register_rsp register_bob REGISTER_SUCCEED) # rsps @
          [MLoginRsp (login_rsp login_bob LOGIN_SUCCEED True)]), S')"
  using registered_account_can_login [OF env_ref_laws account_rel0 accounts_ok0,
      of "[Register register_eve, Login login_bob]" register_bob login_bob "()"]
  by (simp add: account_examples c_str_def logged_in_before_def)

end
