(* ===== verification/Handlers.thy ===== *)
theory Handlers
  imports Frame_Codec Opcode_Handler Command_Registry Login_Services
begin

text \<open>
  The handlers of the pipeline above the frame codec (\<open>libsrc/handlers\<close>): message
  serialisation, role injection and command distribution. A handler is a function of its
  context: the record \<open>Context\<close> holds the continuations \<open>fireRead\<close>, \<open>fireWrite\<close> and
  the like that wangle gives it, and the address of the peer. Logging is left out.
\<close>

section \<open>The state of a connection\<close>

text \<open>
  The server state the connection shares with the others, what the pipeline handed to
  wangle at its two ends, in order, and the continuations that wait for the future of an
  asynchronous service, each with the id its response is sent under.
\<close>

datatype event =
    Wrote iobuf
  | EndReadEOF
  | EndReadException string
  | EndTransportInactive
  | EndWriteException string
  | EndClose

record ('addr, 'c, 'f) world =
  shared :: "('addr, 'c) server"
  trace :: "event list"
  pending :: "('f \<times> u32) list"

type_synonym CmdMessagePair = "u32 \<times> Message"
type_synonym ServiceTuple = "u32 \<times> role_ptr \<times> Message"

record ('addr, 's, 'r, 'w) Context =
  getPeerAddress :: 'addr
  fireRead :: "'r \<Rightarrow> ('s, unit) action"
  fireWrite :: "'w \<Rightarrow> ('s, unit) action"
  fireReadEOF :: "('s, unit) action"
  fireReadException :: "string \<Rightarrow> ('s, unit) action"
  fireTransportInactive :: "('s, unit) action"
  fireWriteException :: "string \<Rightarrow> ('s, unit) action"
  fireClose :: "('s, unit) action"

definition on_shared :: "(('addr, 'c) server, 'a) action \<Rightarrow> (('addr, 'c, 'f) world, 'a) action" where
  "on_shared m w = (case m (shared w) of (r, S) \<Rightarrow> (r, w\<lparr>shared := S\<rparr>))"

definition log_event :: "event \<Rightarrow> (('addr, 'c, 'f) world, unit) action" where
  "log_event e w = (Inr (), w\<lparr>trace := trace w @ [e]\<rparr>)"

section \<open>The codec handlers in a pipeline\<close>

definition LengthFieldPrepender_write ::
  "folly \<Rightarrow> LengthFieldPrepender \<Rightarrow> ('addr, 's, iobuf, iobuf) Context \<Rightarrow> iobuf \<Rightarrow> ('s, unit) action" where
  "LengthFieldPrepender_write F p ctx buf = bind_act (lift_res (prepender_write F p buf)) (fireWrite ctx)"

definition OpcodeInjectHandler_read ::
  "folly \<Rightarrow> ('addr, 's, CmdBufPair, iobuf) Context \<Rightarrow> iobuf \<Rightarrow> ('s, unit) action" where
  "OpcodeInjectHandler_read F ctx msg = bind_act (lift_res (opcode_read F msg)) (fireRead ctx)"

definition OpcodeInjectHandler_write ::
  "folly \<Rightarrow> ('addr, 's, CmdBufPair, iobuf) Context \<Rightarrow> CmdBufPair \<Rightarrow> ('s, unit) action" where
  "OpcodeInjectHandler_write F ctx msg = bind_act (lift_res (opcode_write F msg)) (fireWrite ctx)"

section \<open>CmdMessageSerializeHandler\<close>

text \<open>The handler object holds a reference to the reflection manager.\<close>

record CmdMessageSerializeHandler =
  h_reflection_manager :: PbReflectionManager

definition new_CmdMessageSerializeHandler :: "PbReflectionManager \<Rightarrow> CmdMessageSerializeHandler" where
  "new_CmdMessageSerializeHandler reflectionManager = \<lparr>h_reflection_manager = reflectionManager\<rparr>"

text \<open>\<open>data()\<close> and \<open>length()\<close> of the chain are those of its first buffer.\<close>

definition CmdMessageSerializeHandler_read ::
  "folly \<Rightarrow> protobuf \<Rightarrow> CmdMessageSerializeHandler \<Rightarrow> ('addr, 's, CmdMessagePair, CmdBufPair) Context
     \<Rightarrow> CmdBufPair \<Rightarrow> ('s, unit) action" where
  "CmdMessageSerializeHandler_read F P h ctx msg =
     (let cmd_id = fst msg; M = h_reflection_manager h in
      if \<not> IsValidCmd cmd_id M then ret_act ()
      else bind_act (lift_res (GetRequestReflection cmd_id M)) (\<lambda>t.
        case ParseFromArray P t (io_data F (snd msg)) of (ok, pb) \<Rightarrow>
          if \<not> ok then fireReadEOF ctx else fireRead ctx (cmd_id, pb)))"

text \<open>The other callbacks log and hand over to the base class, which forwards the event.\<close>

definition CmdMessageSerializeHandler_readEOF :: "('addr, 's, 'r, 'w) Context \<Rightarrow> ('s, unit) action" where
  "CmdMessageSerializeHandler_readEOF ctx = fireReadEOF ctx"

definition CmdMessageSerializeHandler_readException :: "('addr, 's, 'r, 'w) Context \<Rightarrow> string \<Rightarrow> ('s, unit) action" where
  "CmdMessageSerializeHandler_readException ctx e = fireReadException ctx e"

definition CmdMessageSerializeHandler_writeException :: "('addr, 's, 'r, 'w) Context \<Rightarrow> string \<Rightarrow> ('s, unit) action" where
  "CmdMessageSerializeHandler_writeException ctx e = fireWriteException ctx e"

definition CmdMessageSerializeHandler_close :: "('addr, 's, 'r, 'w) Context \<Rightarrow> ('s, unit) action" where
  "CmdMessageSerializeHandler_close ctx = fireClose ctx"

text \<open>
  \<open>SerializeToArray\<close> fills the writable bytes that \<open>append\<close> makes part of the buffer.
\<close>

definition CmdMessageSerializeHandler_write ::
  "folly \<Rightarrow> protobuf \<Rightarrow> ('addr, 's, CmdMessagePair, CmdBufPair) Context \<Rightarrow> CmdMessagePair \<Rightarrow> ('s, unit) action" where
  "CmdMessageSerializeHandler_write F P ctx msg =
     (let bytes = SerializeToString P (snd msg);
          buffer = (io_append F (length bytes) (io_create F (length bytes)))[0 := bytes]
      in fireWrite ctx (fst msg, buffer))"

section \<open>RoleInjectHandler\<close>

text \<open>
  A login pulls the role and binds it to the peer before the service checks the password.
  A failed \<open>dynamic_pointer_cast\<close> gives a null pointer that is dereferenced at once.
\<close>

definition RoleInjectHandler_read ::
  "'c hiredis \<Rightarrow> protobuf \<Rightarrow> ('addr, ('addr, 'c, 'f) world, ServiceTuple, CmdMessagePair) Context
     \<Rightarrow> CmdMessagePair \<Rightarrow> (('addr, 'c, 'f) world, unit) action" where
  "RoleInjectHandler_read R P ctx msg =
     (let addr = getPeerAddress ctx; cmd_id = fst msg in
      if cmd_id = CMD_LOGIN then
        (case as_LoginReq (snd msg) of
           None \<Rightarrow> raise_act NullDeref
         | Some req \<Rightarrow>
             bind_act (on_shared (pull_and_add R P (lq_account req) addr)) (\<lambda>_.
             bind_act (on_shared (MinigameFakeLoginService R P empty_role req)) (\<lambda>rsp.
               fireWrite ctx (cmd_id, MLoginRsp rsp))))
      else if cmd_id = CMD_REGISTER then
        (case as_RegisterReq (snd msg) of
           None \<Rightarrow> raise_act NullDeref
         | Some req \<Rightarrow>
             bind_act (on_shared (MinigameRegisterService R P empty_role req)) (\<lambda>rsp.
               fireWrite ctx (cmd_id, MRegisterRsp rsp)))
      else
        bind_act (on_shared (\<lambda>S. (Inr (GetRole addr S), S))) (\<lambda>role.
        bind_act (case role of Some p \<Rightarrow> ret_act p | None \<Rightarrow> on_shared (make_shared empty_role)) (\<lambda>p.
          fireRead ctx (cmd_id, p, snd msg))))"

definition RoleInjectHandler_write ::
  "('addr, 's, ServiceTuple, CmdMessagePair) Context \<Rightarrow> CmdMessagePair \<Rightarrow> ('s, unit) action" where
  "RoleInjectHandler_write ctx msg = fireWrite ctx msg"

text \<open>The role of the peer stays in the table when the connection goes away.\<close>

definition RoleInjectHandler_transportInactive :: "('addr, 's, 'r, 'w) Context \<Rightarrow> ('s, unit) action" where
  "RoleInjectHandler_transportInactive ctx = fireTransportInactive ctx"

section \<open>CommandDistributor\<close>

record ('addr, 'c, 'f) CommandDistributor =
  h_command_manager :: "(role_ptr, ('addr, 'c) server, 'f) CommandManager"

definition new_CommandDistributor ::
  "(role_ptr, ('addr, 'c) server, 'f) CommandManager \<Rightarrow> ('addr, 'c, 'f) CommandDistributor" where
  "new_CommandDistributor commandManager = \<lparr>h_command_manager = commandManager\<rparr>"

text \<open>
  \<open>HandlerAdapter::write\<close> forwards to \<open>fireWrite\<close>. A continuation that throws ends the future
  \<open>thenValue\<close> returned, which nobody keeps, so the exception is lost; an abort is not.
\<close>

fun is_exception :: "error \<Rightarrow> bool" where
  "is_exception (RuntimeError _) = True"
| "is_exception OutOfRange = True"
| "is_exception Underflow = True"
| "is_exception BadCast = True"
| "is_exception _ = False"

definition in_future :: "('s, unit) action \<Rightarrow> ('s, unit) action" where
  "in_future m s = (case m s of
     (Inl e, s') \<Rightarrow> (if is_exception e then Inr () else Inl e, s')
   | (Inr x, s') \<Rightarrow> (Inr x, s'))"

text \<open>
  The response of an asynchronous service is sent within \<open>read\<close> when its future is ready
  already; otherwise the continuation waits in \<open>pending\<close> until \<open>future_ready\<close> runs it, with
  the response, or with none when the future ended with an exception.
\<close>

definition CommandDistributor_read ::
  "('addr, 'c, 'f) CommandDistributor
     \<Rightarrow> ('addr, ('addr, 'c, 'f) world, ServiceTuple, CmdMessagePair) Context
     \<Rightarrow> ServiceTuple \<Rightarrow> (('addr, 'c, 'f) world, unit) action" where
  "CommandDistributor_read h ctx msg =
     (case msg of (cmd_id, role_ptr, request) \<Rightarrow> let C = h_command_manager h in
        if \<not> CommandManager_IsValidCmd cmd_id C then raise_act AssertFail
        else if IsSyncCmd cmd_id C then
          if \<not> CommandManager_IsValidCmd cmd_id C then ret_act ()
          else bind_act (on_shared (RunSyncService C cmd_id role_ptr request)) (\<lambda>response.
            fireWrite ctx (cmd_id, response))
        else if IsAsyncCmd cmd_id C then
          bind_act (on_shared (RunAsyncService C cmd_id role_ptr request)) (\<lambda>rsp_future.
            case rsp_future of
              Ready response \<Rightarrow> in_future (fireWrite ctx (cmd_id, response))
            | Failed \<Rightarrow> ret_act ()
            | Pending f \<Rightarrow> (\<lambda>w. (Inr (), w\<lparr>pending := pending w @ [(f, cmd_id)]\<rparr>)))
        else ret_act ())"

definition future_ready ::
  "('addr, ('addr, 'c, 'f) world, ServiceTuple, CmdMessagePair) Context \<Rightarrow> nat \<Rightarrow> Message option
     \<Rightarrow> (('addr, 'c, 'f) world, unit) action" where
  "future_ready ctx i response w =
     (if i < length (pending w)
      then (case response of
          Some rsp \<Rightarrow> in_future (fireWrite ctx (snd (pending w ! i), rsp))
        | None \<Rightarrow> ret_act ()) (w\<lparr>pending := take i (pending w) @ drop (Suc i) (pending w)\<rparr>)
      else (Inr (), w))"

section \<open>Lemmas\<close>

lemma handler_fields [simp]:
  "h_reflection_manager (new_CmdMessageSerializeHandler M) = M" "h_command_manager (new_CommandDistributor C) = C"
  by (simp_all add: new_CmdMessageSerializeHandler_def new_CommandDistributor_def)

lemma on_shared_eq [simp]: "m (shared w) = (r, S) \<Longrightarrow> on_shared m w = (r, w\<lparr>shared := S\<rparr>)"
  by (simp add: on_shared_def)

lemma on_shared_frame [simp]:
  "trace (snd (on_shared m w)) = trace w" "pending (snd (on_shared m w)) = pending w"
  "shared (snd (on_shared m w)) = snd (m (shared w))" "fst (on_shared m w) = fst (m (shared w))"
  by (simp_all add: on_shared_def split: prod.splits)

lemma keeps_on_shared [intro!]: "keeps I m \<Longrightarrow> keeps (\<lambda>w. I (shared w)) (on_shared m)"
  by (simp add: keeps_def)

lemma in_future_snd [simp]: "snd (in_future m s) = snd (m s)"
  by (simp add: in_future_def split: prod.splits sum.splits)

lemma keeps_in_future [intro!]: "keeps I m \<Longrightarrow> keeps I (in_future m)"
  by (simp add: keeps_def)

lemma in_future_Inr [simp]: "m s = (Inr x, s') \<Longrightarrow> in_future m s = (Inr x, s')"
  by (simp add: in_future_def)

lemma in_future_thrown: "m s = (Inl e, s') \<Longrightarrow> is_exception e \<Longrightarrow> in_future m s = (Inr (), s')"
  by (simp add: in_future_def)

context folly_io
begin

lemma serialize_write_eq:
  "CmdMessageSerializeHandler_write F P ctx (cmd_id, m) = fireWrite ctx (cmd_id, [SerializeToString P m])"
proof -
  obtain s where "io_append F (length (SerializeToString P m)) (io_create F (length (SerializeToString P m))) = [s]"
    using create_append by blast
  then show ?thesis by (simp add: CmdMessageSerializeHandler_write_def)
qed

end

end
