(* ===== verification/Task_Manager.thy ===== *)
theory Task_Manager
  imports Tables Server_State
begin

text \<open>
  \<open>TaskDataManager\<close> (\<open>minigame_server/data_manager\<close>): the task progress of the players by
  their id, cached in an unordered map and kept in the database under \<open>__taskinfo_<id>\<close>.
\<close>

section \<open>Operations\<close>

text \<open>
  \<open>PullTaskInfoFromDB\<close>: any reply but nil is parsed, and the result of the parse is not
  looked at; an entry that is already cached is kept and the call returns \<open>false\<close>.
\<close>

definition PullTaskInfoFromDB ::
  "'c hiredis \<Rightarrow> protobuf \<Rightarrow> i32 \<Rightarrow> TaskDataManager \<Rightarrow> (('addr, 'c) server, bool \<times> TaskDataManager) action" where
  "PullTaskInfoFromDB R P gid T =
     bind_act (redis_cmd R ''get __taskinfo_%s'' [ArgS (c_str (to_string (sint gid)))]) (\<lambda>reply.
       if rtype reply = REDIS_REPLY_NIL then ret_act (False, T)
       else (case as_DBTaskInfo (snd (ParseFromArray P TDBTaskInfo (str reply))) of
           None \<Rightarrow> raise_act BadCast
         | Some task_info \<Rightarrow>
             if task_infos T gid \<noteq> None then ret_act (False, T)
             else ret_act (True, T\<lparr>task_infos := (task_infos T)(gid \<mapsto> task_info)\<rparr>)))"

definition PushTaskInfoToDB ::
  "'c hiredis \<Rightarrow> protobuf \<Rightarrow> i32 \<Rightarrow> TaskDataManager \<Rightarrow> (('addr, 'c) server, bool) action" where
  "PushTaskInfoToDB R P gid T =
     (case task_infos T gid of
        None \<Rightarrow> ret_act False
      | Some t \<Rightarrow>
          bind_act (redis_cmd R ''set __taskinfo_%s %b''
              [ArgS (c_str (to_string (sint gid))), ArgB (SerializeToString P (MDBTaskInfo t))]) (\<lambda>reply.
            if rtype reply \<noteq> REDIS_REPLY_STATUS then ret_act False else ret_act True))"

text \<open>\<open>GetTaskInfo\<close> is \<open>operator[]\<close>: a missing entry is created empty.\<close>

definition GetTaskInfo :: "i32 \<Rightarrow> TaskDataManager \<Rightarrow> DBTaskInfo \<times> TaskDataManager" where
  "GetTaskInfo gid T =
     (case task_infos T gid of
        Some t \<Rightarrow> (t, T)
      | None \<Rightarrow> (empty_DBTaskInfo, T\<lparr>task_infos := (task_infos T)(gid \<mapsto> empty_DBTaskInfo)\<rparr>))"

text \<open>Assignment through the reference \<open>GetTaskInfo\<close> returned.\<close>

definition SetTaskInfo :: "i32 \<Rightarrow> DBTaskInfo \<Rightarrow> TaskDataManager \<Rightarrow> TaskDataManager" where
  "SetTaskInfo gid t T = T\<lparr>task_infos := (task_infos T)(gid \<mapsto> t)\<rparr>"

definition RemoveTaskInfo :: "i32 \<Rightarrow> TaskDataManager \<Rightarrow> bool \<times> TaskDataManager" where
  "RemoveTaskInfo gid T = (task_infos T gid \<noteq> None, T\<lparr>task_infos := (task_infos T)(gid := None)\<rparr>)"

definition TaskInfoExist :: "i32 \<Rightarrow> TaskDataManager \<Rightarrow> bool" where
  "TaskInfoExist gid T \<longleftrightarrow> task_infos T gid \<noteq> None"

context server_inv
begin

lemma keeps_PullTask [intro!]: "keeps I (PullTaskInfoFromDB R P gid T)"
  unfolding PullTaskInfoFromDB_def
  by (auto intro!: keeps_bind split: option.splits)

lemma keeps_PushTask [intro!]: "keeps I (PushTaskInfoToDB R P gid T)"
  unfolding PushTaskInfoToDB_def
  by (auto intro!: keeps_bind split: option.splits)

end

section \<open>The task progress in the database\<close>

text \<open>What an entry says, with the order of the map field forgotten.\<close>

type_synonym progress = "(i32 \<Rightarrow> ProgressState option) \<times> i32 \<times> i32"

definition progress_of :: "DBTaskInfo \<Rightarrow> progress" where
  "progress_of t = (map_of (tasks t), db_position_x t, db_position_y t)"

lemma same_tasks_progress: "same_tasks s t \<longleftrightarrow> progress_of s = progress_of t"
  by (auto simp: same_tasks_def progress_of_def)

definition task_key :: "i32 \<Rightarrow> string" where
  "task_key gid = ''__taskinfo_'' @ to_string (sint gid)"

definition task_view :: "('c \<Rightarrow> string \<Rightarrow> string option) \<Rightarrow> protobuf \<Rightarrow> ('addr, 'c) server \<Rightarrow> i32 \<Rightarrow> progress option" where
  "task_view store P S gid =
     (case db store S (task_key gid) of
        None \<Rightarrow> None
      | Some s \<Rightarrow> map_option progress_of (as_DBTaskInfo (snd (ParseFromArray P TDBTaskInfo s))))"

text \<open>Store one entry, and fetch one, through a manager that holds nothing else.\<close>

definition push_task :: "'c hiredis \<Rightarrow> protobuf \<Rightarrow> i32 \<Rightarrow> DBTaskInfo \<Rightarrow> (('addr, 'c) server, bool) action" where
  "push_task R P gid t = PushTaskInfoToDB R P gid (SetTaskInfo gid t new_TaskDataManager)"

definition pull_task :: "'c hiredis \<Rightarrow> protobuf \<Rightarrow> i32 \<Rightarrow> (('addr, 'c) server, DBTaskInfo option) action" where
  "pull_task R P gid = bind_act (PullTaskInfoFromDB R P gid new_TaskDataManager) (\<lambda>(ok, T).
     ret_act (task_infos T gid))"

definition task_storable :: "(Message \<Rightarrow> bool) \<Rightarrow> i32 \<Rightarrow> DBTaskInfo \<Rightarrow> bool" where
  "task_storable wire_ok gid t \<longleftrightarrow> wire_ok (MDBTaskInfo t) \<and> distinct (map fst (tasks t))"

section \<open>Lemmas\<close>

lemma task_key_inject [simp]: "task_key a = task_key b \<longleftrightarrow> a = b"
  by (auto simp: task_key_def intro: signed_word_eqI)

context server_env
begin

lemma PullTask_eq:
  assumes "db_connected up S"
  shows "\<exists>S1. db_connected up S1 \<and> db store S1 = db store S \<and> same_roles S S1 \<and>
    (case db store S (task_key gid) of
       None \<Rightarrow> PullTaskInfoFromDB R P gid T S = (Inr (False, T), S1)
     | Some s \<Rightarrow> \<exists>t. snd (ParseFromArray P TDBTaskInfo s) = MDBTaskInfo t \<and> distinct (map fst (tasks t)) \<and>
         PullTaskInfoFromDB R P gid T S =
           (Inr (if task_infos T gid \<noteq> None then (False, T)
                 else (True, T\<lparr>task_infos := (task_infos T)(gid \<mapsto> t)\<rparr>)), S1))"
proof -
  obtain S1 where S1: "redis_cmd R ''get __taskinfo_%s'' [ArgS (c_str (to_string (sint gid)))] S
      = (Inr (reply_get (db store S (task_key gid))), S1)"
      "db_connected up S1" "db store S1 = db store S" "same_roles S S1"
    using redis_get [OF assms, of "''__taskinfo_''" "c_str (to_string (sint gid))"]
    by (auto simp: task_key_def)
  show ?thesis
  proof (cases "db store S (task_key gid)")
    case None
    with S1 show ?thesis
      by (intro exI [of _ S1]) (simp add: PullTaskInfoFromDB_def replies)
  next
    case (Some s)
    obtain t where "snd (ParseFromArray P TDBTaskInfo s) = MDBTaskInfo t" "distinct (map fst (tasks t))"
      using parse_DBTaskInfo by blast
    with Some S1 show ?thesis
      by (intro exI [of _ S1]) (simp add: PullTaskInfoFromDB_def replies as_DBTaskInfo_def)
  qed
qed

lemma PushTask_eq:
  assumes "db_connected up S" and "task_infos T gid = Some t"
  shows "\<exists>S1. PushTaskInfoToDB R P gid T S = (Inr True, S1) \<and> db_connected up S1 \<and> same_roles S S1 \<and>
    db store S1 = (db store S)(task_key gid \<mapsto> SerializeToString P (MDBTaskInfo t))"
proof -
  obtain S1 where "redis_cmd R ''set __taskinfo_%s %b'' [ArgS (c_str (to_string (sint gid))),
        ArgB (SerializeToString P (MDBTaskInfo t))] S = (Inr reply_status, S1)"
      "db_connected up S1" "same_roles S S1"
      "db store S1 = (db store S)(task_key gid \<mapsto> SerializeToString P (MDBTaskInfo t))"
    using redis_set_b [OF assms(1), of "''__taskinfo_''" "to_string (sint gid)"]
    by (fastforce simp: task_key_def)
  with assms(2) show ?thesis
    by (intro exI [of _ S1]) (simp add: PushTaskInfoToDB_def replies)
qed

lemma task_view_pushed:
  assumes "task_storable wire_ok gid t"
    and "db store S' = (db store S)(task_key gid \<mapsto> SerializeToString P (MDBTaskInfo t))"
  shows "task_view store P S' = (task_view store P S)(gid \<mapsto> progress_of t)"
proof -
  obtain t' where "ParseFromArray P TDBTaskInfo (SerializeToString P (MDBTaskInfo t)) = (True, MDBTaskInfo t')"
      "progress_of t' = progress_of t"
    using roundtrip_tasks [of t] assms(1) by (auto simp: task_storable_def same_tasks_progress)
  then show ?thesis
    by (auto simp: task_view_def fun_eq_iff assms(2) as_DBTaskInfo_def)
qed

lemma pull_task_eq:
  assumes "db_connected up S"
  shows "\<exists>r S'. pull_task R P gid S = (Inr r, S') \<and> map_option progress_of r = task_view store P S gid \<and>
    db_connected up S' \<and> db store S' = db store S"
  using PullTask_eq [OF assms, of gid new_TaskDataManager]
  by (auto simp: pull_task_def task_view_def new_TaskDataManager_def as_DBTaskInfo_def split: option.splits)

end

sublocale server_env \<subseteq> task_table: persistent_table "db_connected up" "task_view store P" progress_of
  "\<lambda>_. True" "task_storable wire_ok" "push_task R P" "pull_task R P"
proof
  fix S :: "('x, 'c) server" and gid t
  show "\<exists>S'. push_task R P gid t S = (Inr True, S') \<and> db_connected up S' \<and>
      task_view store P S' = (task_view store P S)(gid \<mapsto> progress_of t)"
    if c: "db_connected up S" and s: "task_storable wire_ok gid t"
    using PushTask_eq [OF c, of "SetTaskInfo gid t new_TaskDataManager" gid t] task_view_pushed [OF s]
    by (auto simp: push_task_def SetTaskInfo_def)
  show "\<exists>q S'. pull_task R P gid S = (Inr q, S') \<and> map_option progress_of q = task_view store P S gid \<and>
      db_connected up S' \<and> task_view store P S' = task_view store P S"
    if c: "db_connected up S"
    using pull_task_eq [OF c, of gid] by (auto simp: task_view_def [abs_def])
qed simp

section \<open>Properties\<close>

context server_env
begin

lemma push_tasks_pull:
  assumes "db_connected up S" and "list_all (\<lambda>(gid, t). task_storable wire_ok gid t) ps"
  shows "\<exists>r S2. pull_task R P gid (fold (\<lambda>(gid, t) S. snd (push_task R P gid t S)) ps S) = (Inr r, S2) \<and>
    map_option progress_of r =
      (case map_of (rev ps) gid of Some t \<Rightarrow> Some (progress_of t) | None \<Rightarrow> task_view store P S gid)"
  using task_table.push_all_pull [OF assms] by simp

end

text \<open>
  C33: the database keeps the task progress of every player apart. After the entries of a
  list of players were pushed in order, pulling a player gives the progress that was
  pushed last for that id, and the old progress where none was pushed.
\<close>

theorem task_pushes_then_pull:
  assumes "server_env R up store P wire_ok" and "db_connected up S"
    and "list_all (\<lambda>(gid, t). wire_ok (MDBTaskInfo t) \<and> distinct (map fst (tasks t))) ps"
  shows "\<exists>r S2. pull_task R P gid (fold (\<lambda>(gid, t) S. snd (push_task R P gid t S)) ps S) = (Inr r, S2) \<and>
    map_option progress_of r =
      (case map_of (rev ps) gid of Some t \<Rightarrow> Some (progress_of t) | None \<Rightarrow> task_view store P S gid)"
  by (rule server_env.push_tasks_pull [OF assms(1,2)]) (use assms(3) in \<open>simp add: task_storable_def\<close>)

theorem task_pushes_then_pull_witness:
  "\<exists>r S2. pull_task redis_ref protobuf_ref 7
      (fold (\<lambda>(gid, t) S. snd (push_task redis_ref protobuf_ref gid t S))
        [(7, \<lparr>tasks = [(1, 2)], db_position_x = 3, db_position_y = 4\<rparr>), (8, empty_DBTaskInfo)] server0)
      = (Inr r, S2) \<and>
    map_option progress_of r = Some ([1 \<mapsto> 2], 3, 4)"
  using task_pushes_then_pull [OF env_ref_laws server0_connected,
      of "[(7, \<lparr>tasks = [(1, 2)], db_position_x = 3, db_position_y = 4\<rparr>), (8, empty_DBTaskInfo)]" 7]
  by (simp add: empty_DBTaskInfo_def progress_of_def)

end
