(* ===== verification/Task_Services.thy ===== *)
theory Task_Services
  imports Role_Manager Task_Manager
begin

text \<open>
  The services of the minigame (\<open>minigame_server/service\<close>): querying and updating the task
  progress of a player and erasing a role. The task services hold their \<open>TaskDataManager\<close>
  by value, so a call works on a copy of the shared one, which is the argument \<open>T\<close>. They
  refine a map from player ids to progress.
\<close>

section \<open>The services\<close>

definition task_query_rsp :: "TaskQueryReq \<Rightarrow> TaskErrorCode \<Rightarrow> i32 list \<Rightarrow> double \<Rightarrow> double \<Rightarrow> TaskQueryRsp" where
  "task_query_rsp request ret done_ids x y =
     \<lparr>tqr_rpcid = tq_rpcid request, tqr_error = TaskErrorCode_value ret, tqr_message = TaskErrorCode_Name ret,
      done_tasks = done_ids, tqr_position_x = x, tqr_position_y = y\<rparr>"

definition TaskQueryService ::
  "'c hiredis \<Rightarrow> protobuf \<Rightarrow> TaskDataManager \<Rightarrow> role_ptr \<Rightarrow> TaskQueryReq
     \<Rightarrow> (('addr, 'c) server, TaskQueryRsp) action" where
  "TaskQueryService R P T role request =
     bind_act (read_role role) (\<lambda>r.
       let gid = player_id (basic_info r) in
       bind_act (PullTaskInfoFromDB R P gid T) (\<lambda>(ok, T).
         if \<not> ok then ret_act (task_query_rsp request TASK_UNKOWN_EORROR [] (Finite 0) (Finite 0))
         else let taskinfo = fst (GetTaskInfo gid T);
                  done_ids = map fst (filter (\<lambda>item. snd item = FINISH) (tasks taskinfo))
              in ret_act (task_query_rsp request TASK_SUCCEED done_ids
                   (double_of_i32 (db_position_x taskinfo)) (double_of_i32 (db_position_y taskinfo)))))"

text \<open>\<open>(*task_map)[id] = FINISH\<close> for the ids of the request in turn.\<close>

definition finish_tasks :: "i32 list \<Rightarrow> (i32 \<times> ProgressState) list \<Rightarrow> (i32 \<times> ProgressState) list" where
  "finish_tasks ids task_map = fold (\<lambda>finish_task_id m. AList.update finish_task_id FINISH m) ids task_map"

definition task_update_rsp :: "TaskUpdateReq \<Rightarrow> TaskErrorCode \<Rightarrow> TaskUpdateRsp" where
  "task_update_rsp request ret =
     \<lparr>tur_rpcid = tu_rpcid request, tur_error = TaskErrorCode_value ret, tur_message = TaskErrorCode_Name ret\<rparr>"

definition TaskUpdateService ::
  "'c hiredis \<Rightarrow> protobuf \<Rightarrow> TaskDataManager \<Rightarrow> role_ptr \<Rightarrow> TaskUpdateReq
     \<Rightarrow> (('addr, 'c) server, TaskUpdateRsp) action" where
  "TaskUpdateService R P T role request =
     bind_act (read_role role) (\<lambda>r.
       let gid = player_id (basic_info r) in
       bind_act (if TaskInfoExist gid T then ret_act T
                 else bind_act (PullTaskInfoFromDB R P gid T) (\<lambda>(_, T). ret_act T)) (\<lambda>T.
         case GetTaskInfo gid T of (task_info, T) \<Rightarrow>
           bind_act (lift_res (i32_of_double (tu_position_x request))) (\<lambda>x.
           bind_act (lift_res (i32_of_double (tu_position_y request))) (\<lambda>y.
           bind_act (PushTaskInfoToDB R P gid
               (SetTaskInfo gid \<lparr>tasks = finish_tasks (finished_task_ids request) (tasks task_info),
                  db_position_x = x, db_position_y = y\<rparr> T)) (\<lambda>_.
             ret_act (task_update_rsp request TASK_SUCCEED))))))"

definition EraseRoleService ::
  "'c hiredis \<Rightarrow> protobuf \<Rightarrow> role_ptr \<Rightarrow> EraseRoleReq \<Rightarrow> (('addr, 'c) server, EraseRoleRsp) action" where
  "EraseRoleService R P role request =
     bind_act (write_role role (\<lambda>r. r\<lparr>opt_basic_info := None\<rparr>)) (\<lambda>_.
     bind_act (write_role role (\<lambda>r. r\<lparr>opt_progress := None\<rparr>)) (\<lambda>_.
     bind_act (read_role role) (\<lambda>r.
     bind_act (PushRoleToDB R P r) (\<lambda>ok.
       let ret = (if \<not> ok then TASK_UNKOWN_EORROR else TASK_SUCCEED) in
       ret_act \<lparr>err_rpcid = er_rpcid request, err_error = TaskErrorCode_value ret,
                err_message = TaskErrorCode_Name ret\<rparr>))))"

context server_inv
begin

lemma keeps_query [intro!]: "keeps I (TaskQueryService R P T role req)"
  unfolding TaskQueryService_def Let_def
  by (auto intro!: keeps_bind)

lemma keeps_update [intro!]: "keeps I (TaskUpdateService R P T role req)"
  unfolding TaskUpdateService_def Let_def
  by (auto intro!: keeps_bind split: prod.splits)

lemma keeps_erase [intro!]: "keeps I (EraseRoleService R P role req)"
  unfolding EraseRoleService_def Let_def
  by (auto intro!: keeps_bind)

end

section \<open>Abstract progress\<close>

text \<open>The progress after an update: the finished tasks are added, the position replaced.\<close>

definition update_progress :: "i32 list \<Rightarrow> i32 \<Rightarrow> i32 \<Rightarrow> progress option \<Rightarrow> progress" where
  "update_progress ids x y p =
     ((case p of None \<Rightarrow> Map.empty | Some (m, _) \<Rightarrow> m) ++ (\<lambda>i. if i \<in> set ids then Some FINISH else None), x, y)"

text \<open>The wire format carries entries of up to \<open>n\<close> tasks.\<close>

definition task_capacity :: "(Message \<Rightarrow> bool) \<Rightarrow> nat \<Rightarrow> bool" where
  "task_capacity wire_ok n \<longleftrightarrow> (\<forall>t. length (tasks t) \<le> n \<longrightarrow> wire_ok (MDBTaskInfo t))"

section \<open>Lemmas\<close>

lemma distinct_finish_tasks [simp]: "distinct (map fst m) \<Longrightarrow> distinct (map fst (finish_tasks ids m))"
  unfolding finish_tasks_def by (induction ids arbitrary: m) (simp_all add: distinct_update)

lemma map_of_finish_tasks:
  "map_of (finish_tasks ids m) = map_of m ++ (\<lambda>i. if i \<in> set ids then Some FINISH else None)"
  unfolding finish_tasks_def
  by (induction ids arbitrary: m) (auto simp: update_conv' map_add_def fun_eq_iff)

lemma length_distinct_map_of: "distinct (map fst m) \<Longrightarrow> length m = card (dom (map_of m))"
  by (simp add: dom_map_of_conv_image_fst card_image distinct_map distinct_card)

lemma set_done_tasks:
  assumes "distinct (map fst m)"
  shows "set (map fst (filter (\<lambda>item. snd item = FINISH) m)) = {i. map_of m i = Some FINISH}"
  using assms by (force simp: map_of_eq_Some_iff)

context server_env
begin

lemma TaskUpdate_refines:
  assumes c: "db_connected up S" and p: "p < length (role_heap S)"
    and gid: "gid = player_id (basic_info (role_heap S ! p))" and T: "task_infos T gid = None"
    and xy: "i32_of_double (tu_position_x req) = Inr x" "i32_of_double (tu_position_y req) = Inr y"
    and cap: "task_capacity wire_ok n"
      "card (dom (fst (update_progress (finished_task_ids req) x y (task_view store P S gid)))) \<le> n"
  shows "\<exists>S'. TaskUpdateService R P T p req S = (Inr (task_update_rsp req TASK_SUCCEED), S') \<and>
    db_connected up S' \<and> same_roles S S' \<and> (\<forall>k. k \<noteq> task_key gid \<longrightarrow> db store S' k = db store S k) \<and>
    task_view store P S' = (task_view store P S)(gid \<mapsto>
      update_progress (finished_task_ids req) x y (task_view store P S gid))"
proof -
  obtain S1 T1 t where S1: "bind_act (PullTaskInfoFromDB R P gid T) (\<lambda>(_, T). ret_act T) S = (Inr T1, S1)"
      "db_connected up S1" "db store S1 = db store S" "same_roles S S1" "fst (GetTaskInfo gid T1) = t"
      "distinct (map fst (tasks t))"
      "map_of (tasks t) = (case task_view store P S gid of None \<Rightarrow> Map.empty | Some (m, _) \<Rightarrow> m)"
    using PullTask_eq [OF c, of gid T] T
    by (cases "db store S (task_key gid)")
      (fastforce simp: GetTaskInfo_def empty_DBTaskInfo_def task_view_def as_DBTaskInfo_def progress_of_def)+
  let ?t = "\<lparr>tasks = finish_tasks (finished_task_ids req) (tasks t), db_position_x = x, db_position_y = y\<rparr>"
  let ?T = "SetTaskInfo gid ?t (snd (GetTaskInfo gid T1))"
  have t: "progress_of ?t = update_progress (finished_task_ids req) x y (task_view store P S gid)"
    using S1(7) by (simp add: progress_of_def update_progress_def map_of_finish_tasks)
  have st: "task_storable wire_ok gid ?t"
    using cap S1(6) length_distinct_map_of [of "tasks ?t"] arg_cong [OF t, of fst]
    by (simp add: task_storable_def task_capacity_def progress_of_def)
  obtain S2 where S2: "PushTaskInfoToDB R P gid ?T S1 = (Inr True, S2)" "db_connected up S2" "same_roles S1 S2"
      "db store S2 = (db store S1)(task_key gid \<mapsto> SerializeToString P (MDBTaskInfo ?t))"
    using PushTask_eq [OF S1(2), of ?T gid ?t] by (auto simp: SetTaskInfo_def)
  show ?thesis
    using S1 S2 p gid T xy task_view_pushed [OF st, of S2 S1] t
    by (intro exI [of _ S2])
      (auto simp: TaskUpdateService_def read_role_def TaskInfoExist_def Let_def case_prod_beta same_roles_def
        task_view_def [of _ _ S1] task_view_def [of _ _ S])
qed

lemma TaskQuery_refines:
  assumes c: "db_connected up S" and p: "p < length (role_heap S)"
    and gid: "gid = player_id (basic_info (role_heap S ! p))" and T: "task_infos T gid = None"
  shows "\<exists>S' ids. TaskQueryService R P T p req S =
      (Inr (case task_view store P S gid of
         None \<Rightarrow> task_query_rsp req TASK_UNKOWN_EORROR [] (Finite 0) (Finite 0)
       | Some (m, x, y) \<Rightarrow> task_query_rsp req TASK_SUCCEED ids (double_of_i32 x) (double_of_i32 y)), S') \<and>
    db_connected up S' \<and> same_roles S S' \<and> db store S' = db store S \<and>
    (\<forall>m x y. task_view store P S gid = Some (m, x, y) \<longrightarrow> distinct ids \<and> set ids = {i. m i = Some FINISH})"
proof (cases "db store S (task_key gid)")
  case None
  with PullTask_eq [OF c, of gid T] p gid show ?thesis
    by (auto simp: TaskQueryService_def read_role_def Let_def task_view_def)
next
  case (Some s)
  obtain S1 t where S1: "db_connected up S1" "db store S1 = db store S" "same_roles S S1"
      "snd (ParseFromArray P TDBTaskInfo s) = MDBTaskInfo t" "distinct (map fst (tasks t))"
      "PullTaskInfoFromDB R P gid T S = (Inr (True, T\<lparr>task_infos := (task_infos T)(gid \<mapsto> t)\<rparr>), S1)"
    using PullTask_eq [OF c, of gid T] T Some by auto
  let ?ids = "map fst (filter (\<lambda>item. snd item = FINISH) (tasks t))"
  have "task_view store P S gid = Some (progress_of t)"
    using Some S1(4) by (simp add: task_view_def as_DBTaskInfo_def)
  then show ?thesis
    using S1 p gid set_done_tasks [OF S1(5)] distinct_map_filter [OF S1(5), of "\<lambda>item. snd item = FINISH"]
    by (intro exI [of _ S1] exI [of _ ?ids])
      (simp add: TaskQueryService_def read_role_def Let_def GetTaskInfo_def progress_of_def)
qed

end

section \<open>Sequences of updates\<close>

text \<open>The player a role pointer stands for, and an update on a copy of the shared manager.\<close>

definition player :: "('addr, 'c) server \<Rightarrow> role_ptr \<Rightarrow> i32" where
  "player S p = player_id (basic_info (role_heap S ! p))"

definition task_update :: "'c hiredis \<Rightarrow> protobuf \<Rightarrow> role_ptr \<Rightarrow> TaskUpdateReq \<Rightarrow> (('addr, 'c) server, TaskUpdateRsp) action" where
  "task_update R P p req S = TaskUpdateService R P (task_manager S) p req S"

definition task_query :: "'c hiredis \<Rightarrow> protobuf \<Rightarrow> role_ptr \<Rightarrow> TaskQueryReq \<Rightarrow> (('addr, 'c) server, TaskQueryRsp) action" where
  "task_query R P p req S = TaskQueryService R P (task_manager S) p req S"

fun task_updates ::
  "'c hiredis \<Rightarrow> protobuf \<Rightarrow> (role_ptr \<times> TaskUpdateReq) list \<Rightarrow> (('addr, 'c) server, TaskUpdateRsp list) action" where
  "task_updates R P [] = ret_act []"
| "task_updates R P ((p, req) # us) =
     bind_act (task_update R P p req) (\<lambda>rsp. bind_act (task_updates R P us) (\<lambda>rsps. ret_act (rsp # rsps)))"

definition pos :: "double \<Rightarrow> i32" where
  "pos d = (case i32_of_double d of Inr x \<Rightarrow> x | Inl _ \<Rightarrow> 0)"

definition in_range :: "TaskUpdateReq \<Rightarrow> bool" where
  "in_range req \<longleftrightarrow> i32_of_double (tu_position_x req) = Inr (pos (tu_position_x req)) \<and>
     i32_of_double (tu_position_y req) = Inr (pos (tu_position_y req))"

definition spec_update :: "(i32 \<times> TaskUpdateReq) \<Rightarrow> (i32 \<Rightarrow> progress option) \<Rightarrow> (i32 \<Rightarrow> progress option)" where
  "spec_update u V = V(fst u \<mapsto> update_progress (finished_task_ids (snd u))
     (pos (tu_position_x (snd u))) (pos (tu_position_y (snd u))) (V (fst u)))"

text \<open>Room for the tasks the updates may add to the entries.\<close>

definition new_tasks :: "(i32 \<times> TaskUpdateReq) list \<Rightarrow> nat" where
  "new_tasks us = (\<Sum>u\<leftarrow>us. length (finished_task_ids (snd u)))"

definition room :: "nat \<Rightarrow> nat \<Rightarrow> (i32 \<Rightarrow> progress option) \<Rightarrow> bool" where
  "room n k V \<longleftrightarrow> k \<le> n \<and> (\<forall>gid m x y. V gid = Some (m, x, y) \<longrightarrow> card (dom m) + k \<le> n)"

lemma card_update_progress:
  "card (dom (fst (update_progress ids x y p))) \<le> (case p of None \<Rightarrow> 0 | Some (m, _) \<Rightarrow> card (dom m)) + length ids"
proof -
  have "card (dom (fst (update_progress ids x y p)))
      \<le> card (dom (case p of None \<Rightarrow> Map.empty | Some (m, _) \<Rightarrow> m)) + card (set ids)"
    using card_Un_le [of "set ids" "dom (case p of None \<Rightarrow> Map.empty | Some (m, _) \<Rightarrow> m)"]
    by (simp add: update_progress_def dom_if Un_commute dom_def [of "\<lambda>i. if i \<in> set ids then Some FINISH else None"])
  then show ?thesis
    using card_length [of ids] by (auto split: option.splits)
qed

lemma room_step:
  assumes "room n (length (finished_task_ids (snd u)) + k) V"
  shows "card (dom (fst (the (spec_update u V (fst u))))) \<le> n" and "room n k (spec_update u V)"
proof -
  have "card (dom (fst (the (spec_update u V (fst u))))) + k \<le> n"
    using assms card_update_progress [of "finished_task_ids (snd u)" "pos (tu_position_x (snd u))"
        "pos (tu_position_y (snd u))" "V (fst u)"]
    by (fastforce simp: room_def spec_update_def split: option.splits)
  moreover have "card (dom m) + k \<le> n" if "V gid = Some (m, x, y)" for gid m x y
  proof -
    have "card (dom m) + (length (finished_task_ids (snd u)) + k) \<le> n"
      using assms that unfolding room_def by blast
    then show ?thesis by simp
  qed
  ultimately show "card (dom (fst (the (spec_update u V (fst u))))) \<le> n" and "room n k (spec_update u V)"
    using assms by (auto simp: room_def spec_update_def)
qed

lemma update_progress_twice:
  "update_progress b x y (Some (update_progress a x' y' p)) = update_progress (a @ b) x y p"
  by (auto simp: update_progress_def map_add_def fun_eq_iff split: option.splits)

text \<open>What the updates leave for a player.\<close>

lemma spec_updates_player:
  "fold spec_update us V gid =
     (let mine = filter (\<lambda>u. fst u = gid) us in
      if mine = [] then V gid
      else Some (update_progress (concat (map (finished_task_ids \<circ> snd) mine))
          (pos (tu_position_x (snd (last mine)))) (pos (tu_position_y (snd (last mine)))) (V gid)))"
proof (induction us rule: rev_induct)
  case (snoc u us)
  then show ?case
    by (cases "filter (\<lambda>u. fst u = gid) us = []") (auto simp: spec_update_def update_progress_twice Let_def)
qed simp

context server_env
begin

lemma task_updates_refine:
  assumes "db_connected up S" and "task_manager S = new_TaskDataManager"
    and "list_all (\<lambda>(p, req). p < length (role_heap S) \<and> in_range req) us"
    and "task_capacity wire_ok n" and "room n (new_tasks (map (apfst (player S)) us)) (task_view store P S)"
  shows "\<exists>S'. task_updates R P us S = (Inr (map (\<lambda>u. task_update_rsp (snd u) TASK_SUCCEED) us), S') \<and>
    db_connected up S' \<and> same_roles S S' \<and>
    task_view store P S' = fold spec_update (map (apfst (player S)) us) (task_view store P S)"
  using assms
proof (induction us arbitrary: S)
  case (Cons u us)
  obtain p req where u: "u = (p, req)" by (cases u)
  let ?u = "(player S p, req)" and ?V = "task_view store P S"
  have r: "room n (length (finished_task_ids (snd ?u)) + new_tasks (map (apfst (player S)) us)) ?V"
    using Cons.prems(5) u by (simp add: new_tasks_def)
  have "\<exists>S1. TaskUpdateService R P (task_manager S) p req S = (Inr (task_update_rsp req TASK_SUCCEED), S1) \<and>
      db_connected up S1 \<and> same_roles S S1 \<and> (\<forall>k. k \<noteq> task_key (player S p) \<longrightarrow> db store S1 k = db store S k) \<and>
      task_view store P S1 = ?V(player S p \<mapsto> update_progress (finished_task_ids req)
        (pos (tu_position_x req)) (pos (tu_position_y req)) (?V (player S p)))"
    using Cons.prems(1-4) u room_step(1) [OF r]
    by (intro TaskUpdate_refines) (auto simp: player_def in_range_def new_TaskDataManager_def spec_update_def)
  then obtain S1 where S1: "task_update R P p req S = (Inr (task_update_rsp req TASK_SUCCEED), S1)"
      "db_connected up S1" "same_roles S S1" "task_view store P S1 = spec_update ?u ?V"
    by (auto simp: spec_update_def task_update_def)
  have pl: "player S1 = player S" "role_heap S1 = role_heap S"
    using S1(3) by (auto simp: player_def same_roles_def fun_eq_iff)
  obtain S2 where "task_updates R P us S1 = (Inr (map (\<lambda>u. task_update_rsp (snd u) TASK_SUCCEED) us), S2)"
      "db_connected up S2" "same_roles S1 S2"
      "task_view store P S2 = fold spec_update (map (apfst (player S)) us) (task_view store P S1)"
    using Cons.IH [OF S1(2)] Cons.prems S1(3,4) room_step(2) [OF r] u
    unfolding pl by (auto simp: same_roles_def)
  with S1 u show ?case by (auto simp: same_roles_def)
qed (auto simp: same_roles_def)

lemma updates_query:
  assumes "db_connected up S" and "task_manager S = new_TaskDataManager"
    and "list_all (\<lambda>(p, req). p < length (role_heap S) \<and> in_range req) us"
    and "task_capacity wire_ok n" and "room n (new_tasks (map (apfst (player S)) us)) (task_view store P S)"
    and p: "p < length (role_heap S)" and mine: "mine = filter (\<lambda>u. player S (fst u) = player S p) us" "mine \<noteq> []"
  shows "\<exists>S1 S2 ids. task_updates R P us S = (Inr (map (\<lambda>u. task_update_rsp (snd u) TASK_SUCCEED) us), S1) \<and>
    task_query R P p req S1 = (Inr (task_query_rsp req TASK_SUCCEED ids
        (double_of_i32 (pos (tu_position_x (snd (last mine))))) (double_of_i32 (pos (tu_position_y (snd (last mine)))))), S2) \<and>
    distinct ids \<and> (\<forall>i. i \<in> set ids \<longleftrightarrow> (\<exists>u\<in>set mine. i \<in> set (finished_task_ids (snd u))) \<or>
      (\<exists>m x y. task_view store P S (player S p) = Some (m, x, y) \<and> m i = Some FINISH))"
proof -
  obtain S1 where S1: "task_updates R P us S = (Inr (map (\<lambda>u. task_update_rsp (snd u) TASK_SUCCEED) us), S1)"
      "db_connected up S1" "same_roles S S1"
      "task_view store P S1 = fold spec_update (map (apfst (player S)) us) (task_view store P S)"
    using task_updates_refine [OF assms(1-5)] by blast
  let ?gid = "player S p"
  let ?v = "update_progress (concat (map (finished_task_ids \<circ> snd) mine))
          (pos (tu_position_x (snd (last mine)))) (pos (tu_position_y (snd (last mine)))) (task_view store P S ?gid)"
  have f: "filter (\<lambda>u. fst u = ?gid) (map (apfst (player S)) us) = map (apfst (player S)) mine"
    using mine(1) by (simp add: filter_map comp_def)
  have v: "task_view store P S1 ?gid = Some ?v"
    using mine(2) unfolding S1(4) spec_updates_player f
    by (simp add: Let_def last_map comp_def)
  have heap: "role_heap S1 = role_heap S" "task_infos (task_manager S1) ?gid = None"
    using S1(3) assms(2) by (simp_all add: same_roles_def new_TaskDataManager_def)
  obtain m x y where mxy: "?v = (m, x, y)" by (cases ?v)
  obtain S2 ids where "TaskQueryService R P (task_manager S1) p req S1 =
      (Inr (task_query_rsp req TASK_SUCCEED ids (double_of_i32 (fst (snd ?v))) (double_of_i32 (snd (snd ?v)))), S2)"
      "distinct ids" "set ids = {i. fst ?v i = Some FINISH}"
    using TaskQuery_refines [OF S1(2), of p ?gid "task_manager S1" req] v heap p
    unfolding mxy by (auto simp: player_def)
  with S1(1) show ?thesis
    by (intro exI [of _ S1] exI [of _ S2] exI [of _ ids])
      (auto simp: task_query_def update_progress_def map_add_def split: option.splits if_splits)
qed

lemma erased [simp]: "(r :: RoleInfo)\<lparr>opt_basic_info := None, opt_progress := None\<rparr> = empty_role"
  by (cases r) (simp add: empty_role_def)

lemma erase_eq:
  assumes c: "db_connected up S" and p: "p < length (role_heap S)" and w: "wire_ok (MRoleInfo empty_role)"
  shows "\<exists>S'. EraseRoleService R P p req S = (Inr \<lparr>err_rpcid = er_rpcid req, err_error = 0, err_message = ''SUCCEED''\<rparr>, S') \<and>
    db_connected up S' \<and> roles S' = roles S \<and> role_heap S' = (role_heap S)[p := empty_role] \<and>
    role_view store P S' = (role_view store P S)([] \<mapsto> empty_role)"
proof -
  let ?S = "S\<lparr>role_heap := (role_heap S)[p := empty_role]\<rparr>"
  have S: "db_connected up ?S" "db store ?S = db store S"
    using c by (simp_all add: db_connected_def db_def)
  obtain S1 where S1: "PushRoleToDB R P empty_role ?S = (Inr True, S1)" "db_connected up S1" "same_roles ?S S1"
      "db store S1 = (db store S)(''__role_'' @ [] \<mapsto> SerializeToString P (MRoleInfo empty_role))"
    using Push_eq [OF S(1), of empty_role] S(2)
    by (auto simp: empty_role_def basic_info_def default_BasicInfo_def c_str_def)
  with p role_view_pushed [OF w S1(4)] show ?thesis
    by (intro exI [of _ S1])
      (simp add: EraseRoleService_def write_role_def read_role_def Let_def same_roles_def)
qed

lemma query_unknown:
  assumes "db_connected up S" and "task_manager S = new_TaskDataManager" and "p < length (role_heap S)"
    and "task_view store P S (player S p) = None"
  shows "\<exists>S'. task_query R P p req S = (Inr \<lparr>tqr_rpcid = tq_rpcid req, tqr_error = 200001,
      tqr_message = ''UNKOWN_EORROR'', done_tasks = [], tqr_position_x = Finite 0, tqr_position_y = Finite 0\<rparr>, S') \<and>
    db store S' = db store S \<and> same_roles S S'"
  using TaskQuery_refines [OF assms(1,3), of "player S p" "task_manager S" req] assms(2,4)
  by (auto simp: player_def task_query_def task_query_rsp_def new_TaskDataManager_def)

end

section \<open>Properties\<close>

text \<open>
  C7: updates are not lost. After any sequence of updates by any players, a query by a
  player who made one of them succeeds: it returns, without duplicates, exactly the tasks
  that player's updates finished and those that were finished in the database before, and
  the position of the player's last update, cut to whole numbers.
\<close>

theorem query_returns_updates:
  assumes "server_env R up store P wire_ok" and "db_connected up S" and "task_manager S = new_TaskDataManager"
    and "list_all (\<lambda>(p, req). p < length (role_heap S) \<and> in_range req) us"
    and "task_capacity wire_ok n" and "room n (new_tasks (map (apfst (player S)) us)) (task_view store P S)"
    and "p < length (role_heap S)" and "mine = filter (\<lambda>u. player S (fst u) = player S p) us" and "mine \<noteq> []"
  shows "\<exists>S1 S2 ids. task_updates R P us S = (Inr (map (\<lambda>u. task_update_rsp (snd u) TASK_SUCCEED) us), S1) \<and>
    task_query R P p req S1 = (Inr (task_query_rsp req TASK_SUCCEED ids
        (double_of_i32 (pos (tu_position_x (snd (last mine))))) (double_of_i32 (pos (tu_position_y (snd (last mine)))))), S2) \<and>
    distinct ids \<and> (\<forall>i. i \<in> set ids \<longleftrightarrow> (\<exists>u\<in>set mine. i \<in> set (finished_task_ids (snd u))) \<or>
      (\<exists>m x y. task_view store P S (player S p) = Some (m, x, y) \<and> m i = Some FINISH))"
  using server_env.updates_query [OF assms] .

text \<open>
  A query for a player without progress in the database is answered with an error and
  changes nothing.
\<close>

lemma query_without_progress:
  assumes "server_env R up store P wire_ok" and "db_connected up S" and "task_manager S = new_TaskDataManager"
    and "p < length (role_heap S)" and "task_view store P S (player S p) = None"
  shows "\<exists>S'. task_query R P p req S = (Inr \<lparr>tqr_rpcid = tq_rpcid req, tqr_error = 200001,
      tqr_message = ''UNKOWN_EORROR'', done_tasks = [], tqr_position_x = Finite 0, tqr_position_y = Finite 0\<rparr>, S') \<and>
    db store S' = db store S \<and> same_roles S S'"
  using server_env.query_unknown [OF assms] .

text \<open>
  C37: erasing a role does not erase the player's data. The role is cleared in memory before
  it is pushed, so the push goes to the empty user name: the response reports success, the
  object is empty, and the stored role of every named user is what it was.
\<close>

theorem erase_keeps_stored_role:
  assumes "server_env R up store P wire_ok" and "db_connected up S" and "p < length (role_heap S)"
    and "wire_ok (MRoleInfo empty_role)"
  shows "\<exists>S'. EraseRoleService R P p req S = (Inr \<lparr>err_rpcid = er_rpcid req, err_error = 0, err_message = ''SUCCEED''\<rparr>, S') \<and>
    role_heap S' = (role_heap S)[p := empty_role] \<and>
    (\<forall>k. k \<noteq> [] \<longrightarrow> role_view store P S' k = role_view store P S k)"
  using server_env.erase_eq [OF assms, of req] by auto

section \<open>Witnesses\<close>

definition server_two :: "(nat, string \<Rightarrow> string option) server" where
  "server_two = server0\<lparr>role_heap :=
     [mutable_basic_info (\<lambda>b. b\<lparr>player_id := 7\<rparr>) empty_role, mutable_basic_info (\<lambda>b. b\<lparr>player_id := 8\<rparr>) empty_role]\<rparr>"

lemma server_two_simps [simp]:
  "db_connected (\<lambda>_. True) server_two" "task_manager server_two = new_TaskDataManager"
  "length (role_heap server_two) = 2" "player server_two 0 = 7" "player server_two 1 = 8" "player server_two (Suc 0) = 8"
  "task_view (\<lambda>m. m) protobuf_ref server_two gid = None"
  by (simp_all add: server_two_def server0_def db_connected_def player_def mutable_basic_info_def basic_info_def
      task_view_def db_def)

lemma task_capacity_ref: "task_capacity wire_ok_ref 100"
  by (simp add: task_capacity_def)

definition update_1 :: TaskUpdateReq where
  "update_1 = \<lparr>tu_rpcid = 1, finished_task_ids = [3, 4], tu_position_x = Finite (5 / 2), tu_position_y = Finite 0\<rparr>"

definition update_2 :: TaskUpdateReq where
  "update_2 = \<lparr>tu_rpcid = 2, finished_task_ids = [9], tu_position_x = Finite 1, tu_position_y = Finite 1\<rparr>"

lemma in_range_examples: "in_range update_1" "in_range update_2" "pos (Finite (5 / 2)) = 2" "pos (Finite 0) = 0"
proof -
  have "\<lfloor>5 / 2 :: rat\<rfloor> = 2" by (simp add: floor_eq_iff)
  then show "in_range update_1" "in_range update_2" "pos (Finite (5 / 2)) = 2" "pos (Finite 0) = 0"
    by (simp_all add: in_range_def update_1_def update_2_def pos_def truncate_rat_def Let_def)
qed

theorem query_returns_updates_witness:
  "\<exists>S1 S2 ids. task_updates redis_ref protobuf_ref [(0, update_1), (1, update_2)] server_two
      = (Inr [task_update_rsp update_1 TASK_SUCCEED, task_update_rsp update_2 TASK_SUCCEED], S1) \<and>
    task_query redis_ref protobuf_ref 0 \<lparr>tq_rpcid = 5\<rparr> S1
      = (Inr (task_query_rsp \<lparr>tq_rpcid = 5\<rparr> TASK_SUCCEED ids (double_of_i32 2) (double_of_i32 0)), S2) \<and>
    set ids = {3, 4}"
  using query_returns_updates [OF env_ref_laws server_two_simps(1,2) _ task_capacity_ref, of "[(0, update_1), (1, update_2)]" 0
      "[(0, update_1)]" "\<lparr>tq_rpcid = 5\<rparr>"] in_range_examples
  by (auto simp: new_tasks_def room_def update_1_def update_2_def set_eq_iff)

theorem erase_keeps_stored_role_witness:
  "\<exists>S'. EraseRoleService redis_ref protobuf_ref 0 \<lparr>er_rpcid = 5\<rparr> server_two
      = (Inr \<lparr>err_rpcid = 5, err_error = 0, err_message = ''SUCCEED''\<rparr>, S') \<and>
    (\<forall>k. k \<noteq> [] \<longrightarrow> role_view (\<lambda>m. m) protobuf_ref S' k = role_view (\<lambda>m. m) protobuf_ref server_two k)"
  using erase_keeps_stored_role [OF env_ref_laws server_two_simps(1), of 0 "\<lparr>er_rpcid = 5\<rparr>"]
  by (auto simp: empty_role_def basic_info_def default_BasicInfo_def)

end
