(* ===== verification/Service_Classes.thy ===== *)
theory Service_Classes
  imports Command_Registry Login_Services Task_Services
begin

text \<open>
  The five service classes the server registers, as implementations of
  \<open>SyncServiceInterface\<close> (\<open>libsrc/service_interface.h\<close>): which request and response types the
  class names as template arguments, and \<open>operator()\<close> on an object made from the references
  its constructor takes. The task services hold a task manager by value, so their objects
  start from a copy of the shared one; the others work on the shared state.
\<close>

section \<open>The classes\<close>

definition MinigameFakeLoginService_class ::
  "'c hiredis \<Rightarrow> protobuf \<Rightarrow> (role_ptr, ('addr, 'c) server, LoginReq, LoginRsp) SyncServiceInterface" where
  "MinigameFakeLoginService_class R P =
     \<lparr>RequestType = TLoginReq, ResponseType = TLoginRsp, cast_request = as_LoginReq, response_message = MLoginRsp,
      operator_call = (\<lambda>S. MinigameFakeLoginService R P)\<rparr>"

definition MinigameRegisterService_class ::
  "'c hiredis \<Rightarrow> protobuf \<Rightarrow> (role_ptr, ('addr, 'c) server, RegisterReq, RegisterRsp) SyncServiceInterface" where
  "MinigameRegisterService_class R P =
     \<lparr>RequestType = TRegisterReq, ResponseType = TRegisterRsp, cast_request = as_RegisterReq,
      response_message = MRegisterRsp, operator_call = (\<lambda>S. MinigameRegisterService R P)\<rparr>"

definition TaskQueryService_class ::
  "'c hiredis \<Rightarrow> protobuf \<Rightarrow> (role_ptr, ('addr, 'c) server, TaskQueryReq, TaskQueryRsp) SyncServiceInterface" where
  "TaskQueryService_class R P =
     \<lparr>RequestType = TTaskQueryReq, ResponseType = TTaskQueryRsp, cast_request = as_TaskQueryReq,
      response_message = MTaskQueryRsp, operator_call = (\<lambda>S. TaskQueryService R P (task_manager S))\<rparr>"

definition TaskUpdateService_class ::
  "'c hiredis \<Rightarrow> protobuf \<Rightarrow> (role_ptr, ('addr, 'c) server, TaskUpdateReq, TaskUpdateRsp) SyncServiceInterface" where
  "TaskUpdateService_class R P =
     \<lparr>RequestType = TTaskUpdateReq, ResponseType = TTaskUpdateRsp, cast_request = as_TaskUpdateReq,
      response_message = MTaskUpdateRsp, operator_call = (\<lambda>S. TaskUpdateService R P (task_manager S))\<rparr>"

definition EraseRoleService_class ::
  "'c hiredis \<Rightarrow> protobuf \<Rightarrow> (role_ptr, ('addr, 'c) server, EraseRoleReq, EraseRoleRsp) SyncServiceInterface" where
  "EraseRoleService_class R P =
     \<lparr>RequestType = TEraseRoleReq, ResponseType = TEraseRoleRsp, cast_request = as_EraseRoleReq,
      response_message = MEraseRoleRsp, operator_call = (\<lambda>S. EraseRoleService R P)\<rparr>"

lemmas service_classes = MinigameFakeLoginService_class_def MinigameRegisterService_class_def
  TaskQueryService_class_def TaskUpdateService_class_def EraseRoleService_class_def

section \<open>Their types\<close>

lemma casts_by_type [simp]:
  "as_LoginReq msg = None \<longleftrightarrow> type_of msg \<noteq> TLoginReq"
  "as_RegisterReq msg = None \<longleftrightarrow> type_of msg \<noteq> TRegisterReq"
  "as_TaskQueryReq msg = None \<longleftrightarrow> type_of msg \<noteq> TTaskQueryReq"
  "as_TaskUpdateReq msg = None \<longleftrightarrow> type_of msg \<noteq> TTaskUpdateReq"
  "as_EraseRoleReq msg = None \<longleftrightarrow> type_of msg \<noteq> TEraseRoleReq"
  by (cases msg; simp add: msg_casts)+

lemma classes_well_typed [simp, intro!]:
  "well_typed (MinigameFakeLoginService_class R P)" "well_typed (MinigameRegisterService_class R P)"
  "well_typed (TaskQueryService_class R P)" "well_typed (TaskUpdateService_class R P)"
  "well_typed (EraseRoleService_class R P)"
  by (simp_all add: well_typed_def service_classes)

text \<open>
  The services that hold references only are plain functions of the request, so the class
  form of the decorator does nothing the function form would not do.
\<close>

lemma reference_services_are_functions:
  "let T = MinigameFakeLoginService_class R P in
     SyncServiceClassDecorator T = SyncServiceDecorator T (MinigameFakeLoginService R P)"
  "let T = MinigameRegisterService_class R P in
     SyncServiceClassDecorator T = SyncServiceDecorator T (MinigameRegisterService R P)"
  "let T = EraseRoleService_class R P in SyncServiceClassDecorator T = SyncServiceDecorator T (EraseRoleService R P)"
  by (simp_all add: decorators_agree service_classes)

end
