(* ===== verification/Server.thy ===== *)
theory Server
  imports Handlers Service_Classes
begin

text \<open>
  The minigame server (\<open>minigame_server/minigame_sever_main.cpp\<close>): the pipeline the factory
  builds for a connection, the registrations and checks \<open>main\<close> makes before it listens, and
  what a frame of a client leads to.
\<close>

section \<open>The pipeline\<close>

text \<open>
  A connection as wangle drives it: the decoder on the input queue, what a frame, a read
  exception and the end of the transport lead to, and the path of a response.
\<close>

record ('addr, 'c, 'f) LittlebPipeline =
  decoder :: LengthFieldBasedFrameDecoder
  deliver :: "iobuf \<Rightarrow> (('addr, 'c, 'f) world, unit) action"
  deliver_exception :: "string \<Rightarrow> (('addr, 'c, 'f) world, unit) action"
  respond :: "CmdMessagePair \<Rightarrow> (('addr, 'c, 'f) world, unit) action"
  complete :: "nat \<Rightarrow> Message option \<Rightarrow> (('addr, 'c, 'f) world, unit) action"
  inactive :: "(('addr, 'c, 'f) world, unit) action"

text \<open>
  The context of a handler from its neighbours: \<open>fireRead\<close> is the \<open>read\<close> of the next inbound
  handler, \<open>fireWrite\<close> the \<open>write\<close> of the previous outbound one. The events no handler
  overrides run to the ends of the pipeline.
\<close>

definition context_of ::
  "'addr \<Rightarrow> ('r \<Rightarrow> (('addr, 'c, 'f) world, unit) action) \<Rightarrow> ('w \<Rightarrow> (('addr, 'c, 'f) world, unit) action)
     \<Rightarrow> ('addr, ('addr, 'c, 'f) world, 'r, 'w) Context" where
  "context_of addr next_read prev_write =
     \<lparr>getPeerAddress = addr, fireRead = next_read, fireWrite = prev_write,
      fireReadEOF = log_event EndReadEOF, fireReadException = (\<lambda>e. log_event (EndReadException e)),
      fireTransportInactive = log_event EndTransportInactive,
      fireWriteException = (\<lambda>e. log_event (EndWriteException e)), fireClose = log_event EndClose\<rparr>"

definition no_read :: "'r \<Rightarrow> ('s, unit) action" where
  "no_read x = ret_act ()"

text \<open>
  The factory \<open>main\<close> hands to the bootstrap. Its references to the role manager and the redis
  connection are those of the shared state.
\<close>

record ('addr, 'c, 'f) LittleBPipelineFactory =
  factory_command_manager :: "(role_ptr, ('addr, 'c) server, 'f) CommandManager"
  factory_reflection_manager :: PbReflectionManager

definition new_LittleBPipelineFactory ::
  "(role_ptr, ('addr, 'c) server, 'f) managers \<Rightarrow> ('addr, 'c, 'f) LittleBPipelineFactory" where
  "new_LittleBPipelineFactory m = \<lparr>factory_command_manager = fst m, factory_reflection_manager = snd m\<rparr>"

text \<open>
  \<open>newPipeline\<close>: socket, decoder, prepender, opcode, serialisation, role injection and
  distribution, in this order.
\<close>

definition newPipeline ::
  "folly \<Rightarrow> protobuf \<Rightarrow> 'c hiredis \<Rightarrow> ('addr, 'c, 'f) LittleBPipelineFactory \<Rightarrow> 'addr
     \<Rightarrow> ('addr, 'c, 'f) LittlebPipeline result" where
  "newPipeline F P R factory addr =
     bind_res (new_LengthFieldBasedFrameDecoder PKG_LENGTH_FIELD_SIZE 65536 0 0 PKG_LENGTH_FIELD_SIZE False) (\<lambda>dec.
     bind_res (new_LengthFieldPrepender PKG_LENGTH_FIELD_SIZE 0 False False) (\<lambda>prep.
       let write_prepender = LengthFieldPrepender_write F prep (context_of addr no_read (\<lambda>b. log_event (Wrote b)));
           write_opcode = OpcodeInjectHandler_write F (context_of addr no_read write_prepender);
           write_serialize = CmdMessageSerializeHandler_write F P (context_of addr no_read write_opcode);
           write_role = RoleInjectHandler_write (context_of addr no_read write_serialize);
           dist_ctx = context_of addr no_read write_role;
           read_dist = CommandDistributor_read (new_CommandDistributor (factory_command_manager factory)) dist_ctx;
           role_ctx = context_of addr read_dist write_serialize;
           read_role = RoleInjectHandler_read R P role_ctx;
           serialize_ctx = context_of addr read_role write_opcode;
           read_serialize = CmdMessageSerializeHandler_read F P (new_CmdMessageSerializeHandler (factory_reflection_manager factory)) serialize_ctx;
           read_opcode = OpcodeInjectHandler_read F (context_of addr read_serialize write_prepender)
       in Inr \<lparr>decoder = dec, deliver = read_opcode,
               deliver_exception = CmdMessageSerializeHandler_readException serialize_ctx,
               respond = write_role, complete = future_ready dist_ctx,
               inactive = RoleInjectHandler_transportInactive role_ctx\<rparr>))"

section \<open>Registration and checks at start\<close>

definition register_services ::
  "'c hiredis \<Rightarrow> protobuf \<Rightarrow> (role_ptr, ('addr, 'c) server, 'f) managers result" where
  "register_services R P =
     bind_res (RegisterSyncCommand CMD_LOGIN (MinigameFakeLoginService_class R P)
       (new_CommandManager, new_PbReflectionManager)) (\<lambda>(_, m).
     bind_res (RegisterSyncCommand CMD_REGISTER (MinigameRegisterService_class R P) m) (\<lambda>(_, m).
     bind_res (RegisterSyncCommand CMD_QUERY_TASK (TaskQueryService_class R P) m) (\<lambda>(_, m).
     bind_res (RegisterSyncCommand CMD_UPDATE_TASK (TaskUpdateService_class R P) m) (\<lambda>(_, m).
     bind_res (RegisterSyncCommand CMD_ERASE_ROLE (EraseRoleService_class R P) m) (\<lambda>(_, m). Inr m)))))"

definition hello_role :: RoleInfo where
  "hello_role =
     mutable_progress (\<lambda>p. p\<lparr>main_task_id := 99\<rparr>)
       (mutable_basic_info (\<lambda>b. b\<lparr>username := ''hello''\<rparr>)
         (mutable_basic_info (\<lambda>b. b\<lparr>player_id := 31\<rparr>) empty_role))"

text \<open>The last two assertions compare a value with itself.\<close>

definition prepareAndCheck :: "'c hiredis \<Rightarrow> protobuf \<Rightarrow> (('addr, 'c) server, unit) action" where
  "prepareAndCheck R P =
     bind_act (redis_cmd R ''set __password_%s %s'' [ArgS ''hello'', ArgS ''world'']) (\<lambda>reply.
       if rtype reply \<noteq> REDIS_REPLY_STATUS then raise_act AssertFail
       else bind_act (redis_cmd R ''set __role_%s %b'' [ArgS ''hello'', ArgB (SerializeToString P (MRoleInfo hello_role))]) (\<lambda>_.
         bind_act (redis_cmd R ''get __role_%s'' [ArgS ''hello'']) (\<lambda>reply.
           if rtype reply \<noteq> REDIS_REPLY_STRING then raise_act AssertFail
           else (case as_RoleInfo (snd (ParseFromArray P TRoleInfo (str reply))) of
               None \<Rightarrow> raise_act BadCast
             | Some query_role \<Rightarrow>
                 if player_id (basic_info query_role) \<noteq> player_id (basic_info query_role) then raise_act AssertFail
                 else if opt_progress query_role \<noteq> opt_progress query_role then raise_act AssertFail
                 else ret_act ()))))"

text \<open>\<open>prototest\<close> fills a login request and logs its size, which is what it returns here.\<close>

definition prototest_req :: LoginReq where
  "prototest_req = \<lparr>lq_rpcid = CMD_LOGIN, lq_account = [], lq_password = ''111111''\<rparr>"

definition prototest :: "protobuf \<Rightarrow> ('s, nat) action" where
  "prototest P = ret_act (length (SerializeToString P (MLoginReq prototest_req)))"

text \<open>
  \<open>main\<close>: the objects it creates, what it does up to the point where it listens, which leaves
  the managers its pipelines use, and listening itself, which hands the factory to the
  bootstrap. \<open>bind\<close> is the bootstrap's, which throws when the port is taken.
\<close>

definition new_server :: "('addr, 'c) server" where
  "new_server = RoleinfoManager.extend (new_RoleinfoManager new_SyncRedisWrapper) (server.fields new_TaskDataManager)"

lemma new_server_eq:
  "new_server = \<lparr>redis_ptr = None, roles = Map.empty, role_heap = [], task_manager = new_TaskDataManager\<rparr>"
  by (simp add: new_server_def new_RoleinfoManager_def new_SyncRedisWrapper_def
      RoleinfoManager.extend_def SyncRedisWrapper.extend_def server.fields_def RoleinfoManager.fields_def)

definition boot_req :: RegisterReq where
  "boot_req = \<lparr>rq_rpcid = 10, rq_account = ''2'', rq_password = ''2''\<rparr>"

definition main_boot ::
  "'c hiredis \<Rightarrow> protobuf \<Rightarrow> (('addr, 'c) server, (role_ptr, ('addr, 'c) server, 'f) managers) action" where
  "main_boot R P =
     bind_act (on_redis (Connect R ''127.0.0.1'' 6379 (1, 500000))) (\<lambda>_.
     bind_act (prepareAndCheck R P) (\<lambda>_.
     bind_act (prototest P) (\<lambda>_.
     bind_act (lift_res (register_services R P)) (\<lambda>m.
     bind_act (MinigameRegisterService R P empty_role boot_req) (\<lambda>rsp. ret_act m)))))"

definition main_server ::
  "(nat \<Rightarrow> unit result) \<Rightarrow> 'c hiredis \<Rightarrow> protobuf
     \<Rightarrow> (('addr, 'c) server, ('addr, 'c, 'f) LittleBPipelineFactory) action" where
  "main_server bind R P =
     bind_act (main_boot R P) (\<lambda>m.
       let factory = new_LittleBPipelineFactory m in
       bind_act (lift_res (bind 10002)) (\<lambda>_. ret_act factory))"

section \<open>Serving a connection\<close>

text \<open>
  Driving the decoder over the input queue: \<open>decode\<close> is called until it returns \<open>false\<close>,
  and every frame goes through the pipeline before the next call.
\<close>

inductive serve ::
  "folly \<Rightarrow> ('addr, 'c, 'f) LittlebPipeline \<Rightarrow> iobufq \<Rightarrow> ('addr, 'c, 'f) world
     \<Rightarrow> iobufq \<Rightarrow> ('addr, 'c, 'f) world \<Rightarrow> bool"
  for F L where
  serve_wait: "decode F (decoder L) q = (NeedMore, q') \<Longrightarrow> serve F L q w q' w"
| serve_exception: "decode F (decoder L) q = (FireReadException e, q') \<Longrightarrow>
    deliver_exception L e w = (Inr (), w') \<Longrightarrow> serve F L q w q' w'"
| serve_frame: "decode F (decoder L) q = (Frame f, q1) \<Longrightarrow> deliver L f w = (Inr (), w1) \<Longrightarrow>
    serve F L q1 w1 q' w' \<Longrightarrow> serve F L q w q' w'"

inductive_cases serveE: "serve F L q w q' w'"

section \<open>Lemmas: paths through the pipeline\<close>

lemma context_of_simps [simp]:
  "getPeerAddress (context_of addr r wr) = addr" "fireRead (context_of addr r wr) = r"
  "fireWrite (context_of addr r wr) = wr" "fireReadEOF (context_of addr r wr) = log_event EndReadEOF"
  "fireReadException (context_of addr r wr) = (\<lambda>e. log_event (EndReadException e))"
  by (simp_all add: context_of_def)

text \<open>The bytes of a response: length, command id plus one, message.\<close>

definition reply_bytes :: "protobuf \<Rightarrow> u32 \<Rightarrow> Message \<Rightarrow> string" where
  "reply_bytes P cmd_id m =
     (let body = le_bytes 2 (unat (cmd_id + 1) mod 65536) @ SerializeToString P m in le_bytes 2 (length body) @ body)"

definition reply_fits :: "protobuf \<Rightarrow> Message \<Rightarrow> bool" where
  "reply_fits P m \<longleftrightarrow> length (SerializeToString P m) + 2 < 65536"

definition reply_oversized :: "protobuf \<Rightarrow> Message \<Rightarrow> bool" where
  "reply_oversized P m \<longleftrightarrow> 65536 \<le> length (SerializeToString P m) + 2 \<and> length (SerializeToString P m) + 2 < 2 ^ 32"

text \<open>What the prepender throws, and the events a response leads to when its exception is lost.\<close>

definition refusals :: "error set" where
  "refusals = {RuntimeError ''Length field < 0'', RuntimeError ''length does not fit byte''}"

definition sends :: "protobuf \<Rightarrow> u32 \<Rightarrow> Message \<Rightarrow> event list \<Rightarrow> bool" where
  "sends P cmd_id m sent \<longleftrightarrow>
     (reply_fits P m \<longrightarrow> (\<exists>b. sent = [Wrote b] \<and> concat b = reply_bytes P cmd_id m)) \<and>
     (reply_oversized P m \<longrightarrow> sent = [])"

lemma RoleInjectHandler_write_eq [simp]: "RoleInjectHandler_write (context_of addr r wr) = wr"
  by (simp add: fun_eq_iff RoleInjectHandler_write_def)

lemma newPipeline_eq:
  "\<exists>L. newPipeline F P R (new_LittleBPipelineFactory m) addr = Inr L \<and> decoder L = minigame_decoder \<and>
     respond L = CmdMessageSerializeHandler_write F P (context_of addr no_read (OpcodeInjectHandler_write F
        (context_of addr no_read (LengthFieldPrepender_write F minigame_prepender
          (context_of addr no_read (\<lambda>b. log_event (Wrote b))))))) \<and>
     complete L = future_ready (context_of addr no_read (respond L)) \<and>
     deliver_exception L = (\<lambda>e. log_event (EndReadException e)) \<and>
     deliver L = (\<lambda>f. bind_act (lift_res (opcode_read F f)) (CmdMessageSerializeHandler_read F P (new_CmdMessageSerializeHandler (snd m))
        (context_of addr (RoleInjectHandler_read R P (context_of addr
           (CommandDistributor_read (new_CommandDistributor (fst m)) (context_of addr no_read (respond L))) (respond L)))
         (OpcodeInjectHandler_write F
        (context_of addr no_read (LengthFieldPrepender_write F minigame_prepender
          (context_of addr no_read (\<lambda>b. log_event (Wrote b)))))))))"
proof -
  have d: "new_LengthFieldBasedFrameDecoder PKG_LENGTH_FIELD_SIZE 65536 0 0 PKG_LENGTH_FIELD_SIZE False = Inr minigame_decoder"
    by (simp add: new_LengthFieldBasedFrameDecoder_def minigame_decoder_def PKG_LENGTH_FIELD_SIZE_def)
  have p: "new_LengthFieldPrepender PKG_LENGTH_FIELD_SIZE 0 False False = Inr minigame_prepender"
    by (simp add: new_LengthFieldPrepender_def minigame_prepender_def PKG_LENGTH_FIELD_SIZE_def)
  show ?thesis
    unfolding newPipeline_def d p
    by (simp add: Let_def fun_eq_iff OpcodeInjectHandler_read_def new_LittleBPipelineFactory_def
        CmdMessageSerializeHandler_readException_def)
qed

text \<open>What the next handlers do with a parsed message.\<close>

definition after_parse ::
  "'c hiredis \<Rightarrow> protobuf \<Rightarrow> (role_ptr, ('addr, 'c) server, 'f) managers \<Rightarrow> 'addr \<Rightarrow> ('addr, 'c, 'f) LittlebPipeline
     \<Rightarrow> CmdMessagePair \<Rightarrow> (('addr, 'c, 'f) world, unit) action" where
  "after_parse R P m addr L = RoleInjectHandler_read R P (context_of addr
     (CommandDistributor_read (new_CommandDistributor (fst m)) (context_of addr no_read (respond L))) (respond L))"

definition frame_cmd :: "string \<Rightarrow> u32" where
  "frame_cmd s = of_nat (le_val (take 2 s))"

context folly_io
begin

lemma respond_outbound:
  assumes "newPipeline F P R (new_LittleBPipelineFactory m) addr = Inr L"
  shows "respond L (cmd_id, msg) w =
    bind_act (lift_res (prepender_write F minigame_prepender [le_bytes 2 (unat (cmd_id + 1) mod 65536), SerializeToString P msg]))
      (\<lambda>b. log_event (Wrote b)) w"
  using newPipeline_eq [of F P R m addr] assms
  by (simp add: serialize_write_eq OpcodeInjectHandler_write_def opcode_write_eq LengthFieldPrepender_write_def bind_act_def
      del: le_bytes_numeral)

lemma prepender_minigame_error: "prepender_write F minigame_prepender b = Inl e \<Longrightarrow> e \<in> refusals"
  by (auto simp: prepender_write_def minigame_prepender_def Let_def fresh_writeLE refusals_def split: if_splits)

lemma prepender_minigame_fits:
  assumes "reply_fits P msg"
  shows "\<exists>b. prepender_write F minigame_prepender [le_bytes 2 (unat (cmd_id + 1) mod 65536), SerializeToString P msg] = Inr b \<and>
    concat b = reply_bytes P cmd_id msg"
proof -
  let ?b = "[le_bytes 2 (unat (cmd_id + 1) mod 65536), SerializeToString P msg]"
  have "length (concat ?b) < 65536" using assms by (simp add: reply_fits_def del: le_bytes_numeral)
  then have "map_sum id concat (prepender_write F minigame_prepender ?b) = Inr (le_bytes 2 (length (concat ?b)) @ concat ?b)"
    using prepender_refines [of minigame_prepender ?b] length_in_int_minigame [of "length (concat ?b)"]
    by (simp add: prepend_minigame del: le_bytes_numeral)
  then show ?thesis
    by (cases "prepender_write F minigame_prepender ?b")
      (auto simp: reply_bytes_def Let_def simp del: le_bytes_numeral)
qed

lemma prepender_minigame_oversized:
  assumes "reply_oversized P msg"
  shows "\<exists>e\<in>refusals. prepender_write F minigame_prepender [le_bytes 2 (unat (cmd_id + 1) mod 65536), SerializeToString P msg] = Inl e"
proof -
  let ?b = "[le_bytes 2 (unat (cmd_id + 1) mod 65536), SerializeToString P msg]"
  define n where "n = length (concat ?b)"
  have n: "65536 \<le> n" "n < 2 ^ 32"
    using assms by (simp_all add: n_def reply_oversized_def del: le_bytes_numeral)
  define len :: i32 where "len = of_nat n"
  have "unat len = n" using n(2) by (simp add: len_def unat_of_nat take_bit_nat_eq_self)
  moreover have "uint len = sint len" if "0 \<le> sint len"
    using that sint_lt [of len] by (simp add: uint_sint take_bit_int_eq_self)
  ultimately have "0 \<le> sint len \<Longrightarrow> 65536 \<le> sint len"
    using n(1) by (metis of_nat_le_iff of_nat_numeral of_nat_unat)
  moreover have "(ucast (of_nat n :: u64) :: i32) = len"
    using ucast_word_of_int_u64 [of "int n"] by (simp add: len_def)
  ultimately show ?thesis
    by (simp add: prepender_write_def minigame_prepender_def Let_def computeChainDataLength n_def [symmetric] refusals_def
        del: le_bytes_numeral concat.simps length_concat)
qed

lemma respond_eq:
  assumes "newPipeline F P R (new_LittleBPipelineFactory m) addr = Inr L" and "reply_fits P msg"
  shows "\<exists>b. concat b = reply_bytes P cmd_id msg \<and>
       (\<forall>w. respond L (cmd_id, msg) w = (Inr (), w\<lparr>trace := trace w @ [Wrote b]\<rparr>))"
  using prepender_minigame_fits [OF assms(2), of cmd_id] respond_outbound [OF assms(1)]
  by (auto simp: log_event_def)

text \<open>What a continuation leaves on the wire: one frame, or nothing when the prepender refuses it.\<close>

lemma in_future_respond:
  assumes "newPipeline F P R (new_LittleBPipelineFactory m) addr = Inr L"
  shows "\<exists>sent. in_future (respond L (cmd_id, msg)) w = (Inr (), w\<lparr>trace := trace w @ sent\<rparr>) \<and> sends P cmd_id msg sent"
proof -
  let ?b = "[le_bytes 2 (unat (cmd_id + 1) mod 65536), SerializeToString P msg]"
  show ?thesis
  proof (cases "prepender_write F minigame_prepender ?b")
    case (Inl e)
    then have "is_exception e" by (auto simp: refusals_def dest!: prepender_minigame_error)
    moreover have "\<not> reply_fits P msg" using prepender_minigame_fits [of P msg cmd_id] Inl by auto
    ultimately show ?thesis using respond_outbound [OF assms, of cmd_id msg w] Inl
      by (intro exI [of _ "[]"]) (auto simp: sends_def intro: in_future_thrown)
  next
    case (Inr b)
    moreover have "\<not> reply_oversized P msg" using prepender_minigame_oversized [of P msg cmd_id] Inr by force
    ultimately show ?thesis
      using respond_outbound [OF assms, of cmd_id msg w] prepender_minigame_fits [of P msg cmd_id]
      by (intro exI [of _ "[Wrote b]"]) (auto simp: sends_def log_event_def)
  qed
qed

lemma deliver_eq:
  assumes "newPipeline F P R (new_LittleBPipelineFactory m) addr = Inr L" and "2 \<le> length s"
  shows "deliver L (s # ss) w =
     (case reflection_data (snd m) (frame_cmd s) of
        None \<Rightarrow> (Inr (), w)
      | Some d \<Rightarrow> (case ParseFromArray P (request_proto d) (drop 2 s) of (ok, pb) \<Rightarrow>
          if ok then after_parse R P m addr L (frame_cmd s, pb) w
          else (Inr (), w\<lparr>trace := trace w @ [EndReadEOF]\<rparr>)))"
  using newPipeline_eq [of F P R m addr] assms
  by (auto simp: opcode_read_head after_parse_def frame_cmd_def CmdMessageSerializeHandler_read_def Let_def
      IsValidCmd_def GetRequestReflection_def io_data log_event_def split: option.splits prod.splits)

text \<open>A frame without the bytes of a command id ends the call of \<open>read\<close> at the opcode handler.\<close>

lemma deliver_no_opcode:
  assumes "newPipeline F P R (new_LittleBPipelineFactory m) addr = Inr L" and "opcode_read F msg = Inl e"
  shows "deliver L msg w = (Inl e, w)"
  using newPipeline_eq [of F P R m addr] assms by (auto simp: bind_act_def)

text \<open>A frame the codec put on the wire is what the decoder of the pipeline delivers.\<close>

lemma pipeline_frame:
  assumes "newPipeline F P R (new_LittleBPipelineFactory m) addr = Inr L" and "length body \<le> 65534"
    and "concat q = le_bytes 2 (length body) @ body @ rest"
  shows "\<exists>f q1. decode F (decoder L) q = (Frame f, q1) \<and> concat f = body \<and> concat q1 = rest"
proof -
  have "decoder L = minigame_decoder"
    using newPipeline_eq [of F P R m addr] assms(1) by auto
  moreover have "flat (decode F minigame_decoder q) = (Frame body, rest)"
    using decode_refines [OF supported_minigame field_fits_minigame] minigame.dec_enc [OF assms(2), of rest]
    by (simp add: assms(3) del: le_bytes_numeral)
  ultimately show ?thesis
    by (cases "decode F minigame_decoder q") (auto simp: flat_eq_iff)
qed

end

lemma serve_stuck:
  assumes "decode F (decoder L) q = (Frame f, q1)" and "deliver L f w = (Inl e, w1)"
  shows "\<not> serve F L q w q' w'"
  using assms by (auto elim: serveE)

section \<open>Lemmas: the registered services\<close>

lemma register_services_eq:
  "register_services R P = Inr
     (\<lparr>sync_services = [
         CMD_LOGIN \<mapsto> SyncServiceClassDecorator (MinigameFakeLoginService_class R P),
         CMD_REGISTER \<mapsto> SyncServiceClassDecorator (MinigameRegisterService_class R P),
         CMD_QUERY_TASK \<mapsto> SyncServiceClassDecorator (TaskQueryService_class R P),
         CMD_UPDATE_TASK \<mapsto> SyncServiceClassDecorator (TaskUpdateService_class R P),
         CMD_ERASE_ROLE \<mapsto> SyncServiceClassDecorator (EraseRoleService_class R P)],
       async_services = Map.empty\<rparr>,
      \<lparr>reflection_data = [
         CMD_LOGIN \<mapsto> \<lparr>request_proto = TLoginReq, response_proto = TLoginRsp\<rparr>,
         CMD_REGISTER \<mapsto> \<lparr>request_proto = TRegisterReq, response_proto = TRegisterRsp\<rparr>,
         CMD_QUERY_TASK \<mapsto> \<lparr>request_proto = TTaskQueryReq, response_proto = TTaskQueryRsp\<rparr>,
         CMD_UPDATE_TASK \<mapsto> \<lparr>request_proto = TTaskUpdateReq, response_proto = TTaskUpdateRsp\<rparr>,
         CMD_ERASE_ROLE \<mapsto> \<lparr>request_proto = TEraseRoleReq, response_proto = TEraseRoleRsp\<rparr>]\<rparr>)"
  unfolding register_services_def registry_defs CommandManager_IsValidCmd_def cmd_ids
    new_CommandManager_def new_PbReflectionManager_def
  by (simp, simp add: service_classes)

lemma keeps_decorated:
  assumes "\<And>S role req. keeps I (operator_call T S role req)"
  shows "keeps I (SyncServiceClassDecorator T role req)"
proof (rule keepsI)
  fix S assume S: "I S"
  have "keeps I (bind_act (operator_call T S role q) (\<lambda>r. ret_act (response_message T r)))" for q
    using assms by (auto intro!: keeps_bind)
  from keepsD [OF this S] show "I (snd (SyncServiceClassDecorator T role req S))"
    using S by (simp add: SyncServiceClassDecorator_def split: option.splits)
qed

section \<open>Lemmas: what every frame keeps\<close>

definition services_keep :: "('s \<Rightarrow> bool) \<Rightarrow> ('r, 's, 'f) CommandManager \<Rightarrow> bool" where
  "services_keep I C \<longleftrightarrow>
     (\<forall>cmd f role req. sync_services C cmd = Some f \<longrightarrow> keeps I (f role req)) \<and>
     (\<forall>cmd f role req. async_services C cmd = Some f \<longrightarrow> keeps I (f role req))"

lemma keeps_log [intro!]: "keeps (\<lambda>w. I (shared w)) (log_event e)"
  by (simp add: keeps_def log_event_def)

lemma keeps_run:
  "services_keep I C \<Longrightarrow> keeps I (RunSyncService C cmd role req)"
  "services_keep I C \<Longrightarrow> keeps I (RunAsyncService C cmd role req)"
  by (auto simp: services_keep_def RunSyncService_def RunAsyncService_def split: option.splits)

lemma keeps_respond:
  assumes "newPipeline F P R (new_LittleBPipelineFactory m) addr = Inr L"
  shows "keeps (\<lambda>w. I (shared w)) (respond L msg)"
  using newPipeline_eq [of F P R m addr] assms
  by (auto simp: CmdMessageSerializeHandler_write_def OpcodeInjectHandler_write_def LengthFieldPrepender_write_def Let_def
      intro!: keeps_bind)

lemma keeps_distribute:
  assumes "newPipeline F P R (new_LittleBPipelineFactory m) addr = Inr L" and "services_keep I C"
  shows "keeps (\<lambda>w. I (shared w)) (CommandDistributor_read (new_CommandDistributor C) (context_of addr r (respond L)) msg)"
proof -
  have "keeps (\<lambda>w. I (shared w)) (\<lambda>w. (Inr (), w\<lparr>pending := f w\<rparr>))" for f
    by (simp add: keeps_def)
  then show ?thesis
    using keeps_respond [OF assms(1)] keeps_run [OF assms(2)]
    by (auto simp: CommandDistributor_read_def Let_def split: prod.splits Future.split intro!: keeps_bind)
qed

lemma serve_keeps:
  assumes "serve F L q w q' w'" and "\<And>f. keeps I (deliver L f)" and "\<And>e. keeps I (deliver_exception L e)" and "I w"
  shows "I w'"
  using assms
proof (induction rule: serve.induct)
  case (serve_exception q e q' w w')
  then show ?case using keepsD [of I "deliver_exception L e" w] by simp
next
  case (serve_frame q f q1 w w1 q' w')
  then show ?case using keepsD [of I "deliver L f" w] by simp
qed

text \<open>An invariant that also survives a login binding the peer's role.\<close>

locale frame_inv = server_inv I for I :: "('addr, 'c) server \<Rightarrow> bool" +
  assumes keeps_login_binding [intro!]: "keeps I (pull_and_add R P u a)"
begin

lemma services_keep_inv: "register_services R P = Inr m \<Longrightarrow> services_keep I (fst m)"
  unfolding register_services_eq services_keep_def
  by (auto split: if_splits intro!: keeps_decorated simp: service_classes)

lemma keeps_after_parse:
  assumes "newPipeline F P R (new_LittleBPipelineFactory m) addr = Inr L" and "services_keep I (fst m)"
  shows "keeps (\<lambda>w. I (shared w)) (after_parse R P m addr L msg)"
proof -
  have "keeps I (\<lambda>S. (Inr (GetRole addr S), S))"
    by (simp add: keeps_def)
  then show ?thesis
    using keeps_respond [OF assms(1)] keeps_distribute [OF assms]
    by (auto simp: after_parse_def RoleInjectHandler_read_def Let_def split: option.splits intro!: keeps_bind)
qed

lemma keeps_deliver:
  assumes "newPipeline F P R (new_LittleBPipelineFactory m) addr = Inr L" and "services_keep I (fst m)"
  shows "keeps (\<lambda>w. I (shared w)) (deliver L f)"
  using newPipeline_eq [of F P R m addr] assms(1) keeps_after_parse [OF assms]
  by (auto simp: after_parse_def [symmetric] CmdMessageSerializeHandler_read_def Let_def split: prod.splits
      intro!: keeps_bind)

lemma serve_keeps_inv:
  assumes "register_services R P = Inr m" and "newPipeline F P R (new_LittleBPipelineFactory m) addr = Inr L"
    and "serve F L q w q' w'" and "I (shared w)"
  shows "I (shared w')"
proof (rule serve_keeps [OF assms(3), of "\<lambda>w. I (shared w)"])
  show "keeps (\<lambda>w. I (shared w)) (deliver L f)" for f
    by (rule keeps_deliver [OF assms(2) services_keep_inv [OF assms(1)]])
  show "keeps (\<lambda>w. I (shared w)) (deliver_exception L e)" for e
    using newPipeline_eq [of F P R m addr] assms(2) by auto
qed (rule assms(4))

end

text \<open>Two such invariants: a well-formed role table, and an address that is bound to a role.\<close>

definition bound :: "'addr \<Rightarrow> role_ptr \<Rightarrow> ('addr, 'c) server \<Rightarrow> bool" where
  "bound a p S \<longleftrightarrow> roles S a = Some p"

interpretation roles_frame: frame_inv roles_ok
  by unfold_locales (rule keeps_pull_and_add)

interpretation bound_inv: server_inv "bound a p" for a p
proof
  show "keeps (bound a p) (redis_cmd R f as)" for R f as
    by (rule keepsI) (simp add: bound_def)
  show "keeps (bound a p) (write_role q f)" for q f
    by (rule keepsI) (simp add: bound_def write_role_def)
  show "keeps (bound a p) (make_shared r)" for r
    by (rule keepsI) (simp add: bound_def make_shared_def)
qed

interpretation bound_frame: frame_inv "bound a p" for a p
proof
  have "keeps (bound a p) (\<lambda>S. map_prod Inr id (AddRole b q S))" for b q
    by (rule keepsI) (auto simp: bound_def role_tab.lookup_insert split: option.splits)
  then have "keeps (bound a p) (\<lambda>S. case q of None \<Rightarrow> (Inr False, S) | Some q \<Rightarrow> map_prod Inr id (AddRole b q S))" for b q
    by (cases q) (simp_all add: keeps_def)
  then show "keeps (bound a p) (pull_and_add R P u b)" for R P u b
    unfolding pull_and_add_def by (intro keeps_bind bound_inv.keeps_Pull)
qed

text \<open>The third: the contents of the shared task cache.\<close>

definition cached :: "TaskDataManager \<Rightarrow> ('addr, 'c) server \<Rightarrow> bool" where
  "cached T S \<longleftrightarrow> task_manager S = T"

interpretation cache_inv: server_inv "cached T" for T
proof
  show "keeps (cached T) (redis_cmd R f as)" for R f as
    by (rule keepsI) (simp add: cached_def)
  show "keeps (cached T) (write_role q f)" for q f
    by (rule keepsI) (simp add: cached_def write_role_def)
  show "keeps (cached T) (make_shared r)" for r
    by (rule keepsI) (simp add: cached_def make_shared_def)
qed

interpretation cache_frame: frame_inv "cached T" for T
proof
  have "keeps (cached T) (\<lambda>S. map_prod Inr id (AddRole b q S))" for b q
    by (rule keepsI) (simp add: cached_def AddRole_def split: option.splits)
  then have "keeps (cached T) (\<lambda>S. case q of None \<Rightarrow> (Inr False, S) | Some q \<Rightarrow> map_prod Inr id (AddRole b q S))" for b q
    by (cases q) (simp_all add: keeps_def)
  then show "keeps (cached T) (pull_and_add R P u b)" for R P u b
    unfolding pull_and_add_def by (intro keeps_bind cache_inv.keeps_Pull)
qed

text \<open>Deterministic: what a queue leads to is fixed.\<close>

lemma serve_deterministic: "serve F L q w q1 w1 \<Longrightarrow> serve F L q w q2 w2 \<Longrightarrow> q1 = q2 \<and> w1 = w2"
proof (induction arbitrary: q2 w2 rule: serve.induct)
  case (serve_wait q q' w)
  from serve_wait.prems show ?case
    by cases (simp_all add: serve_wait.hyps)
next
  case (serve_exception q e q' w w')
  from serve_exception.prems show ?case
    by cases (simp_all add: serve_exception.hyps)
next
  case (serve_frame q f q1 w w1 q' w')
  from serve_frame.prems show ?case
  proof cases
    case (serve_frame f' q1' w1')
    with serve_frame.hyps have "q1' = q1" "w1' = w1" by simp_all
    with serve_frame serve_frame.IH show ?thesis by simp
  qed (simp_all add: serve_frame.hyps)
qed

section \<open>Properties\<close>

text \<open>
  The role table of the server stays well formed whatever a client sends. Serving any
  bytes on a connection of the booted server, whatever the database answers, keeps every
  pointer in the table valid and unshared.
\<close>

lemma serving_keeps_roles_ok:
  assumes "register_services R P = Inr m" and "newPipeline F P R (new_LittleBPipelineFactory m) addr = Inr L"
    and "serve F L q w q' w'" and "roles_ok (shared w)"
  shows "roles_ok (shared w')"
  by (rule roles_frame.serve_keeps_inv [OF assms])

text \<open>
  A login is for ever. Once a peer's address is bound to a role object, nothing the
  clients send unbinds or rebinds it: a second login under another name, or an erased role,
  leaves the address with the object of the first login.
\<close>

lemma bound_address_stays_bound:
  assumes "register_services R P = Inr m" and "newPipeline F P R (new_LittleBPipelineFactory m) addr = Inr L"
    and "serve F L q w q' w'" and "roles (shared w) a = Some p"
  shows "roles (shared w') a = Some p"
  using bound_frame.serve_keeps_inv [OF assms(1-3), of a p] assms(4) by (simp add: bound_def)

text \<open>
  The shared task cache is never filled. The task services work on copies of the task
  manager, so serving any bytes leaves the shared one as it was: empty on a server that
  started, which is why repeated queries and updates always go to the database.
\<close>

lemma task_cache_stays_as_it_was:
  assumes "register_services R P = Inr m" and "newPipeline F P R (new_LittleBPipelineFactory m) addr = Inr L" and "serve F L q w q' w'"
  shows "task_manager (shared w') = task_manager (shared w)"
  using cache_frame.serve_keeps_inv [OF assms, of "task_manager (shared w)"] by (simp add: cached_def)

text \<open>
  C36: a frame that does not hold the command id escapes the pipeline. The decoder delivers
  whatever a length field announces. A frame of 0 or 1 bytes makes the cursor of the opcode
  handler throw \<open>std::out_of_range\<close>, and a longer one whose first buffer has fewer than 2 bytes
  makes \<open>trimStart\<close> move past the end of that buffer; no handler catches this, nothing is
  sent, and serving the bytes does not come to an end. Any other frame gives the 16-bit little
  endian command id, and the message behind it in the same buffers.
\<close>

theorem short_frame_escapes_the_pipeline:
  assumes "folly_io F" and "newPipeline F P R (new_LittleBPipelineFactory m) addr = Inr L" and "length body \<le> 65534"
    and "concat q = le_bytes 2 (length body) @ body @ rest"
  shows "\<exists>f q1. decode F (decoder L) q = (Frame f, q1) \<and> concat f = body \<and> concat q1 = rest \<and>
    (length body < 2 \<longrightarrow> deliver L f w = (Inl OutOfRange, w) \<and> (\<nexists>q' w'. serve F L q w q' w')) \<and>
    (\<forall>s ss. f = s # ss \<longrightarrow> length s < 2 \<longrightarrow> 2 \<le> length body \<longrightarrow>
       deliver L f w = (Inl (UndefinedBehaviour ''trimStart beyond the first buffer''), w) \<and> (\<nexists>q' w'. serve F L q w q' w')) \<and>
    (\<forall>s ss. f = s # ss \<longrightarrow> 2 \<le> length s \<longrightarrow>
       opcode_read F f = Inr (of_nat (of_char (body ! 0) + 256 * of_char (body ! 1)), drop 2 s # ss))"
proof -
  obtain f q1 where f: "decode F (decoder L) q = (Frame f, q1)" "concat f = body" "concat q1 = rest"
    using folly_io.pipeline_frame [OF assms] by blast
  note escapes = folly_io.deliver_no_opcode [OF assms(1,2)]
  have "deliver L f w = (Inl OutOfRange, w)" if "length body < 2"
    using escapes [OF folly_io.opcode_read_short [OF assms(1)]] that f(2) by simp
  moreover have "deliver L f w = (Inl (UndefinedBehaviour ''trimStart beyond the first buffer''), w)"
    if "f = s # ss" "length s < 2" "2 \<le> length body" for s ss
    using escapes [OF folly_io.opcode_read_cut [OF assms(1)]] that f(2) by blast
  moreover have "opcode_read F f = Inr (of_nat (of_char (body ! 0) + 256 * of_char (body ! 1)), drop 2 s # ss)"
    if s: "f = s # ss" "2 \<le> length s" for s ss
  proof -
    obtain a b t where "s = a # b # t"
      using s(2) by (metis Suc_le_length_iff numeral_2_eq_2)
    with folly_io.opcode_read_head [OF assms(1) s(2), of ss] f(2) s(1) show ?thesis by auto
  qed
  ultimately show ?thesis
    using f serve_stuck [OF f(1), of w] by (intro exI [of _ f] exI [of _ q1]) blast
qed

text \<open>
  C35: a frame with a command id nobody registered is dropped: there is no response, and
  neither the connection nor the server state changes.
\<close>

theorem unknown_command_is_dropped:
  assumes "folly_io F" and "newPipeline F P R (new_LittleBPipelineFactory m) addr = Inr L" and "2 \<le> length s"
    and "\<not> IsValidCmd (frame_cmd s) (snd m)"
  shows "deliver L (s # ss) w = (Inr (), w)"
  using folly_io.deliver_eq [OF assms(1-3), of ss w] assms(4) by (simp add: IsValidCmd_def)

text \<open>
  C34: only the first buffer of a frame counts. When a frame arrives as a chain of several
  buffers, everything behind the first one is ignored, so a message that the network cut
  in two is parsed as if it ended at the cut.
\<close>

theorem later_buffers_are_ignored:
  assumes "folly_io F" and "newPipeline F P R (new_LittleBPipelineFactory m) addr = Inr L" and "2 \<le> length s"
  shows "deliver L (s # ss) w = deliver L [s] w"
  by (simp only: folly_io.deliver_eq [OF assms])

text \<open>
  C9: dispatch of a synchronous command. A frame of a command other than login and
  register, whose message parses, runs the registered service once, with the role bound to
  the peer's address or a new empty one, and the response goes out as one frame with the
  command id plus one; the table of roles is what the service left.
\<close>

theorem sync_command_is_answered:
  assumes "folly_io F" and "newPipeline F P R (new_LittleBPipelineFactory m) addr = Inr L" and "2 \<le> length s"
    and "frame_cmd s \<noteq> CMD_LOGIN" and "frame_cmd s \<noteq> CMD_REGISTER"
    and "reflection_data (snd m) (frame_cmd s) = Some d" and "sync_services (fst m) (frame_cmd s) = Some f"
    and "ParseFromArray P (request_proto d) (drop 2 s) = (True, req)"
    and "p = (case roles (shared w) addr of Some p \<Rightarrow> p | None \<Rightarrow> length (role_heap (shared w)))"
    and "f p req (case roles (shared w) addr of Some _ \<Rightarrow> shared w
       | None \<Rightarrow> (shared w)\<lparr>role_heap := role_heap (shared w) @ [empty_role]\<rparr>) = (Inr rsp, S')"
    and "reply_fits P rsp"
  shows "\<exists>b. deliver L [s] w = (Inr (), w\<lparr>shared := S', trace := trace w @ [Wrote b]\<rparr>) \<and>
    concat b = reply_bytes P (frame_cmd s) rsp"
proof -
  obtain b where b: "concat b = reply_bytes P (frame_cmd s) rsp"
      "\<And>w. respond L (frame_cmd s, rsp) w = (Inr (), w\<lparr>trace := trace w @ [Wrote b]\<rparr>)"
    using folly_io.respond_eq [OF assms(1,2,11)] by blast
  have "deliver L [s] w = after_parse R P m addr L (frame_cmd s, req) w"
    using folly_io.deliver_eq [OF assms(1-3), of "[]" w] assms(6,8) by simp
  also have "\<dots> = (Inr (), w\<lparr>shared := S', trace := trace w @ [Wrote b]\<rparr>)"
    using assms(4,5,7,9,10) b(2)
    by (cases "roles (shared w) addr")
      (simp_all add: after_parse_def RoleInjectHandler_read_def CommandDistributor_read_def Let_def GetRole_def
        make_shared_def RunSyncService_def CommandManager_IsValidCmd_def IsSyncCmd_def)
  finally show ?thesis using b(1) by blast
qed

text \<open>
  C31: an asynchronous command is answered at most once. Take a frame in one buffer of a
  command other than login and register that is registered as asynchronous, whose message
  parses; it runs the registered service once, with the role bound to the peer's address or a
  new empty one. The service may throw itself; if it returns a future that has its response already, as that of \<open>folly::makeFuture\<close> does, the response goes out with
  the frame, under the command id plus one; if the future holds an exception nothing is sent;
  otherwise nothing is sent yet and one continuation waits, which sends the response when it
  arrives, sends nothing when an exception arrives, and is gone in both cases. A response that
  is too long for a frame (and shorter than four gigabytes, where its length wraps) is lost
  without an error in both ways.
\<close>

theorem async_command_is_answered:
  assumes "folly_io F" and "newPipeline F P R (new_LittleBPipelineFactory m) addr = Inr L" and "2 \<le> length s"
    and "frame_cmd s \<noteq> CMD_LOGIN" and "frame_cmd s \<noteq> CMD_REGISTER" and "in_sync m"
    and "reflection_data (snd m) (frame_cmd s) = Some d" and "async_services (fst m) (frame_cmd s) = Some f"
    and "ParseFromArray P (request_proto d) (drop 2 s) = (True, req)"
    and "p = (case roles (shared w) addr of Some p \<Rightarrow> p | None \<Rightarrow> length (role_heap (shared w)))"
    and "f p req (case roles (shared w) addr of Some _ \<Rightarrow> shared w
       | None \<Rightarrow> (shared w)\<lparr>role_heap := role_heap (shared w) @ [empty_role]\<rparr>) = (Inr fut, S')"
  shows "case fut of
      Ready rsp \<Rightarrow> \<exists>sent. deliver L [s] w = (Inr (), w\<lparr>shared := S', trace := trace w @ sent\<rparr>) \<and>
        sends P (frame_cmd s) rsp sent
    | Failed \<Rightarrow> deliver L [s] w = (Inr (), w\<lparr>shared := S'\<rparr>)
    | Pending h \<Rightarrow> \<exists>w1. deliver L [s] w = (Inr (), w1) \<and> w1 = w\<lparr>shared := S', pending := pending w @ [(h, frame_cmd s)]\<rparr> \<and>
        (\<forall>rsp. \<exists>sent. complete L (length (pending w)) (Some rsp) w1 = (Inr (), w\<lparr>shared := S', trace := trace w @ sent\<rparr>) \<and>
           sends P (frame_cmd s) rsp sent) \<and>
        complete L (length (pending w)) None w1 = (Inr (), w\<lparr>shared := S'\<rparr>)"
proof -
  note send = folly_io.in_future_respond [OF assms(1,2), of "frame_cmd s"]
  have "sync_services (fst m) (frame_cmd s) = None"
    using assms(6,8) by (auto simp: in_sync_def IsSyncCmd_def IsAsyncCmd_def)
  then have "after_parse R P m addr L (frame_cmd s, req) w = (case fut of
      Ready rsp \<Rightarrow> in_future (respond L (frame_cmd s, rsp)) | Failed \<Rightarrow> ret_act ()
    | Pending h \<Rightarrow> (\<lambda>w. (Inr (), w\<lparr>pending := pending w @ [(h, frame_cmd s)]\<rparr>))) (w\<lparr>shared := S'\<rparr>)"
    using assms(4,5,8,10,11)
    by (cases "roles (shared w) addr")
      (simp_all add: after_parse_def RoleInjectHandler_read_def CommandDistributor_read_def Let_def GetRole_def
        make_shared_def RunAsyncService_def CommandManager_IsValidCmd_def IsSyncCmd_def IsAsyncCmd_def split: Future.split)
  then have deliver: "deliver L [s] w = (case fut of
      Ready rsp \<Rightarrow> in_future (respond L (frame_cmd s, rsp)) | Failed \<Rightarrow> ret_act ()
    | Pending h \<Rightarrow> (\<lambda>w. (Inr (), w\<lparr>pending := pending w @ [(h, frame_cmd s)]\<rparr>))) (w\<lparr>shared := S'\<rparr>)"
    using folly_io.deliver_eq [OF assms(1-3), of "[]" w] assms(7,9) by simp
  have complete: "complete L = future_ready (context_of addr no_read (respond L))"
    using newPipeline_eq [of F P R m addr] assms(2) by auto
  show ?thesis
  proof (cases fut)
    case (Ready rsp)
    with deliver send [of rsp "w\<lparr>shared := S'\<rparr>"] show ?thesis by auto
  next
    case (Pending h)
    let ?w = "w\<lparr>shared := S', pending := pending w @ [(h, frame_cmd s)]\<rparr>"
    have "\<exists>sent. complete L (length (pending w)) (Some rsp) ?w = (Inr (), w\<lparr>shared := S', trace := trace w @ sent\<rparr>) \<and>
        sends P (frame_cmd s) rsp sent" for rsp
      using send [of rsp "w\<lparr>shared := S'\<rparr>"] by (auto simp: complete future_ready_def)
    moreover have "complete L (length (pending w)) None ?w = (Inr (), w\<lparr>shared := S'\<rparr>)"
      by (simp add: complete future_ready_def)
    ultimately show ?thesis using deliver Pending by simp
  qed (use deliver in simp)
qed

section \<open>Witnesses\<close>

definition world0 :: "(nat, string \<Rightarrow> string option, nat) world" where
  "world0 = \<lparr>shared = server0\<lparr>roles := [5 \<mapsto> 0], role_heap := [empty_role]\<rparr>, trace = [], pending = []\<rparr>"

text \<open>A booted server and its pipeline exist for every environment.\<close>

lemma pipeline_exists:
  obtains m L where "register_services R P = Inr m" and "newPipeline F P R (new_LittleBPipelineFactory m) addr = Inr L"
    and "decoder L = minigame_decoder"
  using newPipeline_eq [of F P R _ addr] register_services_eq by metis

lemma login_register_fit [simp]: "reply_fits protobuf_ref (MLoginRsp r)" "reply_fits protobuf_ref (MRegisterRsp r')"
  by (simp_all add: reply_fits_def protobuf_ref_def put_u32_def)

text \<open>A frame with the unknown command 255.\<close>

definition unknown_frame :: string where
  "unknown_frame = [CHR 0xFF, CHR 0x00]"

theorem unknown_command_is_dropped_witness:
  "\<exists>m L. register_services redis_ref protobuf_ref = Inr m \<and> newPipeline folly_ref protobuf_ref redis_ref (new_LittleBPipelineFactory m) 5 = Inr L \<and>
     deliver L [unknown_frame] world0 = (Inr (), world0)"
proof (rule pipeline_exists [of redis_ref protobuf_ref folly_ref 5])
  fix m :: "(role_ptr, (nat, string \<Rightarrow> string option) server, nat) managers" and L
  assume m: "register_services redis_ref protobuf_ref = Inr m" "newPipeline folly_ref protobuf_ref redis_ref (new_LittleBPipelineFactory m) 5 = Inr L"
  have "\<not> IsValidCmd (frame_cmd unknown_frame) (snd m)"
    using m(1) unfolding register_services_eq
    by (auto simp: IsValidCmd_def frame_cmd_def unknown_frame_def cmd_ids)
  from unknown_command_is_dropped [OF folly_ref_laws(1) m(2) _ this] m show ?thesis
    by (auto simp: unknown_frame_def)
qed

theorem short_frame_escapes_the_pipeline_witness:
  "\<exists>m L f q1. register_services redis_ref protobuf_ref = Inr m \<and> newPipeline folly_ref protobuf_ref redis_ref (new_LittleBPipelineFactory m) 5 = Inr L \<and>
     decode folly_ref (decoder L) [[CHR 0x01, CHR 0x00, CHR ''x'']] = (Frame f, q1) \<and>
     deliver L f world0 = (Inl OutOfRange, world0) \<and> (\<nexists>q' w'. serve folly_ref L [[CHR 0x01, CHR 0x00, CHR ''x'']] world0 q' w')"
proof (rule pipeline_exists [of redis_ref protobuf_ref folly_ref 5])
  fix m :: "(role_ptr, (nat, string \<Rightarrow> string option) server, nat) managers" and L
  assume m: "register_services redis_ref protobuf_ref = Inr m" "newPipeline folly_ref protobuf_ref redis_ref (new_LittleBPipelineFactory m) 5 = Inr L"
  have "concat [[CHR 0x01, CHR 0x00, CHR ''x'']] = le_bytes 2 (length ''x'') @ ''x'' @ []" by (simp add: byte_eval)
  from short_frame_escapes_the_pipeline [OF folly_ref_laws(1) m(2) _ this, of world0] obtain f q1 where
    "decode folly_ref (decoder L) [[CHR 0x01, CHR 0x00, CHR ''x'']] = (Frame f, q1)" "deliver L f world0 = (Inl OutOfRange, world0)"
      "\<nexists>q' w'. serve folly_ref L [[CHR 0x01, CHR 0x00, CHR ''x'']] world0 q' w'"
    by auto
  with m show ?thesis by blast
qed

theorem later_buffers_are_ignored_witness:
  "\<exists>m L. register_services redis_ref protobuf_ref = Inr m \<and> newPipeline folly_ref protobuf_ref redis_ref (new_LittleBPipelineFactory m) 5 = Inr L \<and>
     deliver L [[CHR 0x69, CHR 0x00], ''rest''] world0 = deliver L [[CHR 0x69, CHR 0x00]] world0"
proof (rule pipeline_exists [of redis_ref protobuf_ref folly_ref 5])
  fix m :: "(role_ptr, (nat, string \<Rightarrow> string option) server, nat) managers" and L
  assume m: "register_services redis_ref protobuf_ref = Inr m" "newPipeline folly_ref protobuf_ref redis_ref (new_LittleBPipelineFactory m) 5 = Inr L"
  from later_buffers_are_ignored [OF folly_ref_laws(1) m(2), of "[CHR 0x69, CHR 0x00]" "[''rest'']" world0] m show ?thesis
    by auto
qed

text \<open>A task query of the player without progress behind \<open>world0\<close>.\<close>

definition query_frame :: string where
  "query_frame = [CHR 0x69, CHR 0x00] @ SerializeToString protobuf_ref (MTaskQueryReq \<lparr>tq_rpcid = 5\<rparr>)"

definition query_error :: TaskQueryRsp where
  "query_error = \<lparr>tqr_rpcid = 5, tqr_error = 200001, tqr_message = ''UNKOWN_EORROR'', done_tasks = [],
     tqr_position_x = Finite 0, tqr_position_y = Finite 0\<rparr>"

lemma query_frame_facts:
  "2 \<le> length query_frame" "frame_cmd query_frame = CMD_QUERY_TASK"
  "ParseFromArray protobuf_ref TTaskQueryReq (drop 2 query_frame) = (True, MTaskQueryReq \<lparr>tq_rpcid = 5\<rparr>)"
  "reply_fits protobuf_ref (MTaskQueryRsp query_error)"
  using parse_ref_serialize [of "MTaskQueryReq \<lparr>tq_rpcid = 5\<rparr>"]
  by (simp_all add: query_frame_def frame_cmd_def cmd_ids protobuf_ref_def wf_msg_def reply_fits_def query_error_def
      put_u32_def)

lemma world0_query:
  "\<exists>S'. task_query redis_ref protobuf_ref 0 \<lparr>tq_rpcid = 5\<rparr> (shared world0) = (Inr query_error, S')"
proof -
  have "db_connected (\<lambda>_. True) (shared world0)" "task_manager (shared world0) = new_TaskDataManager"
      "0 < length (role_heap (shared world0))"
      "task_view (\<lambda>m. m) protobuf_ref (shared world0) (player (shared world0) 0) = None"
    by (simp_all add: world0_def server0_def db_connected_def task_view_def db_def)
  from env_ref.query_unknown [OF this, of "\<lparr>tq_rpcid = 5\<rparr>"] show ?thesis by (auto simp: query_error_def)
qed

theorem sync_command_is_answered_witness:
  "\<exists>m L b S'. register_services redis_ref protobuf_ref = Inr m \<and> newPipeline folly_ref protobuf_ref redis_ref (new_LittleBPipelineFactory m) 5 = Inr L \<and>
     deliver L [query_frame] world0 = (Inr (), world0\<lparr>shared := S', trace := [Wrote b]\<rparr>) \<and>
     concat b = reply_bytes protobuf_ref CMD_QUERY_TASK (MTaskQueryRsp query_error)"
proof (rule pipeline_exists [of redis_ref protobuf_ref folly_ref 5])
  fix m :: "(role_ptr, (nat, string \<Rightarrow> string option) server, nat) managers" and L
  assume m: "register_services redis_ref protobuf_ref = Inr m" "newPipeline folly_ref protobuf_ref redis_ref (new_LittleBPipelineFactory m) 5 = Inr L"
  let ?f = "SyncServiceClassDecorator (TaskQueryService_class redis_ref protobuf_ref)"
  have lookup: "reflection_data (snd m) (frame_cmd query_frame) = Some \<lparr>request_proto = TTaskQueryReq, response_proto = TTaskQueryRsp\<rparr>"
      "sync_services (fst m) (frame_cmd query_frame) = Some ?f"
    using m(1) unfolding register_services_eq query_frame_facts(2) by (auto simp: cmd_ids)
  obtain S' where "task_query redis_ref protobuf_ref 0 \<lparr>tq_rpcid = 5\<rparr> (shared world0) = (Inr query_error, S')"
    using world0_query by blast
  then have run: "?f 0 (MTaskQueryReq \<lparr>tq_rpcid = 5\<rparr>) (shared world0) = (Inr (MTaskQueryRsp query_error), S')"
    by (simp add: SyncServiceClassDecorator_def TaskQueryService_class_def as_TaskQueryReq_def task_query_def)
  have "roles (shared world0) 5 = Some 0" by (simp add: world0_def)
  with sync_command_is_answered [OF folly_ref_laws(1) m(2) query_frame_facts(1) _ _ lookup, of "MTaskQueryReq \<lparr>tq_rpcid = 5\<rparr>" 0 world0
      "MTaskQueryRsp query_error" S'] query_frame_facts run m show ?thesis
    by (fastforce simp: cmd_ids world0_def)
qed

text \<open>
  A server with one asynchronous command: one whose future has the response when it is
  returned, as \<open>folly::makeFuture\<close> makes it, and one whose future is the handle 42.
\<close>

definition ready_query :: "(role_ptr, (nat, string \<Rightarrow> string option) server, TaskQueryReq, TaskQueryRsp, TaskQueryRsp) AsyncServiceInterface" where
  "ready_query = \<lparr>RequestType = TTaskQueryReq, ResponseType = TTaskQueryRsp, cast_request = as_TaskQueryReq,
     response_message = MTaskQueryRsp, operator_async = (\<lambda>S role req. ret_act query_error)\<rparr>"

definition later_query :: "(role_ptr, (nat, string \<Rightarrow> string option) server, TaskQueryReq, TaskQueryRsp, nat) AsyncServiceInterface" where
  "later_query = \<lparr>RequestType = TTaskQueryReq, ResponseType = TTaskQueryRsp, cast_request = as_TaskQueryReq,
     response_message = MTaskQueryRsp, operator_async = (\<lambda>S role req. ret_act 42)\<rparr>"

lemma async_query_registered:
  assumes "RequestType U = TTaskQueryReq"
  obtains m L where "RegisterAsyncCommand thenValue CMD_QUERY_TASK U (new_CommandManager, new_PbReflectionManager) = Inr (True, m)"
    and "newPipeline folly_ref protobuf_ref redis_ref (new_LittleBPipelineFactory m) 5 = Inr L" and "in_sync m"
    and "reflection_data (snd m) (frame_cmd query_frame) = Some \<lparr>request_proto = TTaskQueryReq, response_proto = ResponseType U\<rparr>"
    and "async_services (fst m) (frame_cmd query_frame) = Some (AsyncServiceClassDecorator thenValue U)"
proof -
  have "\<not> IsValidCmd CMD_QUERY_TASK (snd (new_CommandManager, new_PbReflectionManager))"
    by (simp add: IsValidCmd_def new_PbReflectionManager_def)
  from RegisterAsyncCommand_new [OF in_sync_new this, of thenValue U] obtain m where
    reg: "RegisterAsyncCommand thenValue CMD_QUERY_TASK U (new_CommandManager, new_PbReflectionManager) = Inr (True, m)"
      and m: "reflection_data (snd m) (frame_cmd query_frame) = Some \<lparr>request_proto = TTaskQueryReq, response_proto = ResponseType U\<rparr>"
        "async_services (fst m) (frame_cmd query_frame) = Some (AsyncServiceClassDecorator thenValue U)"
    by (auto simp: query_frame_facts(2) assms)
  obtain L where "newPipeline folly_ref protobuf_ref redis_ref (new_LittleBPipelineFactory m) 5 = Inr L"
    using newPipeline_eq [of folly_ref protobuf_ref redis_ref m 5] by blast
  with reg m RegisterAsyncCommand_in_sync [OF in_sync_new reg] that show ?thesis by blast
qed

theorem async_command_is_answered_witness:
  "(\<exists>m L b. RegisterAsyncCommand (\<lambda>msg rsp. Ready (msg rsp)) CMD_QUERY_TASK ready_query
       (new_CommandManager, new_PbReflectionManager) = Inr (True, m) \<and>
     newPipeline folly_ref protobuf_ref redis_ref (new_LittleBPipelineFactory m) 5 = Inr L \<and>
     deliver L [query_frame] world0 = (Inr (), world0\<lparr>trace := [Wrote b]\<rparr>) \<and>
     concat b = reply_bytes protobuf_ref CMD_QUERY_TASK (MTaskQueryRsp query_error)) \<and>
   (\<exists>m L w1 b. RegisterAsyncCommand (\<lambda>_. Pending) CMD_QUERY_TASK later_query
       (new_CommandManager, new_PbReflectionManager) = Inr (True, m) \<and>
     newPipeline folly_ref protobuf_ref redis_ref (new_LittleBPipelineFactory m) 5 = Inr L \<and>
     deliver L [query_frame] world0 = (Inr (), w1) \<and> pending w1 = [(42, CMD_QUERY_TASK)] \<and> trace w1 = [] \<and>
     complete L 0 (Some (MTaskQueryRsp query_error)) w1 = (Inr (), world0\<lparr>trace := [Wrote b]\<rparr>) \<and>
     concat b = reply_bytes protobuf_ref CMD_QUERY_TASK (MTaskQueryRsp query_error))"
proof (intro conjI)
  note facts = query_frame_facts(2,4)
  have pre: "frame_cmd query_frame \<noteq> CMD_LOGIN" "frame_cmd query_frame \<noteq> CMD_REGISTER"
      "\<And>p. ParseFromArray protobuf_ref (request_proto \<lparr>request_proto = TTaskQueryReq, response_proto = p\<rparr>) (drop 2 query_frame) =
        (True, MTaskQueryReq \<lparr>tq_rpcid = 5\<rparr>)"
    by (simp_all add: query_frame_facts) (simp_all add: cmd_ids)
  have w: "trace world0 = []" "pending world0 = []" "world0\<lparr>shared := shared world0\<rparr> = world0"
    by (simp_all add: world0_def)
  have role: "0 = (case roles (shared world0) 5 of Some p \<Rightarrow> p | None \<Rightarrow> length (role_heap (shared world0)))"
    by (simp add: world0_def)
  have S: "(case roles (shared world0) 5 of Some _ \<Rightarrow> shared world0
       | None \<Rightarrow> (shared world0)\<lparr>role_heap := role_heap (shared world0) @ [empty_role]\<rparr>) = shared world0"
    by (simp add: world0_def)
  obtain m :: "(role_ptr, (nat, string \<Rightarrow> string option) server, nat) managers" and L where reg: "RegisterAsyncCommand (\<lambda>msg rsp. Ready (msg rsp)) CMD_QUERY_TASK ready_query
       (new_CommandManager, new_PbReflectionManager) = Inr (True, m)"
      and L: "newPipeline folly_ref protobuf_ref redis_ref (new_LittleBPipelineFactory m) 5 = Inr L" "in_sync m"
        "reflection_data (snd m) (frame_cmd query_frame) = Some \<lparr>request_proto = TTaskQueryReq, response_proto = ResponseType ready_query\<rparr>"
        "async_services (fst m) (frame_cmd query_frame) = Some (AsyncServiceClassDecorator (\<lambda>msg rsp. Ready (msg rsp)) ready_query)"
    by (rule async_query_registered [of ready_query "\<lambda>msg rsp. Ready (msg rsp)"]) (simp add: ready_query_def)
  have "AsyncServiceClassDecorator (\<lambda>msg rsp. Ready (msg rsp)) ready_query 0 (MTaskQueryReq \<lparr>tq_rpcid = 5\<rparr>) (shared world0) =
      (Inr (Ready (MTaskQueryRsp query_error)), shared world0)"
    by (simp add: AsyncServiceClassDecorator_def ready_query_def as_TaskQueryReq_def)
  from async_command_is_answered [OF folly_ref_laws(1) L(1) query_frame_facts(1) pre(1,2) L(2-4) pre(3) role, unfolded S, OF this]
  have "\<exists>sent. deliver L [query_frame] world0 = (Inr (), world0\<lparr>trace := sent\<rparr>) \<and>
      sends protobuf_ref CMD_QUERY_TASK (MTaskQueryRsp query_error) sent"
    by (simp add: w facts)
  then show "\<exists>m L b. RegisterAsyncCommand (\<lambda>msg rsp. Ready (msg rsp)) CMD_QUERY_TASK ready_query
       (new_CommandManager, new_PbReflectionManager) = Inr (True, m) \<and>
     newPipeline folly_ref protobuf_ref redis_ref (new_LittleBPipelineFactory m) 5 = Inr L \<and>
     deliver L [query_frame] world0 = (Inr (), world0\<lparr>trace := [Wrote b]\<rparr>) \<and>
     concat b = reply_bytes protobuf_ref CMD_QUERY_TASK (MTaskQueryRsp query_error)"
    using reg L(1) facts(2) by (auto simp: sends_def)
  obtain m :: "(role_ptr, (nat, string \<Rightarrow> string option) server, nat) managers" and L where reg: "RegisterAsyncCommand (\<lambda>_. Pending) CMD_QUERY_TASK later_query
       (new_CommandManager, new_PbReflectionManager) = Inr (True, m)"
      and L: "newPipeline folly_ref protobuf_ref redis_ref (new_LittleBPipelineFactory m) 5 = Inr L" "in_sync m"
        "reflection_data (snd m) (frame_cmd query_frame) = Some \<lparr>request_proto = TTaskQueryReq, response_proto = ResponseType later_query\<rparr>"
        "async_services (fst m) (frame_cmd query_frame) = Some (AsyncServiceClassDecorator (\<lambda>_. Pending) later_query)"
    by (rule async_query_registered [of later_query "\<lambda>_. Pending"]) (simp add: later_query_def)
  have "AsyncServiceClassDecorator (\<lambda>_. Pending) later_query 0 (MTaskQueryReq \<lparr>tq_rpcid = 5\<rparr>) (shared world0) =
      (Inr (Pending 42), shared world0)"
    by (simp add: AsyncServiceClassDecorator_def later_query_def as_TaskQueryReq_def)
  from async_command_is_answered [OF folly_ref_laws(1) L(1) query_frame_facts(1) pre(1,2) L(2-4) pre(3) role, unfolded S, OF this]
  have "\<exists>w1. deliver L [query_frame] world0 = (Inr (), w1) \<and>
      w1 = world0\<lparr>pending := [(42, CMD_QUERY_TASK)]\<rparr> \<and>
      (\<exists>sent. complete L 0 (Some (MTaskQueryRsp query_error)) w1 = (Inr (), world0\<lparr>trace := sent\<rparr>) \<and>
        sends protobuf_ref CMD_QUERY_TASK (MTaskQueryRsp query_error) sent)"
    by (simp add: w facts)
  then show "\<exists>m L w1 b. RegisterAsyncCommand (\<lambda>_. Pending) CMD_QUERY_TASK later_query
       (new_CommandManager, new_PbReflectionManager) = Inr (True, m) \<and>
     newPipeline folly_ref protobuf_ref redis_ref (new_LittleBPipelineFactory m) 5 = Inr L \<and>
     deliver L [query_frame] world0 = (Inr (), w1) \<and> pending w1 = [(42, CMD_QUERY_TASK)] \<and> trace w1 = [] \<and>
     complete L 0 (Some (MTaskQueryRsp query_error)) w1 = (Inr (), world0\<lparr>trace := [Wrote b]\<rparr>) \<and>
     concat b = reply_bytes protobuf_ref CMD_QUERY_TASK (MTaskQueryRsp query_error)"
    using reg L(1) facts(2) w(1,2) by (auto simp: sends_def)
qed

end
