(* ===== verification/Robustness.thy ===== *)
theory Robustness
  imports Server
begin

text \<open>
  No bytes a client sends bring the server down through an assertion, a bad cast or a null
  pointer: a frame is dropped, answered, or runs into the conversion of a position that no
  \<open>int32\<close> can hold. The argument is a Hoare-style calculus of computations that end normally
  or with one of a set of errors.
\<close>

section \<open>Computations that end as allowed\<close>

definition ends :: "error set \<Rightarrow> ('s, 'a) action \<Rightarrow> ('a \<Rightarrow> 's \<Rightarrow> bool) \<Rightarrow> 's \<Rightarrow> bool" where
  "ends E m Q s = (case m s of (Inl e, s') \<Rightarrow> e \<in> E | (Inr x, s') \<Rightarrow> Q x s')"

lemma ends_ret [simp]: "ends E (ret_act x) Q s \<longleftrightarrow> Q x s"
  by (simp add: ends_def)

lemma ends_bind: "ends E m (\<lambda>x s'. ends E (f x) Q s') s \<Longrightarrow> ends E (bind_act m f) Q s"
  by (auto simp: ends_def bind_act_def split: prod.splits sum.splits)

lemma ends_mono: "ends E m Q s \<Longrightarrow> (\<And>x s'. Q x s' \<Longrightarrow> Q' x s') \<Longrightarrow> ends E m Q' s"
  by (auto simp: ends_def split: prod.splits sum.splits)

lemma ends_cong: "ends E m' Q s' \<Longrightarrow> m s = m' s' \<Longrightarrow> ends E m Q s"
  by (simp add: ends_def)

lemma ends_lift_res: "(\<And>x. r = Inr x \<Longrightarrow> Q x s) \<Longrightarrow> (\<And>e. r = Inl e \<Longrightarrow> e \<in> E) \<Longrightarrow> ends E (lift_res r) Q s"
  by (cases r) (simp_all add: ends_def)

lemma ends_on_shared: "ends E m (\<lambda>x S. Q x (w\<lparr>shared := S\<rparr>)) (shared w) \<Longrightarrow> ends E (on_shared m) Q w"
  by (auto simp: ends_def on_shared_def split: prod.splits sum.splits)

section \<open>The services\<close>

text \<open>
  What the services need of the state: the database is up, the player counter is a number,
  and the table of roles is well formed; a role pointer has to be valid.
\<close>

definition ready :: "('c \<Rightarrow> bool) \<Rightarrow> ('c \<Rightarrow> string \<Rightarrow> string option) \<Rightarrow> ('addr, 'c) server \<Rightarrow> bool" where
  "ready up store S \<longleftrightarrow> db_connected up S \<and> (\<exists>n. 0 \<le> n \<and> n + 1 < 2 ^ 63 \<and> counts (db store S ''gid'') n)"

definition live :: "role_ptr \<Rightarrow> ('addr, 'c) server \<Rightarrow> bool" where
  "live p S \<longleftrightarrow> p < length (role_heap S)"

definition bad_position :: error where
  "bad_position = UndefinedBehaviour ''double out of the range of int32''"

lemma i32_of_double_error: "i32_of_double d = Inl e \<Longrightarrow> e = bad_position"
  by (cases d) (auto simp: bad_position_def Let_def split: if_splits)

lemma ends_read: "live p S \<Longrightarrow> (\<And>r. Q r S) \<Longrightarrow> ends E (read_role p) Q S"
  by (simp add: ends_def read_role_def live_def)

lemma ends_write: "live p S \<Longrightarrow> Q () (S\<lparr>role_heap := (role_heap S)[p := f (role_heap S ! p)]\<rparr>) \<Longrightarrow> ends E (write_role p f) Q S"
  by (simp add: ends_def write_role_def live_def)

lemma db_heap [simp]:
  "db_connected up (S\<lparr>role_heap := h\<rparr>) = db_connected up S" "db store (S\<lparr>role_heap := h\<rparr>) = db store S"
  by (simp_all add: db_connected_def db_def)

context server_env
begin

lemma ends_get:
  assumes "db_connected up S" and "plain p"
    and "\<And>S'. db_connected up S' \<Longrightarrow> db store S' = db store S \<Longrightarrow> role_heap S' = role_heap S \<Longrightarrow>
      Q (reply_get (db store S (p @ k))) S'"
  shows "ends E (redis_cmd R (''get '' @ p @ ''%s'') [ArgS k]) Q S"
  using redis_get [OF assms(1,2), of k] assms(3) by (auto simp: ends_def same_roles_def)

lemma ends_set_s:
  assumes "db_connected up S" and "plain p"
    and "\<And>S'. db_connected up S' \<Longrightarrow> db store S' = (db store S)(p @ k \<mapsto> v) \<Longrightarrow> role_heap S' = role_heap S \<Longrightarrow>
      Q reply_status S'"
  shows "ends E (redis_cmd R (''set '' @ p @ ''%s %s'') [ArgS k, ArgS v]) Q S"
  using redis_set_s [OF assms(1,2), of k v] assms(3) by (auto simp: ends_def same_roles_def)

lemma ends_Pull:
  assumes "db_connected up S"
    and "\<And>p S'. db_connected up S' \<Longrightarrow> db store S' = db store S \<Longrightarrow> (\<forall>q. p = Some q \<longrightarrow> live q S') \<Longrightarrow> Q p S'"
  shows "ends E (PullRoleInfoFromDB R P u) Q S"
proof -
  obtain S1 where "db_connected up S1" "db store S1 = db store S"
      "PullRoleInfoFromDB R P u S = (case role_view store P S (c_str u) of
        None \<Rightarrow> (Inr None, S1)
      | Some r \<Rightarrow> (Inr (Some (length (role_heap S))), S1\<lparr>role_heap := role_heap S @ [r]\<rparr>))"
    using Pull_eq [OF assms(1)] by blast
  then show ?thesis
    using assms(2) by (auto simp: ends_def live_def split: option.splits)
qed

lemma ends_Push:
  assumes "db_connected up S" and "\<And>S'. db_connected up S' \<Longrightarrow> Q True S'"
  shows "ends E (PushRoleToDB R P r) Q S"
  using Push_eq [OF assms(1), of r] assms(2) by (auto simp: ends_def)

lemma ends_login:
  assumes "db_connected up S"
  shows "ends E (MinigameFakeLoginService R P role req) (\<lambda>_ _. True) S"
  unfolding MinigameFakeLoginService_def
  by (intro ends_bind ends_get [OF assms, of "''__password_''", simplified])
    (auto intro!: ends_bind ends_Pull ends_read ends_write ends_Push simp: PushRoleToDB_ptr_def live_def split: option.splits)

lemma ends_register:
  assumes "ready up store S"
  shows "ends E (MinigameRegisterService R P role req) (\<lambda>_ _. True) S"
proof -
  let ?k = "c_str (rq_account req)"
  obtain n where c: "db_connected up S" and n: "0 \<le> n" "n + 1 < 2 ^ 63" "counts (db store S ''gid'') n"
    using assms by (auto simp: ready_def)
  have incr: "ends E (redis_cmd R ''incr gid'' []) (\<lambda>reply S'. db_connected up S') S1"
    if "db_connected up S1" "db store S1 ''gid'' = db store S ''gid''" for S1 :: "('a, 'c) server"
    using redis_incr [OF that(1), of "''gid''" n] that n by (auto simp: ends_def)
  have set_role: "ends E (redis_cmd R ''set __role_%s %b'' [ArgS ?k, ArgB v]) (\<lambda>_ _. True) S1"
    if "db_connected up S1" for S1 :: "('a, 'c) server" and v
    using redis_set_b [OF that, of "''__role_''" ?k v] by (auto simp: ends_def)
  show ?thesis
    unfolding MinigameRegisterService_def Let_def
    by (intro ends_bind ends_get [OF c, of "''__password_''", simplified])
      (auto intro!: ends_bind ends_set_s [of _ "''__password_''", simplified] ends_mono [OF incr] ends_mono [OF set_role])
qed

lemma ends_PullTask:
  assumes "db_connected up S"
    and "\<And>x S'. db_connected up S' \<Longrightarrow> db store S' = db store S \<Longrightarrow> role_heap S' = role_heap S \<Longrightarrow> Q x S'"
  shows "ends E (PullTaskInfoFromDB R P gid T) Q S"
  using PullTask_eq [OF assms(1), of gid T] assms(2)
  by (cases "db store S (task_key gid)") (auto simp: ends_def same_roles_def)

lemma ends_PushTask:
  assumes "db_connected up S"
  shows "ends E (PushTaskInfoToDB R P gid T) (\<lambda>_ _. True) S"
  using PushTask_eq [OF assms, of T gid]
  by (cases "task_infos T gid") (auto simp: ends_def PushTaskInfoToDB_def)

lemma ends_query:
  assumes "db_connected up S" and "live role S"
  shows "ends E (TaskQueryService R P T role req) (\<lambda>_ _. True) S"
  unfolding TaskQueryService_def Let_def using assms
  by (auto intro!: ends_bind ends_read ends_PullTask)

lemma ends_update:
  assumes "db_connected up S" and "live role S" and "bad_position \<in> E"
  shows "ends E (TaskUpdateService R P T role req) (\<lambda>_ _. True) S"
proof -
  have "ends E (PushTaskInfoToDB R P gid T) (\<lambda>_ S. ends E (ret_act x) (\<lambda>_ _. True) S) S1"
    if "db_connected up S1" for gid T x and S1 :: "('a, 'c) server"
    using ends_PushTask [OF that] by simp
  then show ?thesis
    unfolding TaskUpdateService_def Let_def using assms
    by (auto intro!: ends_bind ends_read ends_PullTask ends_lift_res dest!: i32_of_double_error split: prod.splits)
qed

lemma ends_erase:
  assumes "db_connected up S" and "live role S"
  shows "ends E (EraseRoleService R P role req) (\<lambda>_ _. True) S"
  unfolding EraseRoleService_def Let_def using assms
  by (auto intro!: ends_bind ends_read ends_write ends_Push simp: live_def)

lemma ends_pull_and_add:
  assumes "db_connected up S" and "\<And>x S'. db_connected up S' \<Longrightarrow> Q x S'"
  shows "ends E (pull_and_add R P u a) Q S"
proof -
  have AddRole: "db_connected up (snd (AddRole a p S')) = db_connected up S'" for p and S' :: "('a, 'c) server"
    by (simp add: AddRole_def db_connected_def split: option.splits)
  have "ends E (\<lambda>S. case p of None \<Rightarrow> (Inr False, S) | Some p \<Rightarrow> map_prod Inr id (AddRole a p S)) Q S'"
    if "db_connected up S'" for p and S' :: "('a, 'c) server"
    using assms(2) that AddRole by (cases p) (simp_all add: ends_def map_prod_def case_prod_beta)
  then show ?thesis
    unfolding pull_and_add_def using assms(1)
    by (intro ends_bind ends_Pull) auto
qed

end

section \<open>A frame of the booted server\<close>

definition harmless :: "error set" where
  "harmless = insert bad_position refusals"

context folly_io
begin

lemma ends_respond:
  assumes "newPipeline F P R (new_LittleBPipelineFactory m) addr = Inr L"
  shows "ends harmless (respond L msg) (\<lambda>_ _. True) w"
proof -
  obtain cmd_id rsp where msg: "msg = (cmd_id, rsp)" by (cases msg)
  show ?thesis
    unfolding msg ends_def respond_outbound [OF assms]
    by (auto simp: bind_act_def log_event_def harmless_def split: sum.splits dest!: prepender_minigame_error)
qed

end

text \<open>A message behind the parser has the type of its command.\<close>

lemma registered_request:
  assumes "register_services R P = Inr m" and "reflection_data (snd m) c = Some d" and "type_of req = request_proto d"
  obtains q where "c = CMD_LOGIN" "req = MLoginReq q" | q where "c = CMD_REGISTER" "req = MRegisterReq q"
  | q where "c = CMD_QUERY_TASK" "req = MTaskQueryReq q" | q where "c = CMD_UPDATE_TASK" "req = MTaskUpdateReq q"
  | q where "c = CMD_ERASE_ROLE" "req = MEraseRoleReq q"
proof -
  have type: "c = CMD_LOGIN \<and> type_of req = TLoginReq \<or> c = CMD_REGISTER \<and> type_of req = TRegisterReq \<or>
    c = CMD_QUERY_TASK \<and> type_of req = TTaskQueryReq \<or> c = CMD_UPDATE_TASK \<and> type_of req = TTaskUpdateReq \<or>
    c = CMD_ERASE_ROLE \<and> type_of req = TEraseRoleReq"
    using assms unfolding register_services_eq by (auto split: if_splits)
  show ?thesis
    using type that by (cases req) auto
qed

lemma registered_service:
  assumes "register_services R P = Inr m"
  shows
    "sync_services (fst m) CMD_LOGIN = Some (SyncServiceClassDecorator (MinigameFakeLoginService_class R P))"
    "sync_services (fst m) CMD_REGISTER = Some (SyncServiceClassDecorator (MinigameRegisterService_class R P))"
    "sync_services (fst m) CMD_QUERY_TASK = Some (SyncServiceClassDecorator (TaskQueryService_class R P))"
    "sync_services (fst m) CMD_UPDATE_TASK = Some (SyncServiceClassDecorator (TaskUpdateService_class R P))"
    "sync_services (fst m) CMD_ERASE_ROLE = Some (SyncServiceClassDecorator (EraseRoleService_class R P))"
  using assms unfolding register_services_eq by (auto simp: cmd_ids)

lemma ends_decorated:
  assumes "cast_request T req = Some q" and "ends E (operator_call T S role q) (\<lambda>_ _. True) S"
  shows "ends E (SyncServiceClassDecorator T role req) (\<lambda>_ _. True) S"
  using assms by (auto simp: ends_def SyncServiceClassDecorator_def bind_act_def split: prod.splits sum.splits)

context server_env
begin

lemma ends_service:
  assumes m: "register_services R P = Inr m" "reflection_data (snd m) cmd_id = Some d" "type_of req = request_proto d"
    and S: "ready up store S" "live p S"
  shows "ends harmless (RunSyncService (fst m) cmd_id p req) (\<lambda>_ _. True) S"
proof -
  have c: "db_connected up S" using S(1) by (simp add: ready_def)
  note svc = registered_service [OF m(1)]
  have pos: "bad_position \<in> harmless" by (simp add: harmless_def)
  from m show ?thesis
  proof (rule registered_request)
    fix q assume "cmd_id = CMD_LOGIN" "req = MLoginReq q"
    with svc(1) show ?thesis
      by (simp add: RunSyncService_def) (rule ends_decorated, simp add: as_LoginReq_def service_classes, simp add: service_classes, rule ends_login [OF c])
  next
    fix q assume "cmd_id = CMD_REGISTER" "req = MRegisterReq q"
    with svc(2) show ?thesis
      by (simp add: RunSyncService_def) (rule ends_decorated, simp add: as_RegisterReq_def service_classes, simp add: service_classes, rule ends_register [OF S(1)])
  next
    fix q assume "cmd_id = CMD_QUERY_TASK" "req = MTaskQueryReq q"
    with svc(3) show ?thesis
      by (simp add: RunSyncService_def) (rule ends_decorated, simp add: as_TaskQueryReq_def service_classes, simp add: service_classes, rule ends_query [OF c S(2)])
  next
    fix q assume "cmd_id = CMD_UPDATE_TASK" "req = MTaskUpdateReq q"
    with svc(4) show ?thesis
      by (simp add: RunSyncService_def) (rule ends_decorated, simp add: as_TaskUpdateReq_def service_classes, simp add: service_classes, rule ends_update [OF c S(2) pos])
  next
    fix q assume "cmd_id = CMD_ERASE_ROLE" "req = MEraseRoleReq q"
    with svc(5) show ?thesis
      by (simp add: RunSyncService_def) (rule ends_decorated, simp add: as_EraseRoleReq_def service_classes, simp add: service_classes, rule ends_erase [OF c S(2)])
  qed
qed

lemma ends_after_parse:
  assumes F: "folly_io F" and m: "register_services R P = Inr m" "newPipeline F P R (new_LittleBPipelineFactory m) addr = Inr L"
      "reflection_data (snd m) cmd_id = Some d" "type_of req = request_proto d"
    and S: "ready up store (shared w)" "roles_ok (shared w)"
  shows "ends harmless (after_parse R P m addr L (cmd_id, req)) (\<lambda>_ _. True) w"
proof -
  have c: "db_connected up (shared w)" using S(1) by (simp add: ready_def)
  note rsp = folly_io.ends_respond [OF F m(2)]
  show ?thesis
  proof (cases "cmd_id = CMD_LOGIN \<or> cmd_id = CMD_REGISTER")
    case True
    then have "(\<exists>q. cmd_id = CMD_LOGIN \<and> req = MLoginReq q) \<or> (\<exists>q. cmd_id = CMD_REGISTER \<and> req = MRegisterReq q)"
      using m(1,3,4) unfolding register_services_eq by (cases req) (auto simp: cmd_ids split: if_splits)
    then show ?thesis
      using rsp c S(1) ends_login ends_register [OF S(1)]
      by (auto simp: after_parse_def RoleInjectHandler_read_def Let_def as_LoginReq_def as_RegisterReq_def cmd_ids
          intro!: ends_bind ends_on_shared ends_pull_and_add ends_mono [OF ends_login] ends_mono [OF ends_register])
  next
    case False
    have v: "CommandManager_IsValidCmd cmd_id (fst m)" "IsSyncCmd cmd_id (fst m)"
      using m(1,3) unfolding register_services_eq
      by (auto simp: CommandManager_IsValidCmd_def IsSyncCmd_def split: if_splits)
    have dist: "ends harmless (CommandDistributor_read (new_CommandDistributor (fst m)) (context_of addr no_read (respond L)) (cmd_id, p, req)) (\<lambda>_ _. True) w'"
      if "ready up store (shared w')" "live p (shared w')" for p w'
      using ends_service [OF m(1,3,4) that] rsp v
      by (auto simp: CommandDistributor_read_def Let_def intro!: ends_bind ends_on_shared elim!: ends_mono)
    have bound: "live p (shared w)" if "roles (shared w) addr = Some p" for p
      using S(2) that by (auto simp: roles_ok_def live_def)
    show ?thesis
    proof (cases "roles (shared w) addr")
      case None
      let ?w = "w\<lparr>shared := (shared w)\<lparr>role_heap := role_heap (shared w) @ [empty_role]\<rparr>\<rparr>"
      have "ready up store (shared ?w)" "live (length (role_heap (shared w))) (shared ?w)"
        using S(1) by (simp_all add: ready_def live_def)
      from dist [OF this] show ?thesis
        by (rule ends_cong) (use None False in
          \<open>simp add: after_parse_def RoleInjectHandler_read_def Let_def GetRole_def make_shared_def\<close>)
    next
      case (Some p)
      from dist [OF S(1) bound [OF Some]] show ?thesis
        by (rule ends_cong) (use Some False in \<open>simp add: after_parse_def RoleInjectHandler_read_def Let_def GetRole_def\<close>)
    qed
  qed
qed

lemma ends_deliver:
  assumes F: "folly_io F" and m: "register_services R P = Inr m" "newPipeline F P R (new_LittleBPipelineFactory m) addr = Inr L"
    and S: "ready up store (shared w)" "roles_ok (shared w)" and s: "2 \<le> length s"
  shows "ends harmless (deliver L (s # ss)) (\<lambda>_ _. True) w"
proof -
  note d = folly_io.deliver_eq [OF F m(2) s, of ss w]
  show ?thesis
  proof (cases "reflection_data (snd m) (frame_cmd s)")
    case None
    with d show ?thesis by (simp add: ends_def)
  next
    case (Some md)
    obtain ok pb where p: "ParseFromArray P (request_proto md) (drop 2 s) = (ok, pb)" by fastforce
    then have "type_of pb = request_proto md"
      using parse_type [of "request_proto md" "drop 2 s"] by simp
    from ends_after_parse [OF F m Some this S] d Some p show ?thesis
      by (cases ok) (simp_all add: ends_def)
  qed
qed

end

section \<open>Property\<close>

text \<open>
  C2: no frame crashes the booted server. As long as the database is up, the player counter is
  a number from 0 to \<open>2 ^ 63 - 2\<close> and the table of roles is well formed, every frame, with any command and any bytes
  in any buffers, is handled to the end, with five exceptions: a frame of fewer than 2 bytes,
  which throws \<open>std::out_of_range\<close>; a longer one with fewer than 2 bytes in its first buffer,
  for which \<open>trimStart\<close> is undefined; the undefined conversion of a position outside \<open>int32\<close>;
  and the two exceptions of the prepender about the length of a response. No assertion, bad
  cast or null pointer is reached.
\<close>

theorem no_frame_crashes_the_server:
  assumes "server_env R up store P wire_ok" and "folly_io F" and "register_services R P = Inr m"
    and "newPipeline F P R (new_LittleBPipelineFactory m) addr = Inr L" and "ready up store (shared w)" and "roles_ok (shared w)"
  shows "if length (concat msg) < 2 then deliver L msg w = (Inl OutOfRange, w)
    else if length (hd msg) < 2 then deliver L msg w = (Inl (UndefinedBehaviour ''trimStart beyond the first buffer''), w)
    else fst (deliver L msg w) \<in> {Inr (), Inl (UndefinedBehaviour ''double out of the range of int32''),
      Inl (RuntimeError ''Length field < 0''), Inl (RuntimeError ''length does not fit byte'')}"
proof (cases msg)
  case Nil
  then show ?thesis
    using folly_io.deliver_no_opcode [OF assms(2,4) folly_io.opcode_read_short [OF assms(2)], of msg] by simp
next
  case (Cons s ss)
  consider "length (concat msg) < 2" | "2 \<le> length (concat msg)" "length s < 2" | "2 \<le> length s" by linarith
  then show ?thesis
  proof cases
    case 1
    then show ?thesis
      using folly_io.deliver_no_opcode [OF assms(2,4) folly_io.opcode_read_short [OF assms(2)], of msg] by simp
  next
    case 2
    then show ?thesis
      using folly_io.deliver_no_opcode [OF assms(2,4) folly_io.opcode_read_cut [OF assms(2)], of s ss] Cons by simp
  next
    case 3
    then show ?thesis
      using server_env.ends_deliver [OF assms 3, of ss] Cons
      by (auto simp: ends_def harmless_def refusals_def bad_position_def split: prod.splits sum.splits)
  qed
qed

theorem no_frame_crashes_the_server_witness:
  "\<exists>m L. register_services redis_ref protobuf_ref = Inr m \<and> newPipeline folly_ref protobuf_ref redis_ref (new_LittleBPipelineFactory m) 5 = Inr L \<and>
     fst (deliver L [query_frame, ''garbage''] world0) \<in>
       {Inr (), Inl (UndefinedBehaviour ''double out of the range of int32''),
        Inl (RuntimeError ''Length field < 0''), Inl (RuntimeError ''length does not fit byte'')}"
proof (rule pipeline_exists [of redis_ref protobuf_ref folly_ref 5])
  fix m :: "(role_ptr, (nat, string \<Rightarrow> string option) server, nat) managers" and L
  assume m: "register_services redis_ref protobuf_ref = Inr m" "newPipeline folly_ref protobuf_ref redis_ref (new_LittleBPipelineFactory m) 5 = Inr L"
  have "counts (db (\<lambda>m. m) (shared world0) ''gid'') 0" "db_connected (\<lambda>_. True) (shared world0)"
    by (simp_all add: world0_def server0_def db_def counts_def db_connected_def)
  then have "ready (\<lambda>_. True) (\<lambda>m. m) (shared world0)"
    unfolding ready_def by (intro conjI exI [of _ 0]) simp_all
  moreover have "roles_ok (shared world0)" by (auto simp: world0_def roles_ok_def)
  ultimately show ?thesis
    using no_frame_crashes_the_server [OF env_ref_laws folly_ref_laws(1) m, of world0 "[query_frame, ''garbage'']"] m query_frame_facts(1)
    by auto
qed

end
