(* ===== verification/Doc_Examples.thy ===== *)
theory Doc_Examples
  imports Frame_Codec
begin

text \<open>
  The worked examples in the class comments of \<open>LengthFieldBasedFrameDecoder.h\<close> and
  \<open>LengthFieldPrepender.h\<close>: the parameters each example names, the bytes before and the bytes
  after, as the comments draw them. The comments leave the bound on the frame length open,
  so it stays a parameter.
\<close>

section \<open>The examples of the decoder\<close>

record decoder_example =
  ex_lengthFieldOffset :: u32
  ex_lengthFieldLength :: u32
  ex_lengthAdjustment :: i32
  ex_initialBytesToStrip :: u32
  ex_before :: string
  ex_after :: string

definition hello :: string where
  "hello = ''HELLO, WORLD''"

definition example_keep_header :: decoder_example where
  "example_keep_header = \<lparr>ex_lengthFieldOffset = 0, ex_lengthFieldLength = 2, ex_lengthAdjustment = 0,
     ex_initialBytesToStrip = 0,
     ex_before = [CHR 0x00, CHR 0x0C] @ hello, ex_after = [CHR 0x00, CHR 0x0C] @ hello\<rparr>"

definition example_strip_header :: decoder_example where
  "example_strip_header = \<lparr>ex_lengthFieldOffset = 0, ex_lengthFieldLength = 2, ex_lengthAdjustment = 0,
     ex_initialBytesToStrip = 2,
     ex_before = [CHR 0x00, CHR 0x0C] @ hello, ex_after = hello\<rparr>"

definition example_whole_message :: decoder_example where
  "example_whole_message = \<lparr>ex_lengthFieldOffset = 0, ex_lengthFieldLength = 2, ex_lengthAdjustment = - 2,
     ex_initialBytesToStrip = 0,
     ex_before = [CHR 0x00, CHR 0x0E] @ hello, ex_after = [CHR 0x00, CHR 0x0E] @ hello\<rparr>"

definition example_length_last :: decoder_example where
  "example_length_last = \<lparr>ex_lengthFieldOffset = 2, ex_lengthFieldLength = 3, ex_lengthAdjustment = 0,
     ex_initialBytesToStrip = 0,
     ex_before = [CHR 0xCA, CHR 0xFE, CHR 0x00, CHR 0x00, CHR 0x0C] @ hello,
     ex_after = [CHR 0xCA, CHR 0xFE, CHR 0x00, CHR 0x00, CHR 0x0C] @ hello\<rparr>"

definition example_length_first :: decoder_example where
  "example_length_first = \<lparr>ex_lengthFieldOffset = 0, ex_lengthFieldLength = 3, ex_lengthAdjustment = 2,
     ex_initialBytesToStrip = 0,
     ex_before = [CHR 0x00, CHR 0x00, CHR 0x0C, CHR 0xCA, CHR 0xFE] @ hello,
     ex_after = [CHR 0x00, CHR 0x00, CHR 0x0C, CHR 0xCA, CHR 0xFE] @ hello\<rparr>"

definition example_length_middle :: decoder_example where
  "example_length_middle = \<lparr>ex_lengthFieldOffset = 1, ex_lengthFieldLength = 2, ex_lengthAdjustment = 1,
     ex_initialBytesToStrip = 3,
     ex_before = [CHR 0xCA, CHR 0x00, CHR 0x0C, CHR 0xFE] @ hello, ex_after = CHR 0xFE # hello\<rparr>"

definition example_middle_whole :: decoder_example where
  "example_middle_whole = \<lparr>ex_lengthFieldOffset = 1, ex_lengthFieldLength = 2, ex_lengthAdjustment = - 3,
     ex_initialBytesToStrip = 3,
     ex_before = [CHR 0xCA, CHR 0x00, CHR 0x10, CHR 0xFE] @ hello, ex_after = CHR 0xFE # hello\<rparr>"

definition two_byte_examples :: "decoder_example list" where
  "two_byte_examples = [example_keep_header, example_strip_header, example_whole_message,
     example_length_middle, example_middle_whole]"

definition three_byte_examples :: "decoder_example list" where
  "three_byte_examples = [example_length_last, example_length_first]"

lemmas example_defs = example_keep_header_def
  example_strip_header_def example_whole_message_def example_length_last_def example_length_first_def
  example_length_middle_def example_middle_whole_def

text \<open>The decoder an example configures, in network byte order, the default.\<close>

definition example_decoder :: "u32 \<Rightarrow> decoder_example \<Rightarrow> LengthFieldBasedFrameDecoder" where
  "example_decoder maxFrameLength e =
     \<lparr>d_lengthFieldLength = ex_lengthFieldLength e, d_maxFrameLength = maxFrameLength,
      d_lengthFieldOffset = ex_lengthFieldOffset e, d_lengthAdjustment = ex_lengthAdjustment e,
      d_initialBytesToStrip = ex_initialBytesToStrip e, d_networkByteOrder = True,
      d_lengthFieldEndOffset = ex_lengthFieldOffset e + ex_lengthFieldLength e\<rparr>"

definition new_example ::
  "u32 \<Rightarrow> decoder_example \<Rightarrow> LengthFieldBasedFrameDecoder result" where
  "new_example maxFrameLength e = new_LengthFieldBasedFrameDecoder (ex_lengthFieldLength e) maxFrameLength
     (ex_lengthFieldOffset e) (ex_lengthAdjustment e) (ex_initialBytesToStrip e) True"

section \<open>The examples of the prepender\<close>

record prepender_example =
  ex_lengthIncludesLengthField :: bool
  ex_payload :: string
  ex_encoded :: string

definition example_prepend :: prepender_example where
  "example_prepend = \<lparr>ex_lengthIncludesLengthField = False, ex_payload = hello,
     ex_encoded = [CHR 0x00, CHR 0x0C] @ hello\<rparr>"

definition example_prepend_including :: prepender_example where
  "example_prepend_including = \<lparr>ex_lengthIncludesLengthField = True, ex_payload = hello,
     ex_encoded = [CHR 0x00, CHR 0x0E] @ hello\<rparr>"

lemmas prepender_examples = example_prepend_def example_prepend_including_def hello_def

section \<open>Lemmas\<close>

lemma max_minus:
  fixes M k :: u32
  assumes "17 \<le> unat M" and "unat k \<le> 3" and "unat off \<le> 2"
  shows "off \<le> M - k"
proof -
  have "unat (M - k) = unat M - unat k"
    using assms by (intro unat_sub) (simp add: word_le_nat_alt)
  then show ?thesis using assms by (simp add: word_le_nat_alt)
qed

lemma new_example_eq:
  assumes "17 \<le> unat M" and "e \<in> set (two_byte_examples @ three_byte_examples)"
  shows "new_example M e = Inr (example_decoder M e)"
proof -
  have "unat (ex_lengthFieldLength e) \<le> 3 \<and> unat (ex_lengthFieldOffset e) \<le> 2"
    using assms(2) unfolding two_byte_examples_def three_byte_examples_def
    by (auto simp: example_defs)
  with max_minus [OF assms(1)] assms(1) show ?thesis
    by (simp add: new_example_def new_LengthFieldBasedFrameDecoder_def example_decoder_def word_less_nat_alt)
qed

text \<open>What the code has to compute for each example, one lemma for all of them.\<close>

definition example_works :: "decoder_example \<Rightarrow> bool" where
  "example_works e \<longleftrightarrow> (\<forall>M. 17 \<le> unat M \<longrightarrow> unat M < 2 ^ 31 \<longrightarrow>
     supported (example_decoder M e) \<and> decode_spec (example_decoder M e) (ex_before e) = (Frame (ex_after e), []))"

lemmas example_eval = example_works_def example_decoder_def supported_def field_placed_def decode_spec_def
  frame_length_def field_value_def order_val_def Let_def hello_def

lemma examples_work:
  "example_works example_keep_header" "example_works example_strip_header" "example_works example_whole_message"
  "example_works example_length_middle" "example_works example_middle_whole"
  unfolding example_defs by (simp_all add: example_eval be_val_def del: of_nat_unat)

lemma two_byte_examples_work: "e \<in> set two_byte_examples \<Longrightarrow> example_works e"
  using examples_work by (auto simp: two_byte_examples_def)

lemma two_byte_width: "e \<in> set two_byte_examples \<Longrightarrow> ex_lengthFieldLength e = 2"
  by (auto simp: two_byte_examples_def example_defs)

lemma decode_two_byte_example:
  assumes F: "folly_io F" and M: "17 \<le> unat M" "unat M < 2 ^ 31" and e: "e \<in> set two_byte_examples"
    and q: "concat q = ex_before e"
  shows "\<exists>d. new_example M e = Inr d \<and> flat (decode F d q) = (Frame (ex_after e), [])"
proof -
  from two_byte_examples_work [OF e] M
  have s: "supported (example_decoder M e)" "decode_spec (example_decoder M e) (ex_before e) = (Frame (ex_after e), [])"
    by (simp_all add: example_works_def)
  have "field_fits (example_decoder M e) (concat q)"
    by (rule field_fits_narrow [OF s(1)]) (simp add: example_decoder_def two_byte_width [OF e])
  from folly_io.decode_refines [OF F s(1) this] s(2) q new_example_eq [OF M(1)] e
  show ?thesis by simp
qed

lemma decode_three_byte_example:
  assumes F: "folly_io F" and M: "17 \<le> unat M" and e: "e \<in> set three_byte_examples" and q: "concat q = ex_before e"
  shows "\<exists>d. new_example M e = Inr d \<and>
    decode F d q = (Thrown (UndefinedBehaviour ''frameLength is not initialised''), q)"
proof -
  have "unat (d_lengthFieldLength (example_decoder M e)) \<notin> {1, 2, 4, 8}" "field_placed (example_decoder M e)"
      "unat (d_lengthFieldEndOffset (example_decoder M e)) \<le> length (ex_before e)"
    using e by (auto simp: three_byte_examples_def example_defs example_decoder_def field_placed_def)
  with unsupported_width_is_undefined [OF F, of "example_decoder M e" q] q new_example_eq [OF M] e
  show ?thesis by simp
qed

lemma hello_length: "length hello = 12"
  by (simp add: hello_def)

lemma prepend_examples:
  assumes F: "folly_io F" and e: "e \<in> set [example_prepend, example_prepend_including]" and b: "concat b = ex_payload e"
  shows "\<exists>p. new_LengthFieldPrepender 2 0 (ex_lengthIncludesLengthField e) True = Inr p \<and>
    map_sum id concat (prepender_write F p b) = Inr (ex_encoded e)"
proof -
  let ?p = "\<lparr>p_lengthFieldLength = 2, p_lengthAdjustment = 0,
    p_lengthIncludesLengthField = ex_lengthIncludesLengthField e, p_networkByteOrder = True\<rparr>"
  have "be_bytes 2 12 = [CHR 0x00, CHR 0x0C]" "be_bytes 2 14 = [CHR 0x00, CHR 0x0E]"
    by (simp_all add: be_bytes_def byte_eval)
  then have "length_in_int ?p (length (concat b))" "prepend_spec ?p (ex_payload e) = Inr (ex_encoded e)"
    using e b hello_length
    by (auto simp: example_prepend_def example_prepend_including_def length_in_int_def prepend_spec_def prepend_length_def
        order_bytes_def Let_def)
  with folly_io.prepender_refines [OF F, of ?p b] b show ?thesis
    by (simp add: new_LengthFieldPrepender_def prepender_ok_def)
qed

section \<open>Property\<close>

text \<open>
  C27: the documented examples. With any frame bound from 17 up to the range of \<open>int\<close>, and
  whatever the buffer boundaries, the decoder turns the bytes drawn in each example with a
  2-byte length field into the bytes drawn behind the arrow and leaves nothing; the two
  examples with a 3-byte length field pass the constructor and then read a length that was
  never assigned. The prepender encodes both of its examples as drawn.
\<close>

theorem documented_examples:
  assumes "folly_io F" and "17 \<le> unat M" and "unat M < 2 ^ 31"
  shows "(\<forall>e q. e \<in> set two_byte_examples \<and> concat q = ex_before e \<longrightarrow>
      (\<exists>d. new_example M e = Inr d \<and> flat (decode F d q) = (Frame (ex_after e), []))) \<and>
    (\<forall>e q. e \<in> set three_byte_examples \<and> concat q = ex_before e \<longrightarrow>
      (\<exists>d. new_example M e = Inr d \<and>
        decode F d q = (Thrown (UndefinedBehaviour ''frameLength is not initialised''), q))) \<and>
    (\<forall>e b. e \<in> set [example_prepend, example_prepend_including] \<and> concat b = ex_payload e \<longrightarrow>
      (\<exists>p. new_LengthFieldPrepender 2 0 (ex_lengthIncludesLengthField e) True = Inr p \<and>
        map_sum id concat (prepender_write F p b) = Inr (ex_encoded e)))"
  using decode_two_byte_example [OF assms] decode_three_byte_example [OF assms(1,2)] prepend_examples [OF assms(1)]
  by blast

theorem documented_examples_witness:
  "(\<exists>d. new_example 65536 example_middle_whole = Inr d \<and>
     flat (decode folly_ref d [[CHR 0xCA, CHR 0x00], CHR 0x10 # CHR 0xFE # hello]) = (Frame (ex_after example_middle_whole), [])) \<and>
   (\<exists>d. new_example 65536 example_length_first = Inr d \<and>
     decode folly_ref d [ex_before example_length_first] =
       (Thrown (UndefinedBehaviour ''frameLength is not initialised''), [ex_before example_length_first])) \<and>
   (\<exists>p. new_LengthFieldPrepender 2 0 (ex_lengthIncludesLengthField example_prepend_including) True = Inr p \<and>
     map_sum id concat (prepender_write folly_ref p [''HELLO,'', '' WORLD'']) = Inr (ex_encoded example_prepend_including))"
proof -
  have M: "17 \<le> unat (65536 :: u32)" "unat (65536 :: u32) < 2 ^ 31" by simp_all
  note ex = documented_examples [OF folly_ref_laws(1) M]
  have e: "example_middle_whole \<in> set two_byte_examples" "example_length_first \<in> set three_byte_examples"
      "concat [[CHR 0xCA, CHR 0x00], CHR 0x10 # CHR 0xFE # hello] = ex_before example_middle_whole"
      "concat [''HELLO,'', '' WORLD''] = ex_payload example_prepend_including"
    by (simp_all add: two_byte_examples_def three_byte_examples_def example_defs prepender_examples)
  show ?thesis
  proof (intro conjI)
    show "\<exists>d. new_example 65536 example_length_first = Inr d \<and> decode folly_ref d [ex_before example_length_first] =
        (Thrown (UndefinedBehaviour ''frameLength is not initialised''), [ex_before example_length_first])"
      using ex e(2) by simp
  qed (use ex e(1,3,4) in auto)
qed

end
