(* ===== verification/Chunked_Decoding.thy ===== *)
theory Chunked_Decoding
  imports Frame_Codec
begin

text \<open>
  The decoder on a stream that arrives in pieces. wangle calls \<open>decode\<close> until it returns
  \<open>false\<close> whenever bytes arrive; the queue keeps what is left. As long as no frame is
  rejected the pieces do not matter: the frames are those of the whole stream. A rejected
  frame is where they begin to matter.
\<close>

section \<open>Calling the decoder until it stops\<close>

text \<open>
  \<open>dec\<close> is one call on a queue of type \<open>'q\<close> whose bytes \<open>sz\<close> counts. A call that returns
  \<open>true\<close> is followed by another one; the test that the queue became shorter makes the
  recursion well-founded and always succeeds for the decoders below.
\<close>

function decode_all :: "('q \<Rightarrow> nat) \<Rightarrow> ('q \<Rightarrow> 'b outcome \<times> 'q) \<Rightarrow> 'q \<Rightarrow> 'b outcome list \<times> 'q" where
  "decode_all sz dec q =
     (case dec q of
        (Frame f, q') \<Rightarrow>
          if sz q' < sz q then (case decode_all sz dec q' of (os, r) \<Rightarrow> (Frame f # os, r)) else ([Frame f], q')
      | (NeedMore, q') \<Rightarrow> ([], q')
      | (FireReadException e, q') \<Rightarrow> ([FireReadException e], q')
      | (Thrown e, q') \<Rightarrow> ([Thrown e], q'))"
  by pat_completeness auto
termination
  by (relation "measure (\<lambda>(sz, dec, q). sz q)") auto

declare decode_all.simps [simp del]

text \<open>Pieces arrive one after the other; each is appended to the queue.\<close>

fun feed :: "folly \<Rightarrow> LengthFieldBasedFrameDecoder \<Rightarrow> iobufq \<Rightarrow> string list \<Rightarrow> iobuf outcome list \<times> iobufq" where
  "feed F d q [] = ([], q)"
| "feed F d q (c # cs) =
     (case decode_all (\<lambda>q. length (concat q)) (decode F d) (q @ [c]) of
        (os, q1) \<Rightarrow> (case feed F d q1 cs of (os', q2) \<Rightarrow> (os @ os', q2)))"

section \<open>Decoders that decide on a prefix\<close>

locale incremental_decoder =
  fixes dec :: "string \<Rightarrow> string outcome \<times> string"
  assumes dec_wait: "dec bs = (NeedMore, rest) \<Longrightarrow> rest = bs"
    and dec_progress: "dec bs = (Frame f, rest) \<Longrightarrow> length rest < length bs"
    and dec_Frame_append: "dec bs = (Frame f, rest) \<Longrightarrow> dec (bs @ ext) = (Frame f, rest @ ext)"
    and dec_exception_append: "dec bs = (FireReadException e, rest) \<Longrightarrow> fst (dec (bs @ ext)) = FireReadException e"
    and dec_total: "fst (dec bs) \<noteq> Thrown err"
begin

lemma all_Frame:
  "dec bs = (Frame f, rest) \<Longrightarrow> decode_all length dec bs = apfst ((#) (Frame f)) (decode_all length dec rest)"
  by (subst decode_all.simps) (simp add: dec_progress apfst_def map_prod_def)

lemma all_stop:
  "dec bs = (NeedMore, rest) \<Longrightarrow> decode_all length dec bs = ([], rest)"
  "dec bs = (FireReadException e, rest) \<Longrightarrow> decode_all length dec bs = ([FireReadException e], rest)"
  by (subst decode_all.simps, simp)+

text \<open>
  If the whole stream decodes to frames only, so does a prefix, and decoding goes on where
  the prefix stopped.
\<close>

lemma all_append:
  "decode_all length dec (bs @ ext) = (map Frame fs, rest) \<Longrightarrow>
   \<exists>fs1 fs2 r. fs = fs1 @ fs2 \<and> decode_all length dec bs = (map Frame fs1, r) \<and>
     decode_all length dec (r @ ext) = (map Frame fs2, rest)"
proof (induction "length bs" arbitrary: bs fs rule: less_induct)
  case less
  obtain out r where step: "dec bs = (out, r)" by fastforce
  show ?case
  proof (cases out)
    case NeedMore
    then have "r = bs" using step dec_wait by simp
    with NeedMore step less.prems show ?thesis
      by (intro exI [of _ "[]"] exI [of _ fs] exI [of _ bs]) (simp add: all_stop)
  next
    case (FireReadException e)
    then obtain r' where "dec (bs @ ext) = (FireReadException e, r')"
      using dec_exception_append [of bs e r ext] step by (cases "dec (bs @ ext)") simp
    from all_stop(2) [OF this] less.prems show ?thesis by auto
  next
    case (Frame f)
    note r = dec_progress [OF step [unfolded Frame]]
    have "decode_all length dec (bs @ ext) = apfst ((#) (Frame f)) (decode_all length dec (r @ ext))"
      by (rule all_Frame [OF dec_Frame_append [OF step [unfolded Frame]]])
    with less.prems obtain fs' where fs: "fs = f # fs'" "decode_all length dec (r @ ext) = (map Frame fs', rest)"
      by (cases "decode_all length dec (r @ ext)") (auto simp: Cons_eq_map_conv)
    from less.hyps [OF r fs(2)] obtain fs1 fs2 r1 where
      "fs' = fs1 @ fs2" "decode_all length dec r = (map Frame fs1, r1)" "decode_all length dec (r1 @ ext) = (map Frame fs2, rest)"
      by blast
    with fs(1) all_Frame [OF step [unfolded Frame]] show ?thesis
      by (intro exI [of _ "f # fs1"] exI [of _ fs2] exI [of _ r1]) simp
  next
    case (Thrown e)
    then show ?thesis using dec_total [of bs e] step by simp
  qed
qed

text \<open>What is left waits for more.\<close>

lemma all_rest: "decode_all length dec bs = (map Frame fs, r) \<Longrightarrow> decode_all length dec r = ([], r)"
proof (induction "length bs" arbitrary: bs fs rule: less_induct)
  case less
  obtain out q where step: "dec bs = (out, q)" by fastforce
  show ?case
  proof (cases out)
    case NeedMore
    with step have "dec bs = (NeedMore, bs)" using dec_wait by auto
    then show ?thesis using less.prems by (simp add: all_stop)
  next
    case (FireReadException e)
    then show ?thesis using less.prems step by (auto simp: all_stop)
  next
    case (Frame f)
    note q = dec_progress [OF step [unfolded Frame]]
    from all_Frame [OF step [unfolded Frame]] less.prems obtain fs' where
      "decode_all length dec q = (map Frame fs', r)"
      by (cases "decode_all length dec q") (auto simp: Cons_eq_map_conv)
    from less.hyps [OF q this] show ?thesis .
  next
    case (Thrown e)
    then show ?thesis using dec_total [of bs e] step by simp
  qed
qed

end

section \<open>The decoder of the sources is one\<close>

text \<open>Supported configurations with a length field of at most four bytes.\<close>

definition narrow :: "LengthFieldBasedFrameDecoder \<Rightarrow> bool" where
  "narrow d \<longleftrightarrow> supported d \<and> unat (d_lengthFieldLength d) \<le> 4"

lemma decode_spec_exception_append:
  assumes d: "supported d" and e: "decode_spec d bs = (FireReadException e, rest)"
  shows "fst (decode_spec d (bs @ ext)) = FireReadException e"
proof -
  from e have "unat (d_lengthFieldEndOffset d) \<le> length bs"
    by (auto simp: decode_spec_def Let_def split: if_splits)
  from frame_length_append [OF d this] e show ?thesis
    by (auto simp: decode_spec_def Let_def split: if_splits)
qed

lemma incremental_spec:
  assumes "supported d"
  shows "incremental_decoder (decode_spec d)"
proof
  show "rest = bs" if "decode_spec d bs = (NeedMore, rest)" for bs rest
    using that by (auto simp: decode_spec_def Let_def split: if_splits)
  show "length rest < length bs" if "decode_spec d bs = (Frame f, rest)" for bs f rest
    using decode_spec_progress [OF assms that] by simp
qed (use decode_spec_Frame_append [OF assms] decode_spec_exception_append [OF assms] decode_spec_not_Thrown in auto)

interpretation minigame_stream: incremental_decoder "decode_spec minigame_decoder"
  by (rule incremental_spec) simp

text \<open>The loop over the queue is the loop over its bytes.\<close>

lemma loop_refines:
  assumes F: "folly_io F" and d: "narrow d"
  shows "decode_all length (decode_spec d) (concat q) =
    map_prod (map flat_outcome) concat (decode_all (\<lambda>q. length (concat q)) (decode F d) q)"
proof (induction "length (concat q)" arbitrary: q rule: less_induct)
  case less
  have d': "supported d" "field_fits d bs" for bs
    using d field_fits_narrow by (auto simp: narrow_def)
  obtain out q' where step: "decode F d q = (out, q')" by fastforce
  then have spec: "decode_spec d (concat q) = (flat_outcome out, concat q')"
    using folly_io.decode_refines [OF F d', of q] by (simp add: flat_def)
  show ?case
  proof (cases out)
    case (Frame f)
    with spec have "decode_spec d (concat q) = (Frame (concat f), concat q')" by simp
    from decode_spec_progress [OF d'(1) this] have lt: "length (concat q') < length (concat q)" by simp
    from less.hyps [OF lt] Frame step spec lt show ?thesis
      by (subst (1 2) decode_all.simps) (simp add: map_prod_def case_prod_beta)
  qed (use step spec in \<open>subst (1 2) decode_all.simps, simp\<close>)+
qed

lemma feed_refines:
  assumes F: "folly_io F" and d: "narrow d"
  shows "decode_all length (decode_spec d) (concat q) = ([], concat q) \<Longrightarrow>
    decode_all length (decode_spec d) (concat q @ concat cs) = (map Frame fs, rest) \<Longrightarrow>
    map_prod (map flat_outcome) concat (feed F d q cs) = (map Frame fs, rest)"
proof (induction cs arbitrary: q fs)
  case Nil
  then show ?case by simp
next
  case (Cons c cs)
  have "supported d" using d by (simp add: narrow_def)
  note inc = incremental_spec [OF this]
  obtain fs1 fs2 r where split: "fs = fs1 @ fs2"
      "decode_all length (decode_spec d) (concat q @ c) = (map Frame fs1, r)"
      "decode_all length (decode_spec d) (r @ concat cs) = (map Frame fs2, rest)"
    using incremental_decoder.all_append [OF inc, of "concat q @ c" "concat cs" fs rest] Cons.prems(2) by auto
  obtain os q1 where loop: "decode_all (\<lambda>q. length (concat q)) (decode F d) (q @ [c]) = (os, q1)" by fastforce
  with loop_refines [OF F d, of "q @ [c]"] split(2) have os: "map flat_outcome os = map Frame fs1" "concat q1 = r" by simp_all
  have "decode_all length (decode_spec d) (concat q1) = ([], concat q1)"
    using incremental_decoder.all_rest [OF inc split(2)] os(2) by simp
  from Cons.IH [OF this] split(3) os(2)
  have "map_prod (map flat_outcome) concat (feed F d q1 cs) = (map Frame fs2, rest)" by simp
  with loop os(1) split(1) show ?case by (simp add: case_prod_beta prod_eq_iff)
qed

section \<open>Properties\<close>

text \<open>
  C11: pieces do not matter. When a stream decodes to frames only, then however the network
  cuts it into pieces, feeding the pieces one after the other to the decoder gives the same
  frames in the same order as decoding the whole stream at once, and leaves the same bytes.
\<close>

theorem chunking_is_irrelevant:
  assumes "folly_io F" and "narrow d"
    and "decode_all length (decode_spec d) (concat cs) = (map Frame fs, rest)"
  shows "map_prod (map flat_outcome) concat (feed F d [] cs) = (map Frame fs, rest) \<and>
    map_prod (map flat_outcome) concat (decode_all (\<lambda>q. length (concat q)) (decode F d) cs) = (map Frame fs, rest)"
proof -
  have "supported d" using assms(2) by (simp add: narrow_def)
  then have "0 < unat (d_lengthFieldEndOffset d)" using supportedD(1,2) [of d] by auto
  then have "decode_all length (decode_spec d) [] = ([], [])"
    by (subst decode_all.simps) (simp add: decode_spec_def Let_def)
  then have "map_prod (map flat_outcome) concat (feed F d [] cs) = (map Frame fs, rest)"
    by (intro feed_refines [OF assms(1,2)]) (simp_all add: assms(3))
  with loop_refines [OF assms(1,2), of cs] assms(3) show ?thesis by simp
qed

text \<open>Two frames and the beginning of a third, cut in the middle of the second length field.\<close>

theorem chunking_is_irrelevant_witness:
  "map_prod (map flat_outcome) concat (feed folly_ref minigame_decoder []
       [[CHR 0x01, CHR 0x00, CHR ''a'', CHR 0x02], [CHR 0x00, CHR ''b'', CHR ''c'', CHR 0x05]]) =
     (map Frame [''a'', ''bc''], [CHR 0x05])"
proof -
  let ?cs = "[[CHR 0x01, CHR 0x00, CHR ''a'', CHR 0x02], [CHR 0x00, CHR ''b'', CHR ''c'', CHR 0x05]]"
  have 1: "decode_spec minigame_decoder (concat ?cs) = (Frame ''a'', [CHR 0x02, CHR 0x00, CHR ''b'', CHR ''c'', CHR 0x05])"
   and 2: "decode_spec minigame_decoder [CHR 0x02, CHR 0x00, CHR ''b'', CHR ''c'', CHR 0x05] = (Frame ''bc'', [CHR 0x05])"
   and 3: "decode_spec minigame_decoder [CHR 0x05] = (NeedMore, [CHR 0x05])"
    by (simp_all add: decode_spec_def frame_length_def field_value_def order_val_def minigame_decoder_def Let_def)
  have "decode_all length (decode_spec minigame_decoder) (concat ?cs) = (map Frame [''a'', ''bc''], [CHR 0x05])"
    by (simp only: minigame_stream.all_Frame [OF 1] minigame_stream.all_Frame [OF 2] minigame_stream.all_stop(1) [OF 3]) simp
  moreover have "narrow minigame_decoder" by (simp add: narrow_def) (simp add: minigame_decoder_def)
  ultimately show ?thesis using chunking_is_irrelevant [OF folly_ref_laws(1)] by blast
qed

text \<open>
  C28: a rejected frame loses the framing when it arrives in pieces. If the length field of a
  frame larger than the bound arrives before the rest of the frame, only the bytes present
  are dropped: the rest of that frame is then decoded as if it were a new stream, so the
  payload of an oversized frame can carry frames of its own. If it arrives at once, all of it
  is dropped.
\<close>

theorem oversized_frame_loses_framing:
  assumes "folly_io F" and "narrow d" and "length c1 = unat (d_lengthFieldEndOffset d)"
    and "int (unat (d_maxFrameLength d)) < frame_length d c1"
    and "int (length c1 + length c2) \<le> frame_length d c1"
  shows "map_prod (map flat_outcome) concat (feed F d [] [c1, c2]) =
      apfst ((#) (FireReadException (''Frame larger than '' @ dec_nat (unat (d_maxFrameLength d)))))
        (decode_all length (decode_spec d) c2) \<and>
    map_prod (map flat_outcome) concat (feed F d [] [c1 @ c2]) =
      ([FireReadException (''Frame larger than '' @ dec_nat (unat (d_maxFrameLength d)))], [])"
proof -
  let ?msg = "''Frame larger than '' @ dec_nat (unat (d_maxFrameLength d))"
  let ?loop = "decode_all (\<lambda>q. length (concat q)) (decode F d)"
  have d: "supported d" using assms(2) by (simp add: narrow_def)
  have len: "frame_length d (c1 @ ext) = frame_length d c1" for ext
    by (rule frame_length_append [OF d]) (simp add: assms(3))
  have "decode_spec d (c1 @ ext) = (FireReadException ?msg, [])" if "int (length c1 + length ext) \<le> frame_length d c1" for ext
    using that assms(3,4) by (simp add: decode_spec_def Let_def len le_nat_iff del: of_nat_unat)
  then have all: "decode_all length (decode_spec d) (c1 @ ext) = ([FireReadException ?msg], [])"
    if "int (length c1 + length ext) \<le> frame_length d c1" for ext
    using that by (subst decode_all.simps) simp
  have one: "map_prod (map flat_outcome) concat (?loop [c1 @ ext]) = ([FireReadException ?msg], [])"
    if "int (length c1 + length ext) \<le> frame_length d c1" for ext
    using loop_refines [OF assms(1,2), of "[c1 @ ext]"] all [OF that] by simp
  obtain os q1 where q1: "?loop [c1] = (os, q1)" by fastforce
  then have os: "map flat_outcome os = [FireReadException ?msg]" "concat q1 = []"
    using one [of "[]"] assms(5) by simp_all
  have "map_prod (map flat_outcome) concat (?loop (q1 @ [c2])) = decode_all length (decode_spec d) c2"
    using loop_refines [OF assms(1,2), of "q1 @ [c2]"] os(2) by simp
  with q1 os one [OF assms(5)] show ?thesis
    by (auto simp: case_prod_beta prod_eq_iff apfst_def)
qed

text \<open>The length field of a frame of 65535 bytes, then a frame with one byte.\<close>

theorem oversized_frame_loses_framing_witness:
  "map_prod (map flat_outcome) concat (feed folly_ref minigame_decoder []
       [[CHR 0xFF, CHR 0xFF], [CHR 0x01, CHR 0x00, CHR ''a'']]) =
     ([FireReadException ''Frame larger than 65536'', Frame ''a''], []) \<and>
   map_prod (map flat_outcome) concat (feed folly_ref minigame_decoder []
       [[CHR 0xFF, CHR 0xFF, CHR 0x01, CHR 0x00, CHR ''a'']]) =
     ([FireReadException ''Frame larger than 65536''], [])"
proof -
  have d: "narrow minigame_decoder" by (simp add: narrow_def) (simp add: minigame_decoder_def)
  have 1: "decode_spec minigame_decoder [CHR 0x01, CHR 0x00, CHR ''a''] = (Frame ''a'', [])"
   and 2: "decode_spec minigame_decoder [] = (NeedMore, [])"
    by (simp_all add: decode_spec_def frame_length_def field_value_def order_val_def minigame_decoder_def Let_def)
  have "decode_all length (decode_spec minigame_decoder) [CHR 0x01, CHR 0x00, CHR ''a''] = ([Frame ''a''], [])"
    by (simp only: minigame_stream.all_Frame [OF 1] minigame_stream.all_stop(1) [OF 2]) simp
  moreover have "dec_nat 65536 = ''65536''" by (simp add: byte_eval)
  moreover have "frame_length minigame_decoder [CHR 0xFF, CHR 0xFF] = 65537"
      "unat (d_lengthFieldEndOffset minigame_decoder) = 2" "unat (d_maxFrameLength minigame_decoder) = 65536"
    by (simp_all add: frame_length_def field_value_def order_val_def minigame_decoder_def)
  ultimately show ?thesis
    using oversized_frame_loses_framing [OF folly_ref_laws(1) d, of "[CHR 0xFF, CHR 0xFF]" "[CHR 0x01, CHR 0x00, CHR ''a'']"]
    by simp
qed

end
