(* ===== verification/Wire_Session.thy ===== *)
theory Wire_Session
  imports Server
begin

text \<open>
  Whole conversations: clients send the bytes of register and login requests and read the
  bytes of the responses. The pipeline, the handlers and the services together implement
  the account database of theory \<open>Login_Services\<close>.
\<close>

section \<open>Requests on the wire\<close>

definition request_body :: "protobuf \<Rightarrow> u32 \<Rightarrow> Message \<Rightarrow> string" where
  "request_body P cmd_id m = le_bytes 2 (unat cmd_id) @ SerializeToString P m"

definition request_bytes :: "protobuf \<Rightarrow> u32 \<Rightarrow> Message \<Rightarrow> string" where
  "request_bytes P cmd_id m = le_bytes 2 (length (request_body P cmd_id m)) @ request_body P cmd_id m"

fun op_cmd :: "account_op \<Rightarrow> u32" where
  "op_cmd (Register q) = CMD_REGISTER"
| "op_cmd (Login q) = CMD_LOGIN"

fun op_msg :: "account_op \<Rightarrow> Message" where
  "op_msg (Register q) = MRegisterReq q"
| "op_msg (Login q) = MLoginReq q"

definition op_sendable :: "protobuf \<Rightarrow> (Message \<Rightarrow> bool) \<Rightarrow> account_op \<Rightarrow> bool" where
  "op_sendable P wire_ok op \<longleftrightarrow> op_ok wire_ok op \<and> wire_ok (op_msg op) \<and>
     length (request_body P (op_cmd op) (op_msg op)) \<le> 65534"

text \<open>A conversation: each request arrives in one buffer and is served before the next.\<close>

inductive session ::
  "folly \<Rightarrow> ('addr, 'c, 'f) LittlebPipeline \<Rightarrow> string list \<Rightarrow> ('addr, 'c, 'f) world \<Rightarrow> ('addr, 'c, 'f) world \<Rightarrow> bool"
  for F L where
  session_end: "session F L [] w w"
| session_request: "serve F L [s] w q w1 \<Longrightarrow> concat q = [] \<Longrightarrow> session F L ss w1 w' \<Longrightarrow> session F L (s # ss) w w'"

section \<open>Lemmas\<close>

lemma frame_cmd_body: "unat cmd_id < 65536 \<Longrightarrow> frame_cmd (request_body P cmd_id m) = cmd_id"
  by (simp add: frame_cmd_def request_body_def le_val_le_bytes del: le_bytes_numeral)

lemma hello_id: "player_id (basic_info hello_role) = 31"
  by (simp add: hello_role_def mutable_progress_def mutable_basic_info_def basic_info_def empty_role_def)

lemma op_cmd_small: "unat (op_cmd op) < 65536"
  by (cases op) (simp_all add: cmd_ids)

context folly_io_contiguous
begin

lemma decode_contiguous:
  assumes "decode F d [s] = (Frame f, q')" and "unat (d_initialBytesToStrip d) < length s"
  shows "f = [concat f]"
proof -
  let ?i = "unat (d_initialBytesToStrip d)"
  have t: "q_trimStart F ?i [s] = Inr [drop ?i s]"
    using trimStart_contiguous [OF assms(2), of "[]"] .
  obtain n where n: "q_split F n [drop ?i s] = Inr (f, q')"
    using assms(1) t
    by (auto simp: decode_def lift_q_def Let_def split: if_splits sum.splits)
  then have "n \<le> length (drop ?i s)"
    using split_underflow [of "[drop ?i s]" n] by (cases "n \<le> length (drop ?i s)") auto
  then show ?thesis using split_contiguous [of n "drop ?i s" "[]"] n by auto
qed

lemma decode_request:
  assumes "length (request_body P cmd_id m) \<le> 65534"
  shows "\<exists>q'. decode F minigame_decoder [request_bytes P cmd_id m] = (Frame [request_body P cmd_id m], q') \<and> concat q' = []"
proof -
  have "flat (decode F minigame_decoder [request_bytes P cmd_id m]) = (Frame (request_body P cmd_id m), [])"
    using decode_refines [of minigame_decoder "[request_bytes P cmd_id m]"] minigame.dec_enc [OF assms, of "[]"]
    by (simp add: request_bytes_def)
  moreover obtain out q' where d: "decode F minigame_decoder [request_bytes P cmd_id m] = (out, q')" by fastforce
  ultimately obtain f where f: "out = Frame f" "concat f = request_body P cmd_id m" "concat q' = []"
    by (cases out) (auto simp: flat_def)
  moreover have "unat (d_initialBytesToStrip minigame_decoder) < length (request_bytes P cmd_id m)"
    by (simp add: minigame_decoder_def request_bytes_def request_body_def)
  ultimately show ?thesis
    using decode_contiguous [of minigame_decoder "request_bytes P cmd_id m" f q'] d by auto
qed

end

context server_env
begin

lemma pull_and_add_db:
  assumes "account_rel up store P S A"
  shows "\<exists>r S'. pull_and_add R P u a S = (Inr r, S') \<and> account_rel up store P S' A"
proof -
  have c: "db_connected up S" using assms by (simp add: account_rel_def)
  obtain S1 where S1: "db_connected up S1" "db store S1 = db store S"
      "PullRoleInfoFromDB R P u S = (case role_view store P S (c_str u) of
        None \<Rightarrow> (Inr None, S1)
      | Some r \<Rightarrow> (Inr (Some (length (role_heap S))), S1\<lparr>role_heap := role_heap S @ [r]\<rparr>))"
    using Pull_eq [OF c] by blast
  have db: "db_connected up S' \<and> db store S' = db store S" if "redis_ptr S' = redis_ptr S1" for S' :: "('a, 'c) server"
    using S1(1,2) that by (simp add: db_connected_def db_def)
  show ?thesis
    using S1 account_relI [OF assms] db
    by (cases "role_view store P S (c_str u)")
      (auto simp: pull_and_add_def AddRole_def split: option.splits)
qed

lemma parse_op:
  assumes "wire_ok (op_msg op)"
  shows "ParseFromArray P (type_of (op_msg op)) (SerializeToString P (op_msg op)) = (True, op_msg op)"
proof -
  have "wf_msg (op_msg op)" by (cases op) (simp_all add: wf_msg_def)
  then obtain m' where "ParseFromArray P (type_of (op_msg op)) (SerializeToString P (op_msg op)) = (True, m')"
      "same_msg m' (op_msg op)"
    using roundtrip [OF assms] by blast
  moreover from this have "m' = op_msg op"
    by (cases op; cases m') (simp_all add: same_msg_def)
  ultimately show ?thesis by simp
qed

text \<open>A register or login message behind the parser.\<close>

lemma after_parse_op:
  assumes L: "folly_io F" "newPipeline F P R (new_LittleBPipelineFactory m) addr = Inr L" and rel: "account_rel up store P (shared w) A"
    and ok: "accounts_ok wire_ok A" "op_ok wire_ok op" "acc_gid A + 1 < 2 ^ 63"
    and fits: "reply_fits P (fst (spec_call op A))"
  shows "\<exists>w' b. after_parse R P m addr L (op_cmd op, op_msg op) w = (Inr (), w') \<and>
    account_rel up store P (shared w') (snd (spec_call op A)) \<and> accounts_ok wire_ok (snd (spec_call op A)) \<and>
    trace w' = trace w @ [Wrote b] \<and> concat b = reply_bytes P (op_cmd op) (fst (spec_call op A))"
proof -
  obtain b where b: "concat b = reply_bytes P (op_cmd op) (fst (spec_call op A))"
      "\<And>w. respond L (op_cmd op, fst (spec_call op A)) w = (Inr (), w\<lparr>trace := trace w @ [Wrote b]\<rparr>)"
    using folly_io.respond_eq [OF L fits] by blast
  show ?thesis
  proof (cases op)
    case (Register q)
    obtain S' where "MinigameRegisterService R P empty_role q (shared w) = (Inr (fst (register_spec q A)), S')"
        "account_rel up store P S' (snd (register_spec q A))"
      using register_refines [OF rel, of q empty_role] ok Register by auto
    with Register b ok register_spec_ok [OF ok(1), of q] show ?thesis
      by (intro exI [of _ "w\<lparr>shared := S', trace := trace w @ [Wrote b]\<rparr>"] exI [of _ b])
        (simp add: after_parse_def RoleInjectHandler_read_def as_RegisterReq_def spec_call_def cmd_ids)
  next
    case (Login q)
    obtain r S1 where S1: "pull_and_add R P (lq_account q) addr (shared w) = (Inr r, S1)"
        "account_rel up store P S1 A"
      using pull_and_add_db [OF rel] by blast
    obtain S' where "MinigameFakeLoginService R P empty_role q S1 = (Inr (fst (login_spec q A)), S')"
        "account_rel up store P S' (snd (login_spec q A))"
      using login_refines [OF S1(2) ok(1), of empty_role q] by auto
    with Login b S1(1) login_spec_ok [OF ok(1), of q] show ?thesis
      by (intro exI [of _ "w\<lparr>shared := S', trace := trace w @ [Wrote b]\<rparr>"] exI [of _ b])
        (simp add: after_parse_def RoleInjectHandler_read_def as_LoginReq_def spec_call_def Let_def)
  qed
qed

lemma deliver_op:
  assumes F: "folly_io F" and L: "register_services R P = Inr m" "newPipeline F P R (new_LittleBPipelineFactory m) addr = Inr L"
    and ok: "wire_ok (op_msg op)"
  shows "deliver L [request_body P (op_cmd op) (op_msg op)] w = after_parse R P m addr L (op_cmd op, op_msg op) w"
proof -
  let ?s = "request_body P (op_cmd op) (op_msg op)"
  have refl: "\<exists>d. reflection_data (snd m) (op_cmd op) = Some d \<and> request_proto d = type_of (op_msg op)"
    using L(1) unfolding register_services_eq by (cases op) (auto simp: cmd_ids)
  show ?thesis
    using folly_io.deliver_eq [OF F L(2), of ?s "[]" w] refl parse_op [OF ok] frame_cmd_body [OF op_cmd_small]
    by (auto simp: request_body_def simp del: le_bytes_numeral)
qed

lemma serve_op:
  assumes L: "folly_io_contiguous F" "register_services R P = Inr m" "newPipeline F P R (new_LittleBPipelineFactory m) addr = Inr L"
    and rel: "account_rel up store P (shared w) A"
    and ok: "accounts_ok wire_ok A" "op_sendable P wire_ok op" "acc_gid A + 1 < 2 ^ 63"
    and fits: "reply_fits P (fst (spec_call op A))"
  shows "\<exists>q w' b. serve F L [request_bytes P (op_cmd op) (op_msg op)] w q w' \<and> concat q = [] \<and>
    account_rel up store P (shared w') (snd (spec_call op A)) \<and> accounts_ok wire_ok (snd (spec_call op A)) \<and>
    trace w' = trace w @ [Wrote b] \<and> concat b = reply_bytes P (op_cmd op) (fst (spec_call op A))"
proof -
  have F: "folly_io F" using folly_io_contiguous.axioms(1) [OF L(1)] .
  let ?s = "request_body P (op_cmd op) (op_msg op)"
  have len: "length ?s \<le> 65534" and ok': "op_ok wire_ok op" "wire_ok (op_msg op)"
    using ok(2) by (simp_all add: op_sendable_def)
  obtain q where q: "decode F minigame_decoder [request_bytes P (op_cmd op) (op_msg op)] = (Frame [?s], q)" "concat q = []"
    using folly_io_contiguous.decode_request [OF L(1) len] by blast
  have stop: "decode F minigame_decoder q = (NeedMore, q)"
    by (simp add: decode_def folly_io.chainLength [OF F] q(2) minigame_decoder_def)
  have dec: "decoder L = minigame_decoder" using newPipeline_eq [of F P R m addr] L(3) by auto
  have "deliver L [?s] w = after_parse R P m addr L (op_cmd op, op_msg op) w"
    by (rule deliver_op [OF F L(2,3) ok'(2)])
  moreover obtain w' b where w': "after_parse R P m addr L (op_cmd op, op_msg op) w = (Inr (), w')"
    "account_rel up store P (shared w') (snd (spec_call op A))" "accounts_ok wire_ok (snd (spec_call op A))"
    "trace w' = trace w @ [Wrote b]" "concat b = reply_bytes P (op_cmd op) (fst (spec_call op A))"
    using after_parse_op [OF F L(3) rel ok(1) ok'(1) ok(3) fits] by blast
  ultimately have "deliver L [?s] w = (Inr (), w')" by simp
  then have "serve F L [request_bytes P (op_cmd op) (op_msg op)] w q w'"
    by (rule serve_frame [OF q(1) [folded dec] _ serve_wait [OF stop [folded dec]]])
  then show ?thesis using q(2) w'(2-5) by blast
qed

lemma session_ops:
  assumes L: "folly_io_contiguous F" "register_services R P = Inr m" "newPipeline F P R (new_LittleBPipelineFactory m) addr = Inr L"
  shows "account_rel up store P (shared w) A \<Longrightarrow> accounts_ok wire_ok A \<Longrightarrow> list_all (op_sendable P wire_ok) ops \<Longrightarrow>
    acc_gid A + int (length ops) < 2 ^ 63 \<Longrightarrow> list_all (reply_fits P) (fst (spec_calls ops A)) \<Longrightarrow>
    \<exists>w' bs. session F L (map (\<lambda>op. request_bytes P (op_cmd op) (op_msg op)) ops) w w' \<and>
      trace w' = trace w @ map Wrote bs \<and>
      map concat bs = map2 (\<lambda>op rsp. reply_bytes P (op_cmd op) rsp) ops (fst (spec_calls ops A)) \<and>
      account_rel up store P (shared w') (snd (spec_calls ops A))"
proof (induction ops arbitrary: w A)
  case Nil
  then show ?case by (auto intro: session_end)
next
  case (Cons op ops)
  obtain q w1 b where w1: "serve F L [request_bytes P (op_cmd op) (op_msg op)] w q w1" "concat q = []"
    "account_rel up store P (shared w1) (snd (spec_call op A))" "accounts_ok wire_ok (snd (spec_call op A))"
    "trace w1 = trace w @ [Wrote b]" "concat b = reply_bytes P (op_cmd op) (fst (spec_call op A))"
    using serve_op [OF L Cons.prems(1,2), of op] Cons.prems(3-5) by (auto simp: case_prod_beta Let_def)
  obtain w' bs where "session F L (map (\<lambda>op. request_bytes P (op_cmd op) (op_msg op)) ops) w1 w'"
      "trace w' = trace w1 @ map Wrote bs"
      "map concat bs = map2 (\<lambda>op rsp. reply_bytes P (op_cmd op) rsp) ops (fst (spec_calls ops (snd (spec_call op A))))"
      "account_rel up store P (shared w') (snd (spec_calls ops (snd (spec_call op A))))"
    using Cons.IH [OF w1(3,4)] Cons.prems(3-5) acc_gid_step [of A op] by (auto simp: case_prod_beta Let_def)
  with w1 show ?case
    by (intro exI [of _ w'] exI [of _ "b # bs"]) (auto simp: case_prod_beta Let_def intro: session_request)
qed

text \<open>A login with a wrong password binds the role all the same.\<close>

lemma login_wrong_password:
  assumes "db_connected up S" and "db store S (''__password_'' @ c_str (lq_account q)) = Some pw"
    and "lq_password q \<noteq> c_str pw"
  shows "\<exists>S'. MinigameFakeLoginService R P role q S = (Inr (login_rsp q LOGIN_PASSWORD_WRONG False), S') \<and> same_roles S S'"
  using redis_get [OF assms(1), of "''__password_''" "c_str (lq_account q)"] assms(2,3)
  by (auto simp: MinigameFakeLoginService_def login_rsp_def replies)

lemma pull_and_add_fresh:
  assumes "db_connected up S" and "role_view store P S (c_str u) = Some r" and "roles S a = None"
  shows "\<exists>S'. pull_and_add R P u a S = (Inr True, S') \<and> db_connected up S' \<and> db store S' = db store S \<and>
    roles S' = (roles S)(a \<mapsto> length (role_heap S)) \<and> role_heap S' = role_heap S @ [r]"
proof -
  obtain S1 where S1: "db_connected up S1" "db store S1 = db store S" "same_roles S S1"
      "PullRoleInfoFromDB R P u S = (Inr (Some (length (role_heap S))), S1\<lparr>role_heap := role_heap S @ [r]\<rparr>)"
    using Pull_eq [OF assms(1), of u] assms(2) by auto
  then show ?thesis
    using assms(3) by (simp add: pull_and_add_def AddRole_def same_roles_def db_connected_def db_def)
qed

lemma login_binds:
  assumes F: "folly_io F" and m: "register_services R P = Inr m" "newPipeline F P R (new_LittleBPipelineFactory m) addr = Inr L"
    and q: "wire_ok (MLoginReq q)" and S: "db_connected up (shared w)"
    and pw: "db store (shared w) (''__password_'' @ c_str (lq_account q)) = Some pw" "lq_password q \<noteq> c_str pw"
    and r: "role_view store P (shared w) (c_str (lq_account q)) = Some r" and a: "roles (shared w) addr = None"
    and fits: "reply_fits P (MLoginRsp (login_rsp q LOGIN_PASSWORD_WRONG False))"
  shows "\<exists>w' b p. deliver L [request_body P CMD_LOGIN (MLoginReq q)] w = (Inr (), w') \<and>
    trace w' = trace w @ [Wrote b] \<and>
    concat b = reply_bytes P CMD_LOGIN (MLoginRsp (login_rsp q LOGIN_PASSWORD_WRONG False)) \<and>
    roles (shared w') addr = Some p \<and> p < length (role_heap (shared w')) \<and> role_heap (shared w') ! p = r"
proof -
  obtain S1 where S1: "pull_and_add R P (lq_account q) addr (shared w) = (Inr True, S1)" "db_connected up S1"
      "db store S1 = db store (shared w)" "roles S1 = (roles (shared w))(addr \<mapsto> length (role_heap (shared w)))"
      "role_heap S1 = role_heap (shared w) @ [r]"
    using pull_and_add_fresh [OF S r a] by blast
  obtain S2 where S2: "MinigameFakeLoginService R P empty_role q S1 = (Inr (login_rsp q LOGIN_PASSWORD_WRONG False), S2)"
      "same_roles S1 S2"
    using login_wrong_password [OF S1(2), of q pw empty_role] S1(3) pw by auto
  obtain b where b: "concat b = reply_bytes P CMD_LOGIN (MLoginRsp (login_rsp q LOGIN_PASSWORD_WRONG False))"
      "\<And>w. respond L (CMD_LOGIN, MLoginRsp (login_rsp q LOGIN_PASSWORD_WRONG False)) w = (Inr (), w\<lparr>trace := trace w @ [Wrote b]\<rparr>)"
    using folly_io.respond_eq [OF F m(2) fits] by blast
  have "deliver L [request_body P CMD_LOGIN (MLoginReq q)] w = (Inr (), w\<lparr>shared := S2, trace := trace w @ [Wrote b]\<rparr>)"
    using deliver_op [OF F m, of "Login q" w] q S1(1) S2(1) b(2)
    by (simp add: after_parse_def RoleInjectHandler_read_def as_LoginReq_def Let_def)
  with b(1) S1 S2 show ?thesis
    by (auto simp: same_roles_def)
qed

text \<open>The start of the server.\<close>

lemma prepareAndCheck_eq:
  assumes "db_connected up S" and "wire_ok (MRoleInfo hello_role)"
  shows "\<exists>S'. prepareAndCheck R P S = (Inr (), S') \<and> db_connected up S' \<and> same_roles S S' \<and>
    db store S' = (db store S)(''__password_hello'' \<mapsto> ''world'', ''__role_hello'' \<mapsto> SerializeToString P (MRoleInfo hello_role))"
proof -
  obtain S1 where S1: "redis_cmd R ''set __password_%s %s'' [ArgS ''hello'', ArgS ''world''] S = (Inr reply_status, S1)"
      "db_connected up S1" "db store S1 = (db store S)(''__password_hello'' \<mapsto> ''world'')" "same_roles S S1"
    using redis_set_s [OF assms(1), of "''__password_''" "''hello''" "''world''"] by auto
  obtain S2 where S2: "redis_cmd R ''set __role_%s %b'' [ArgS ''hello'', ArgB (SerializeToString P (MRoleInfo hello_role))] S1
      = (Inr reply_status, S2)" "db_connected up S2" "same_roles S1 S2"
      "db store S2 = (db store S1)(''__role_hello'' \<mapsto> SerializeToString P (MRoleInfo hello_role))"
    using redis_set_b [OF S1(2), of "''__role_''" "''hello''" "SerializeToString P (MRoleInfo hello_role)"] by auto
  obtain S3 where S3: "redis_cmd R ''get __role_%s'' [ArgS ''hello''] S2
      = (Inr (reply_string (SerializeToString P (MRoleInfo hello_role))), S3)"
      "db_connected up S3" "db store S3 = db store S2" "same_roles S2 S3"
    using redis_get [OF S2(2), of "''__role_''" "''hello''"] S2(4) by (auto simp: reply_get_def)
  have "as_RoleInfo (snd (ParseFromArray P TRoleInfo (SerializeToString P (MRoleInfo hello_role)))) = Some hello_role"
    using roundtrip_role [OF assms(2)] by (simp add: as_RoleInfo_def)
  then have "prepareAndCheck R P S = (Inr (), S3)"
    using S1(1) S2(1) S3(1) by (simp add: prepareAndCheck_def) (simp add: reply_string_def)
  with S1 S2 S3 show ?thesis by (auto simp: same_roles_def)
qed

text \<open>The accounts a database holds when its player counter is a number.\<close>

lemma account_rel_db:
  assumes "db_connected up S" and "counts (db store S ''gid'') n" and "0 \<le> n"
  shows "account_rel up store P S \<lparr>acc_password = (\<lambda>k. db store S (''__password_'' @ k)),
    acc_role = role_view store P S, acc_gid = n\<rparr>"
  using assms by (simp add: account_rel_def)

lemma main_boot_eq:
  fixes S :: "('x, 'c) server"
  assumes c: "redisConnectWithTimeout R ''127.0.0.1'' 6379 (1, 500000) = Some c" "up c"
    and n: "counts (store c ''gid'') n" "0 \<le> n" "n + 1 < 2 ^ 63"
    and w: "wire_ok (MRoleInfo hello_role)" "name_ok wire_ok ''2''"
  shows "\<exists>(m :: (role_ptr, ('x, 'c) server, 'y) managers) S'.
    main_boot R P S = (Inr m, S') \<and> register_services R P = Inr m \<and> db_connected up S' \<and> same_roles S S' \<and>
    db store S' ''__password_hello'' = Some ''world'' \<and> role_view store P S' ''hello'' = Some hello_role \<and>
    (store c ''__password_2'' = None \<longrightarrow> db store S' ''__password_2'' = Some ''2'') \<and>
    (store c ''__password_2'' \<noteq> None \<longrightarrow> db store S' ''__password_2'' = store c ''__password_2'')"
proof -
  let ?S = "S\<lparr>redis_ptr := Some c\<rparr>"
  have S: "db_connected up ?S" "db store ?S = store c" using c(2) by (simp_all add: db_connected_def db_def)
  have conn: "on_redis (Connect R ''127.0.0.1'' 6379 (1, 500000)) S = (Inr c, ?S)"
    using c(1) by (simp add: on_redis_def Connect_def c_str_def)
  obtain S1 where S1: "prepareAndCheck R P ?S = (Inr (), S1)" "db_connected up S1" "same_roles ?S S1"
      "db store S1 = (store c)(''__password_hello'' \<mapsto> ''world'', ''__role_hello'' \<mapsto> SerializeToString P (MRoleInfo hello_role))"
    using prepareAndCheck_eq [OF S(1) w(1)] S(2) by auto
  let ?A = "\<lparr>acc_password = (\<lambda>k. db store S1 (''__password_'' @ k)), acc_role = role_view store P S1, acc_gid = n\<rparr>"
  have rel: "account_rel up store P S1 ?A"
    using account_rel_db [OF S1(2), of n] n S1(4) by simp
  have hello: "role_view store P S1 ''hello'' = Some hello_role"
    using S1(4) roundtrip_role [OF w(1)] by (simp add: role_view_def as_RoleInfo_def)
  obtain S2 where S2: "MinigameRegisterService R P empty_role boot_req S1 = (Inr (fst (register_spec boot_req ?A)), S2)"
      "account_rel up store P S2 (snd (register_spec boot_req ?A))" "same_roles S1 S2"
    using register_refines [OF rel, of boot_req empty_role] n(3) w(2) by (auto simp: boot_req_def)
  obtain m where m: "(register_services R P :: (role_ptr, ('x, 'c) server, 'y) managers result) = Inr m"
    using register_services_eq [of R P] by blast
  have pass: "db store S2 (''__password_'' @ k) = acc_password (snd (register_spec boot_req ?A)) k"
      "role_view store P S2 k = acc_role (snd (register_spec boot_req ?A)) k" for k
    using S2(2) by (simp_all add: account_rel_def)
  have "main_boot R P S = (Inr m, S2)"
    using conn S1(1) S2(1) m by (simp add: main_boot_def prototest_def)
  moreover have "db store S2 ''__password_hello'' = Some ''world''" "role_view store P S2 ''hello'' = Some hello_role"
      "db store S2 ''__password_2'' = (case store c ''__password_2'' of None \<Rightarrow> Some ''2'' | Some v \<Rightarrow> Some v)"
    using pass(1) [of "''hello''"] pass(2) [of "''hello''"] pass(1) [of "''2''"] hello S1(4)
    by (auto simp: register_spec_def boot_req_def c_str_def Let_def split: option.splits)
  ultimately show ?thesis
    using m S2(2,3) S1(3)
    by (intro exI [of _ m] exI [of _ S2]) (auto simp: account_rel_def same_roles_def)
qed

text \<open>The id of the account the start creates is handed out again.\<close>

lemma hello_id_again:
  assumes rel: "account_rel up store P S A" and hello: "acc_role A ''hello'' = Some hello_role" and gid: "acc_gid A = 30"
    and new: "acc_password A (c_str (rq_account q)) = None" "c_str (rq_account q) \<noteq> ''hello''"
    and name: "name_ok wire_ok (rq_account q)"
  shows "\<exists>S' r. MinigameRegisterService R P role q S = (Inr (register_rsp q REGISTER_SUCCEED), S') \<and>
    role_view store P S' (c_str (rq_account q)) = Some r \<and> role_view store P S' ''hello'' = Some hello_role \<and>
    player_id (basic_info r) = player_id (basic_info hello_role)"
proof -
  obtain S' where S': "MinigameRegisterService R P role q S = (Inr (fst (register_spec q A)), S')"
      "account_rel up store P S' (snd (register_spec q A))"
    using register_refines [OF rel name, of role] gid by auto
  have "role_view store P S' = acc_role (snd (register_spec q A))" using S'(2) by (simp add: account_rel_def)
  then show ?thesis
    using S'(1) new hello gid
    by (simp add: register_spec_def Let_def hello_id)
qed

end

end
