(* ===== verification/Response_Types.thy ===== *)
theory Response_Types
  imports Wire_Session
begin

text \<open>
  Type safety of the wire: what the server sends in answer to a command is the serialised
  form of a message of the type registered as the command's response. The registry
  guarantees it for the dispatched commands; the role handler answers logins and
  registrations on its own and has to agree with the registry.
\<close>

section \<open>Typed replies\<close>

definition typed_reply :: "protobuf \<Rightarrow> PbReflectionManager \<Rightarrow> iobuf \<Rightarrow> bool" where
  "typed_reply P M b \<longleftrightarrow> (\<exists>cmd_id rsp. GetResponseReflection cmd_id M = Inr (type_of rsp) \<and>
     drop 2 (concat b) = le_bytes 2 (unat (cmd_id + 1) mod 65536) @ SerializeToString P rsp)"

text \<open>Everything written behind the events \<open>es\<close> is typed.\<close>

definition typed_since :: "protobuf \<Rightarrow> PbReflectionManager \<Rightarrow> event list \<Rightarrow> ('addr, 'c, 'f) world \<Rightarrow> bool" where
  "typed_since P M es w \<longleftrightarrow> (\<exists>es'. trace w = es @ es' \<and> (\<forall>b. Wrote b \<in> set es' \<longrightarrow> typed_reply P M b))"

lemma typed_since_start: "typed_since P M (trace w) w"
  by (simp add: typed_since_def)

lemma typed_since_log:
  assumes "\<And>b. e = Wrote b \<Longrightarrow> typed_reply P M b"
  shows "keeps (typed_since P M es) (log_event e)"
  using assms by (fastforce simp: keeps_def typed_since_def log_event_def)

lemma typed_since_on_shared [intro!]: "keeps (typed_since P M es) (on_shared m)"
  by (simp add: keeps_def typed_since_def)

lemma typed_since_pending [intro!]: "keeps (typed_since P M es) (\<lambda>w. (Inr (), w\<lparr>pending := f w\<rparr>))"
  by (simp add: keeps_def typed_since_def)

text \<open>A continuation only has to keep an invariant for the results its computation can have.\<close>

lemma keeps_bind_result:
  assumes "keeps I m" and "\<And>x s s'. m s = (Inr x, s') \<Longrightarrow> keeps I (f x)"
  shows "keeps I (bind_act m f)"
proof (rule keepsI)
  fix s assume s: "I s"
  obtain r s' where m: "m s = (r, s')" by fastforce
  with keepsD [OF assms(1) s] have "I s'" by simp
  with m show "I (snd (bind_act m f s))"
    using keepsD [OF assms(2) [of s]] by (cases r) (simp_all add: bind_act_def)
qed

lemma on_shared_result: "on_shared m w = (Inr x, w') \<Longrightarrow> \<exists>S S'. m S = (Inr x, S')"
  by (auto simp: on_shared_def split: prod.splits)

section \<open>The response path\<close>

context folly_io
begin

lemma prepender_minigame_body:
  "prepender_write F minigame_prepender b = Inr b' \<Longrightarrow> drop 2 (concat b') = concat b"
  by (auto simp: prepender_write_def minigame_prepender_def Let_def fresh_writeLE prependChain split: if_splits
      simp del: le_bytes_numeral)

lemma respond_typed:
  assumes "newPipeline F P R (new_LittleBPipelineFactory m) addr = Inr L"
    and "GetResponseReflection cmd_id (snd m) = Inr (type_of rsp)"
  shows "keeps (typed_since P (snd m) es) (respond L (cmd_id, rsp))"
proof -
  let ?b = "le_bytes 2 (unat (cmd_id + 1) mod 65536) # [SerializeToString P rsp]"
  have "respond L (cmd_id, rsp) = bind_act (lift_res (prepender_write F minigame_prepender ?b)) (\<lambda>b. log_event (Wrote b))"
    using newPipeline_eq [of F P R m addr] assms(1)
    by (simp add: fun_eq_iff serialize_write_eq OpcodeInjectHandler_write_def opcode_write_eq LengthFieldPrepender_write_def
        bind_act_def del: le_bytes_numeral)
  moreover have "typed_reply P (snd m) b" if "prepender_write F minigame_prepender ?b = Inr b" for b
    using prepender_minigame_body [OF that] assms(2) unfolding typed_reply_def by fastforce
  ultimately show ?thesis
    by (auto intro!: keeps_bind_result typed_since_log simp: lift_res_def)
qed

end

section \<open>The request path\<close>

lemma registered_types:
  assumes "register_services R P = Inr m"
  shows "typed_registry m"
    and "async_services (fst m) = Map.empty"
    and "GetResponseReflection CMD_LOGIN (snd m) = Inr TLoginRsp"
    and "GetResponseReflection CMD_REGISTER (snd m) = Inr TRegisterRsp"
proof -
  have step: "in_sync m2 \<and> typed_registry m2"
    if "in_sync m1 \<and> typed_registry m1" "well_typed T" "RegisterSyncCommand cmd_id T m1 = Inr (ok, m2)" for cmd_id T m1 ok m2
    using that RegisterSyncCommand_typed RegisterSyncCommand_in_sync by blast
  show "typed_registry m"
    using assms typed_registry_new in_sync_new unfolding register_services_def
    by (auto simp: bind_res_def split: sum.splits prod.splits dest!: step [rotated 2])
qed (use assms in \<open>auto simp: register_services_eq GetResponseReflection_def cmd_ids\<close>)

context folly_io
begin

lemma distribute_typed:
  assumes L: "newPipeline F P R (new_LittleBPipelineFactory m) addr = Inr L" and m: "typed_registry m" "async_services (fst m) = Map.empty"
    and d: "reflection_data (snd m) cmd_id = Some d"
  shows "keeps (typed_since P (snd m) es)
    (CommandDistributor_read (new_CommandDistributor (fst m)) (context_of addr no_read (respond L)) (cmd_id, p, req))"
proof -
  have "keeps (typed_since P (snd m) es) (respond L (cmd_id, rsp))"
    if "on_shared (RunSyncService (fst m) cmd_id p req) w = (Inr rsp, w')" for rsp w w'
  proof (rule respond_typed [OF L])
    from on_shared_result [OF that] obtain S S' where "RunSyncService (fst m) cmd_id p req S = (Inr rsp, S')"
      by blast
    then obtain f where "sync_services (fst m) cmd_id = Some f" "f p req S = (Inr rsp, S')"
      by (auto simp: RunSyncService_def raise_act_def split: option.splits)
    from typed_registryD [OF m(1) d this] show "GetResponseReflection cmd_id (snd m) = Inr (type_of rsp)"
      by (simp add: GetResponseReflection_def d)
  qed
  then show ?thesis
    unfolding CommandDistributor_read_def Let_def using m(2) by (auto simp: IsAsyncCmd_def intro!: keeps_bind_result)
qed

lemma after_parse_typed:
  assumes L: "register_services R P = Inr m" "newPipeline F P R (new_LittleBPipelineFactory m) addr = Inr L"
    and d: "reflection_data (snd m) cmd_id = Some d"
  shows "keeps (typed_since P (snd m) es) (after_parse R P m addr L (cmd_id, req))"
  using respond_typed [OF L(2)] distribute_typed [OF L(2) registered_types(1,2) [OF L(1)] d] registered_types(3,4) [OF L(1)]
  by (auto simp: after_parse_def RoleInjectHandler_read_def Let_def split: option.splits intro!: keeps_bind)

lemma deliver_typed:
  assumes L: "register_services R P = Inr m" "newPipeline F P R (new_LittleBPipelineFactory m) addr = Inr L"
  shows "keeps (typed_since P (snd m) es) (deliver L f)"
proof -
  have "keeps (typed_since P (snd m) es) (after_parse R P m addr L (cmd_id, pb))" if "IsValidCmd cmd_id (snd m)" for cmd_id pb
    using that after_parse_typed [OF L] by (auto simp: IsValidCmd_def)
  then show ?thesis
    using newPipeline_eq [of F P R m addr] L(2)
    by (auto simp: after_parse_def [symmetric] CmdMessageSerializeHandler_read_def Let_def split: prod.splits
        intro!: keeps_bind typed_since_log)
qed

lemma serve_typed:
  assumes L: "register_services R P = Inr m" "newPipeline F P R (new_LittleBPipelineFactory m) addr = Inr L"
    and "serve F L q w q' w'"
  shows "typed_since P (snd m) (trace w) w'"
proof (rule serve_keeps [OF assms(3)])
  show "keeps (typed_since P (snd m) (trace w)) (deliver_exception L e)" for e
    using newPipeline_eq [of F P R m addr] L(2) by (auto intro!: typed_since_log)
qed (simp_all add: deliver_typed [OF L] typed_since_start)

end

section \<open>Properties\<close>

text \<open>
  C12: responses are well typed. Whatever bytes a client sends to the booted server, every
  frame the server writes while it serves them carries the id of a registered command plus
  one and the serialised form of a message of exactly the type registered as that command's
  response; this includes logins and registrations, which do not go through the registry.
\<close>

theorem responses_have_registered_types:
  assumes "folly_io F" and "register_services R P = Inr m"
    and "newPipeline F P R (new_LittleBPipelineFactory m) addr = Inr L" and "serve F L q w q' w'"
  shows "\<exists>es. trace w' = trace w @ es \<and>
    (\<forall>b. Wrote b \<in> set es \<longrightarrow> (\<exists>cmd_id rsp. GetResponseReflection cmd_id (snd m) = Inr (type_of rsp) \<and>
       drop 2 (concat b) = le_bytes 2 (unat (cmd_id + 1) mod 65536) @ SerializeToString P rsp))"
  using folly_io.serve_typed [OF assms] by (simp only: typed_since_def typed_reply_def)

section \<open>Witness\<close>

text \<open>Bob registers with an empty database.\<close>

definition empty_world :: "(nat, string \<Rightarrow> string option, nat) world" where
  "empty_world = \<lparr>shared = server0, trace = [], pending = []\<rparr>"

definition bob_bytes :: string where
  "bob_bytes = request_bytes protobuf_ref CMD_REGISTER (MRegisterReq register_bob)"

lemma serve_bob:
  fixes m :: "(role_ptr, (nat, string \<Rightarrow> string option) server, nat) managers"
  assumes "register_services redis_ref protobuf_ref = Inr m"
    and "newPipeline folly_ref protobuf_ref redis_ref (new_LittleBPipelineFactory m) 5 = Inr L"
  shows "\<exists>q w b. serve folly_ref L [bob_bytes] empty_world q w \<and> concat q = [] \<and> trace w = [Wrote b]"
proof -
  have rel: "account_rel (\<lambda>_. True) (\<lambda>m. m) protobuf_ref (shared empty_world) accounts0"
    using account_rel0 by (simp add: empty_world_def)
  have ok: "op_sendable protobuf_ref wire_ok_ref (Register register_bob)" "acc_gid accounts0 + 1 < 2 ^ 63"
    by (simp_all add: op_sendable_def account_examples accounts0_def request_body_def protobuf_ref_def codec_eval)
  have fits: "reply_fits protobuf_ref (fst (spec_call (Register register_bob) accounts0))"
    by (auto simp: spec_call_def register_spec_def reply_fits_def protobuf_ref_def put_u32_def Let_def split: option.splits)
  show ?thesis
    using env_ref.serve_op [OF folly_ref_laws(2) assms rel accounts_ok0 ok fits]
    by (auto simp: bob_bytes_def empty_world_def)
qed

theorem responses_have_registered_types_witness:
  "\<exists>m L q w b rsp cmd_id. register_services redis_ref protobuf_ref = Inr m \<and>
     newPipeline folly_ref protobuf_ref redis_ref (new_LittleBPipelineFactory m) 5 = Inr L \<and>
     serve folly_ref L [bob_bytes] empty_world q w \<and> trace w = [Wrote b] \<and>
     GetResponseReflection cmd_id (snd m) = Inr (type_of rsp) \<and>
     drop 2 (concat b) = le_bytes 2 (unat (cmd_id + 1) mod 65536) @ SerializeToString protobuf_ref rsp"
proof (rule pipeline_exists [of redis_ref protobuf_ref folly_ref 5])
  fix m :: "(role_ptr, (nat, string \<Rightarrow> string option) server, nat) managers" and L
  assume m: "register_services redis_ref protobuf_ref = Inr m"
    "newPipeline folly_ref protobuf_ref redis_ref (new_LittleBPipelineFactory m) 5 = Inr L"
  obtain q w b where s: "serve folly_ref L [bob_bytes] empty_world q w" "trace w = [Wrote b]"
    using serve_bob [OF m] by blast
  from responses_have_registered_types [OF folly_ref_laws(1) m s(1)] s(2) m s(1) show ?thesis
    by (fastforce simp: empty_world_def simp del: le_bytes_numeral)
qed

end
