(* ===== verification/Connections.thy ===== *)
theory Connections
  imports Response_Types
begin

text \<open>
  The running server: what \<open>main\<close> leaves behind when it listens, and the events wangle drives
  it with. Connections come and go, each with its input queue, what was sent on it and the
  continuations that wait for futures; all of them share the objects of \<open>main\<close>. The events of
  different connections interleave, each handled to its end. An exception that leaves a
  handler is not caught anywhere in the sources, so there is no event after it.
\<close>

section \<open>State and events\<close>

record 'f connection =
  conn_queue :: iobufq
  conn_trace :: "event list"
  conn_pending :: "('f \<times> u32) list"

record ('addr, 'c, 'f) running =
  live_state :: "('addr, 'c) server"
  conns :: "'addr \<Rightarrow> 'f connection option"

definition new_connection :: "'f connection" where
  "new_connection = \<lparr>conn_queue = [], conn_trace = [], conn_pending = []\<rparr>"

definition listening :: "('addr, 'c) server \<Rightarrow> ('addr, 'c, 'f) running" where
  "listening S = \<lparr>live_state = S, conns = Map.empty\<rparr>"

text \<open>What the handlers of a connection see, and putting back what they leave.\<close>

definition conn_world :: "('addr, 'c, 'f) running \<Rightarrow> 'f connection \<Rightarrow> ('addr, 'c, 'f) world" where
  "conn_world X c = \<lparr>shared = live_state X, trace = conn_trace c, pending = conn_pending c\<rparr>"

definition put_conn ::
  "'addr \<Rightarrow> iobufq \<Rightarrow> ('addr, 'c, 'f) world \<Rightarrow> ('addr, 'c, 'f) running \<Rightarrow> ('addr, 'c, 'f) running" where
  "put_conn a q w X = X\<lparr>live_state := shared w,
     conns := (conns X)(a \<mapsto> \<lparr>conn_queue = q, conn_trace = trace w, conn_pending = pending w\<rparr>)\<rparr>"

inductive run_step ::
  "folly \<Rightarrow> protobuf \<Rightarrow> 'c hiredis \<Rightarrow> ('addr, 'c, 'f) LittleBPipelineFactory
     \<Rightarrow> ('addr, 'c, 'f) running \<Rightarrow> ('addr, 'c, 'f) running \<Rightarrow> bool"
  for F P R factory where
  accept: "conns X a = None \<Longrightarrow> newPipeline F P R factory a = Inr L \<Longrightarrow>
    run_step F P R factory X (X\<lparr>conns := (conns X)(a \<mapsto> new_connection)\<rparr>)"
| receive: "conns X a = Some c \<Longrightarrow> newPipeline F P R factory a = Inr L \<Longrightarrow>
    serve F L (conn_queue c @ [s]) (conn_world X c) q w \<Longrightarrow> run_step F P R factory X (put_conn a q w X)"
| future: "conns X a = Some c \<Longrightarrow> newPipeline F P R factory a = Inr L \<Longrightarrow>
    complete L i rsp (conn_world X c) = (Inr (), w) \<Longrightarrow>
    run_step F P R factory X (put_conn a (conn_queue c) w X)"
| disconnect: "conns X a = Some c \<Longrightarrow> newPipeline F P R factory a = Inr L \<Longrightarrow>
    inactive L (conn_world X c) = (Inr (), w) \<Longrightarrow>
    run_step F P R factory X (X\<lparr>live_state := shared w, conns := (conns X)(a := None)\<rparr>)"

abbreviation reaches ::
  "folly \<Rightarrow> protobuf \<Rightarrow> 'c hiredis \<Rightarrow> ('addr, 'c, 'f) LittleBPipelineFactory
     \<Rightarrow> ('addr, 'c, 'f) running \<Rightarrow> ('addr, 'c, 'f) running \<Rightarrow> bool" where
  "reaches F P R factory \<equiv> rtranclp (run_step F P R factory)"

lemma running_simps [simp]:
  "shared (conn_world X c) = live_state X" "pending (conn_world X c) = conn_pending c" "trace (conn_world X c) = conn_trace c"
  "live_state (put_conn a q w X) = shared w"
  "conns (put_conn a q w X) = (conns X)(a \<mapsto> \<lparr>conn_queue = q, conn_trace = trace w, conn_pending = pending w\<rparr>)"
  by (simp_all add: conn_world_def put_conn_def)

section \<open>Invariants of the shared state\<close>

lemma complete_keeps:
  assumes "newPipeline F P R (new_LittleBPipelineFactory m) addr = Inr L"
  shows "keeps (\<lambda>w. I (shared w)) (complete L i rsp)"
proof (rule keepsI)
  fix w :: "('a, 'b, 'c) world" assume "I (shared w)"
  moreover have "complete L = future_ready (context_of addr no_read (respond L))"
    using newPipeline_eq [of F P R m addr] assms by auto
  ultimately show "I (shared (snd (complete L i rsp w)))"
    using keepsD [OF keeps_respond [OF assms, of I], of "w\<lparr>pending := take i (pending w) @ drop (Suc i) (pending w)\<rparr>"]
    by (cases rsp) (simp_all add: future_ready_def)
qed

lemma inactive_eq:
  assumes "newPipeline F P R factory addr = Inr L"
  shows "inactive L = log_event EndTransportInactive"
  using assms
  by (auto simp: newPipeline_def bind_res_def Let_def RoleInjectHandler_transportInactive_def context_of_def
      split: sum.splits)

context frame_inv
begin

lemma step_keeps_inv:
  assumes "run_step F P R factory X Y" and "register_services R P = Inr m" and "factory = new_LittleBPipelineFactory m"
    and "I (live_state X)"
  shows "I (live_state Y)"
  using assms(1)
proof cases
  case (receive a c L s q w)
  with serve_keeps_inv [OF assms(2), of F a L] assms(3,4) show ?thesis by simp
next
  case (future a c L i rsp w)
  with keepsD [OF complete_keeps, of F P R m a L I "conn_world X c" i rsp] assms(3,4) show ?thesis by simp
next
  case (disconnect a c L w)
  then show ?thesis using assms(4) inactive_eq [of F P R factory a L] by (auto simp: log_event_def)
qed (use assms(4) in simp)

lemma reach_keeps_inv:
  assumes "reaches F P R factory X Y" and "register_services R P = Inr m" and "factory = new_LittleBPipelineFactory m"
    and "I (live_state X)"
  shows "I (live_state Y)"
  using assms(1) assms(4) by (induction rule: rtranclp_induct) (auto dest: step_keeps_inv [OF _ assms(2,3)])

end

section \<open>Starting up\<close>

lemma main_server_result:
  assumes "main_server bind R P S = (Inr factory, S')"
  shows "\<exists>m. register_services R P = Inr m \<and> factory = new_LittleBPipelineFactory m"
  using assms
  by (auto simp: main_server_def main_boot_def bind_act_def lift_res_def ret_act_def Let_def split: prod.splits sum.splits)

lemma same_roles_refl: "same_roles S S"
  by (simp add: same_roles_def)

lemma keeps_same_roles:
  "keeps (same_roles S) (redis_cmd R f as)" "keeps (same_roles S) (on_redis c)"
  by (auto simp: keeps_def same_roles_def on_redis_def split: prod.splits)

lemma main_server_keeps: "keeps (same_roles S) (main_server bind R P)"
  unfolding main_server_def main_boot_def prepareAndCheck_def prototest_def MinigameRegisterService_def Let_def
  by (auto intro!: keeps_bind keeps_same_roles split: option.splits)

lemma main_server_frame:
  assumes "main_server bind R P S = (r, S')"
  shows "same_roles S S'"
proof -
  have "same_roles S (snd (r, S'))"
    unfolding assms [symmetric] by (rule keepsD) (rule main_server_keeps, rule same_roles_refl)
  then show ?thesis by simp
qed

section \<open>No continuation waits\<close>

text \<open>The server registers synchronous commands only, so nothing ever waits for a future.\<close>

lemma idle_shared [intro!]: "keeps (\<lambda>w. pending w = []) (on_shared c)"
  by (simp add: keeps_def)

lemma idle_log [intro!]: "keeps (\<lambda>w. pending w = []) (log_event e)"
  by (simp add: keeps_def log_event_def)

lemma idle_respond:
  assumes "newPipeline F P R (new_LittleBPipelineFactory m) addr = Inr L"
  shows "keeps (\<lambda>w. pending w = []) (respond L msg)"
  using newPipeline_eq [of F P R m addr] assms
  by (auto simp: CmdMessageSerializeHandler_write_def OpcodeInjectHandler_write_def LengthFieldPrepender_write_def Let_def
      intro!: keeps_bind)

lemma idle_deliver:
  assumes L: "newPipeline F P R (new_LittleBPipelineFactory m) addr = Inr L" and m: "async_services (fst m) = Map.empty"
  shows "keeps (\<lambda>w. pending w = []) (deliver L f)"
proof -
  have "keeps (\<lambda>w. pending w = []) (after_parse R P m addr L msg)" for msg
    using idle_respond [OF L] m
    by (auto simp: after_parse_def RoleInjectHandler_read_def CommandDistributor_read_def IsAsyncCmd_def Let_def
        split: option.splits prod.splits intro!: keeps_bind)
  then show ?thesis
    using newPipeline_eq [of F P R m addr] L
    by (auto simp: after_parse_def [symmetric] CmdMessageSerializeHandler_read_def Let_def split: prod.splits
        intro!: keeps_bind)
qed

definition idle :: "('addr, 'c, 'f) running \<Rightarrow> bool" where
  "idle X \<longleftrightarrow> (\<forall>a c. conns X a = Some c \<longrightarrow> conn_pending c = [])"

lemma idle_step:
  assumes "run_step F P R factory X Y" and m: "register_services R P = Inr m" "factory = new_LittleBPipelineFactory m"
    and "idle X"
  shows "idle Y"
  using assms(1)
proof cases
  case (receive a c L s q w)
  from receive(3) m(2) have L: "newPipeline F P R (new_LittleBPipelineFactory m) a = Inr L" by simp
  have "keeps (\<lambda>w. pending w = []) (deliver_exception L e)" for e
    using newPipeline_eq [of F P R m a] L by auto
  from serve_keeps [OF receive(4) idle_deliver [OF L registered_types(2) [OF m(1)]] this]
  show ?thesis using receive(1,2) assms(4) by (auto simp: idle_def)
next
  case (future a c L i rsp w)
  then have "w = conn_world X c"
    using newPipeline_eq [of F P R m a] m(2) assms(4) by (auto simp: future_ready_def idle_def)
  with future(1,2) assms(4) show ?thesis by (auto simp: idle_def)
qed (use assms(4) in \<open>auto simp: idle_def new_connection_def split: if_splits\<close>)

lemma idle_reach:
  assumes "reaches F P R factory X Y" and "register_services R P = Inr m" "factory = new_LittleBPipelineFactory m"
    and "idle X"
  shows "idle Y"
  using assms(1,4) by (induction rule: rtranclp_induct) (auto dest: idle_step [OF _ assms(2,3)])

section \<open>Property\<close>

text \<open>
  C10: the running server. Whatever sequence of connections, disconnections and bytes of any
  number of clients follows on a start of the server, and whatever the database answers: the
  pointers of the role table are valid and unshared, the shared task cache is empty, no
  continuation waits for a future, and an address bound to a role stays bound to it for
  good, also when its client disconnects and somebody else connects from the same address.
\<close>

theorem running_server_invariant:
  assumes "main_server bind R P new_server = (Inr factory, S)" and "reaches F P R factory (listening S) X"
  shows "roles_ok (live_state X) \<and> task_manager (live_state X) = new_TaskDataManager \<and>
    (\<forall>a c. conns X a = Some c \<longrightarrow> conn_pending c = []) \<and>
    (\<forall>Y a p. reaches F P R factory X Y \<longrightarrow> roles (live_state X) a = Some p \<longrightarrow> roles (live_state Y) a = Some p)"
proof -
  obtain m where m: "register_services R P = Inr m" "factory = new_LittleBPipelineFactory m"
    using main_server_result [OF assms(1)] by blast
  have S: "roles_ok S" "task_manager S = new_TaskDataManager"
    using main_server_frame [OF assms(1)] by (auto simp: same_roles_def new_server_eq roles_ok_def)
  have "roles_ok (live_state X)"
    by (rule roles_frame.reach_keeps_inv [OF assms(2) m]) (simp add: listening_def S)
  moreover have "cached new_TaskDataManager (live_state X)"
    by (rule cache_frame.reach_keeps_inv [OF assms(2) m]) (simp add: listening_def S cached_def)
  moreover have "idle X"
    by (rule idle_reach [OF assms(2) m]) (simp add: listening_def idle_def)
  moreover have "roles (live_state Y) a = Some p" if "reaches F P R factory X Y" "roles (live_state X) a = Some p" for Y a p
    using bound_frame.reach_keeps_inv [OF that(1) m, of a p] that(2) by (simp add: bound_def)
  ultimately show ?thesis unfolding cached_def idle_def by blast
qed

text \<open>A client connects and goes away; another one connects from the same address.\<close>

lemma ref_starts:
  "\<exists>factory S. main_server (\<lambda>_. Inr ()) redis_ref protobuf_ref new_server =
     (Inr (factory :: (nat, string \<Rightarrow> string option, nat) LittleBPipelineFactory), S)"
proof -
  have "redisConnectWithTimeout redis_ref ''127.0.0.1'' 6379 (1, 500000) = Some Map.empty"
    by (simp add: redis_ref_def)
  moreover have "wire_ok_ref (MRoleInfo hello_role)"
    by (simp add: hello_role_def mutable_progress_def mutable_basic_info_def basic_info_def)
  moreover have "name_ok wire_ok_ref ''2''" by (rule name_ok_ref) simp
  ultimately obtain m :: "(role_ptr, (nat, string \<Rightarrow> string option) server, nat) managers" and S
    where "main_boot redis_ref protobuf_ref new_server = (Inr m, S)"
    using env_ref.main_boot_eq [of "Map.empty" 0 new_server] by (auto simp: counts_def)
  then show ?thesis by (simp add: main_server_def)
qed

lemma reconnects:
  assumes L: "newPipeline F P R factory a = Inr L" and a: "conns X a = None"
  shows "\<exists>Y. reaches F P R factory X Y \<and> live_state Y = live_state X \<and> conns Y a = Some new_connection"
proof -
  let ?X1 = "X\<lparr>conns := (conns X)(a \<mapsto> new_connection)\<rparr>"
  let ?Y = "?X1\<lparr>live_state := live_state X, conns := (conns ?X1)(a := None, a \<mapsto> new_connection)\<rparr>"
  have 1: "run_step F P R factory X ?X1"
    by (rule accept [OF a L])
  have "run_step F P R factory ?X1 (?X1\<lparr>live_state := live_state X, conns := (conns ?X1)(a := None)\<rparr>)"
    using disconnect [of ?X1 a new_connection F P R factory L "(conn_world ?X1 new_connection)\<lparr>trace := [EndTransportInactive]\<rparr>"] L
    by (simp add: inactive_eq [OF L] log_event_def new_connection_def)
  moreover have "run_step F P R factory (?X1\<lparr>live_state := live_state X, conns := (conns ?X1)(a := None)\<rparr>)
      ?Y"
    using accept [of "?X1\<lparr>live_state := live_state X, conns := (conns ?X1)(a := None)\<rparr>" a F P R factory L] L by simp
  ultimately have "reaches F P R factory X ?Y"
    using 1 by (meson rtranclp.intros)
  then show ?thesis by (intro exI [of _ ?Y] conjI) simp_all
qed

theorem running_server_invariant_witness:
  "\<exists>(factory :: (nat, string \<Rightarrow> string option, nat) LittleBPipelineFactory) S X.
     main_server (\<lambda>_. Inr ()) redis_ref protobuf_ref new_server = (Inr factory, S) \<and>
     reaches folly_ref protobuf_ref redis_ref factory (listening S) X \<and> conns X 5 = Some new_connection \<and>
     roles_ok (live_state X) \<and> task_manager (live_state X) = new_TaskDataManager"
proof -
  obtain factory :: "(nat, string \<Rightarrow> string option, nat) LittleBPipelineFactory" and S
    where start: "main_server (\<lambda>_. Inr ()) redis_ref protobuf_ref new_server = (Inr factory, S)"
    using ref_starts by blast
  obtain L where L: "newPipeline folly_ref protobuf_ref redis_ref factory 5 = Inr L"
    using main_server_result [OF start] newPipeline_eq by metis
  obtain X where "reaches folly_ref protobuf_ref redis_ref factory (listening S) X" "conns X 5 = Some new_connection"
    using reconnects [OF L, of "listening S"] by (auto simp: listening_def)
  with running_server_invariant [OF start] start show ?thesis by blast
qed

end
