(* ===== verification/Service_Errors.thy ===== *)
theory Service_Errors
  imports Login_Services Task_Services
begin

text \<open>
  The services when redis refuses a command or an entry is damaged. A registration whose
  \<open>incr gid\<close> is refused has stored the password already and takes nothing back; a progress
  entry that does not parse is used as far as it was read.
\<close>

section \<open>A registration that fails half-way\<close>

definition op_name :: "account_op \<Rightarrow> string" where
  "op_name op = (case op of Register q \<Rightarrow> c_str (rq_account q) | Login q \<Rightarrow> c_str (lq_account q))"

text \<open>What an account with the password \<open>pw\<close> and no role answers.\<close>

definition roleless_answer :: "string \<Rightarrow> account_op \<Rightarrow> Message" where
  "roleless_answer pw op = (case op of
     Register q \<Rightarrow> MRegisterRsp (register_rsp q ACCOUNT_ALREADY_EXIST)
   | Login q \<Rightarrow> MLoginRsp (login_rsp q (if lq_password q = pw then LOGIN_UNKOWN_EORROR else LOGIN_PASSWORD_WRONG) False))"

context server_env
begin

lemma role_view_unchanged: "db store S' = db store S \<Longrightarrow> role_view store P S' = role_view store P S"
  by (simp add: role_view_def fun_eq_iff)

lemma register_incr_refused:
  assumes c: "db_connected up S" and free: "db store S (''__password_'' @ c_str (rq_account q)) = None"
    and v: "db store S ''gid'' = Some v" "refuses_incr v"
  shows "\<exists>S'. MinigameRegisterService R P role q S = (Inr (register_rsp q REGISTER_UNKOWN_EORROR), S') \<and>
    db_connected up S' \<and> same_roles S S' \<and>
    db store S' = (db store S)(''__password_'' @ c_str (rq_account q) \<mapsto> c_str (rq_password q))"
proof -
  let ?k = "c_str (rq_account q)" and ?pw = "c_str (rq_password q)"
  obtain S1 where S1: "redis_cmd R ''get __password_%s'' [ArgS ?k] S = (Inr reply_nil, S1)"
      "db_connected up S1" "db store S1 = db store S" "same_roles S S1"
    using redis_get [OF c, of "''__password_''" ?k] free by (auto simp: reply_get_def)
  obtain S2 where S2: "redis_cmd R ''set __password_%s %s'' [ArgS ?k, ArgS ?pw] S1 = (Inr reply_status, S2)"
      "db_connected up S2" "db store S2 = (db store S1)(''__password_'' @ ?k \<mapsto> ?pw)" "same_roles S1 S2"
    using redis_set_s [OF S1(2), of "''__password_''" ?k ?pw] by auto
  obtain e S3 where S3: "redis_cmd R ''incr gid'' [] S2 = (Inr (reply_error e), S3)"
      "db_connected up S3" "db store S3 = db store S2" "same_roles S2 S3"
    using redis_incr_refused [OF S2(2), of "''gid''" v] v S1(3) S2(3) by auto
  show ?thesis
    using S1 S2 S3
    by (intro exI [of _ S3]) (simp add: MinigameRegisterService_def register_rsp_def Let_def same_roles_def)
qed

lemma roleless_call:
  assumes c: "db_connected up S" and pw: "db store S (''__password_'' @ op_name op) = Some pw" "c_str pw = pw"
    and role: "role_view store P S (op_name op) = None"
  shows "\<exists>S'. account_call R P role op S = (Inr (roleless_answer pw op), S') \<and> db_connected up S' \<and> db store S' = db store S"
proof -
  obtain S1 where S1: "redis_cmd R ''get __password_%s'' [ArgS (op_name op)] S = (Inr (reply_string pw), S1)"
      "db_connected up S1" "db store S1 = db store S"
    using redis_get [OF c, of "''__password_''" "op_name op"] pw by (auto simp: reply_get_def)
  show ?thesis
  proof (cases op)
    case (Register q)
    with S1 show ?thesis
      by (intro exI [of _ S1])
        (simp add: account_call_def op_name_def roleless_answer_def MinigameRegisterService_def register_rsp_def Let_def)
  next
    case (Login q)
    obtain S2 where S2: "PullRoleInfoFromDB R P (lq_account q) S1 = (Inr None, S2)" "db_connected up S2" "db store S2 = db store S1"
      using Pull_eq [OF S1(2), of "lq_account q"] role role_view_unchanged [OF S1(3)] Login by (auto simp: op_name_def)
    show ?thesis
      using S1 S2 Login pw(2)
      by (intro exI [of _ "if lq_password q = pw then S2 else S1"])
        (simp add: account_call_def op_name_def roleless_answer_def MinigameFakeLoginService_def login_rsp_def Let_def reply_string_def)
  qed
qed

lemma roleless_calls:
  assumes "db_connected up S" and "db store S (''__password_'' @ k) = Some pw" and "c_str pw = pw"
    and "role_view store P S k = None" and "list_all (\<lambda>op. op_name op = k) ops"
  shows "\<exists>S'. account_calls R P role ops S = (Inr (map (roleless_answer pw) ops), S') \<and> db_connected up S' \<and> db store S' = db store S"
  using assms
proof (induction ops arbitrary: S)
  case (Cons op ops)
  then have op: "op_name op = k" by simp
  obtain S1 where S1: "account_call R P role op S = (Inr (roleless_answer pw op), S1)" "db_connected up S1" "db store S1 = db store S"
    using roleless_call [of S op pw role] Cons.prems unfolding op by blast
  obtain S2 where "account_calls R P role ops S1 = (Inr (map (roleless_answer pw) ops), S2)" "db_connected up S2" "db store S2 = db store S1"
    using Cons.IH [OF S1(2)] Cons.prems S1(3) role_view_unchanged [OF S1(3)] by auto
  with S1 show ?case by simp
qed simp

lemma half_registered:
  assumes c: "db_connected up S" and free: "db store S (''__password_'' @ c_str (rq_account q)) = None"
    and role: "role_view store P S (c_str (rq_account q)) = None"
    and v: "db store S ''gid'' = Some v" "refuses_incr v" and ops: "list_all (\<lambda>op. op_name op = c_str (rq_account q)) ops"
  shows "\<exists>S'. account_calls R P role (Register q # ops) S =
    (Inr (MRegisterRsp (register_rsp q REGISTER_UNKOWN_EORROR) # map (roleless_answer (c_str (rq_password q))) ops), S')"
proof -
  obtain S1 where S1: "MinigameRegisterService R P role q S = (Inr (register_rsp q REGISTER_UNKOWN_EORROR), S1)" "db_connected up S1"
      "db store S1 = (db store S)(''__password_'' @ c_str (rq_account q) \<mapsto> c_str (rq_password q))"
    using register_incr_refused [OF c free v, of role] by blast
  have "role_view store P S1 = role_view store P S" by (simp add: role_view_def S1(3) fun_eq_iff)
  with roleless_calls [OF S1(2), of "c_str (rq_account q)" "c_str (rq_password q)" ops role] S1 role ops
  show ?thesis by (auto simp: account_call_def)
qed

section \<open>Damaged progress\<close>

lemma damaged_progress:
  assumes c: "db_connected up S" and p: "p < length (role_heap S)" and gid: "gid = player S p"
    and bad: "db store S (task_key gid) = Some s" "ParseFromArray P TDBTaskInfo s = (False, MDBTaskInfo t)"
    and req: "in_range req" and cap: "task_capacity wire_ok n" "card (dom (fst (progress_of t))) + length (finished_task_ids req) \<le> n"
  shows "(\<exists>S1 ids. TaskQueryService R P new_TaskDataManager p q S =
      (Inr (task_query_rsp q TASK_SUCCEED ids (double_of_i32 (db_position_x t)) (double_of_i32 (db_position_y t))), S1) \<and>
      set ids = {i. fst (progress_of t) i = Some FINISH}) \<and>
    (\<exists>S2. TaskUpdateService R P new_TaskDataManager p req S = (Inr (task_update_rsp req TASK_SUCCEED), S2) \<and>
      task_view store P S2 = (task_view store P S)(gid \<mapsto>
        update_progress (finished_task_ids req) (pos (tu_position_x req)) (pos (tu_position_y req)) (Some (progress_of t))))"
proof
  have view: "task_view store P S gid = Some (progress_of t)" using bad by (simp add: task_view_def as_DBTaskInfo_def)
  have t: "task_infos new_TaskDataManager gid = None" by (simp add: new_TaskDataManager_def)
  note gid = gid [unfolded player_def]
  show "\<exists>S1 ids. TaskQueryService R P new_TaskDataManager p q S =
      (Inr (task_query_rsp q TASK_SUCCEED ids (double_of_i32 (db_position_x t)) (double_of_i32 (db_position_y t))), S1) \<and>
      set ids = {i. fst (progress_of t) i = Some FINISH}"
    using TaskQuery_refines [OF c p gid t, of q] view by (fastforce simp: progress_of_def)
  have "card (dom (fst (update_progress (finished_task_ids req) (pos (tu_position_x req)) (pos (tu_position_y req)) (Some (progress_of t))))) \<le> n"
    using cap(2) card_update_progress [of "finished_task_ids req" "pos (tu_position_x req)" "pos (tu_position_y req)" "Some (progress_of t)"]
    by (simp add: progress_of_def)
  with TaskUpdate_refines [OF c p gid t _ _ cap(1), of req] req view
  show "\<exists>S2. TaskUpdateService R P new_TaskDataManager p req S = (Inr (task_update_rsp req TASK_SUCCEED), S2) \<and>
      task_view store P S2 = (task_view store P S)(gid \<mapsto>
        update_progress (finished_task_ids req) (pos (tu_position_x req)) (pos (tu_position_y req)) (Some (progress_of t)))"
    by (fastforce simp: in_range_def)
qed

end

section \<open>Properties\<close>

text \<open>
  C21: a registration that fails half-way blocks its account for good. When the player counter
  is a value redis refuses to count on, the registration of a free account answers an unknown
  error but keeps the password it has stored; from then on, in any sequence of requests for
  that account, every registration is answered with already exists and every login, with
  the right password too, fails.
\<close>

theorem failed_registration_blocks_account:
  assumes "server_env R up store P wire_ok" and "db_connected up S"
    and "db store S (''__password_'' @ c_str (rq_account q)) = None" and "role_view store P S (c_str (rq_account q)) = None"
    and "db store S ''gid'' = Some v" and "refuses_incr v" and "list_all (\<lambda>op. op_name op = c_str (rq_account q)) ops"
  shows "\<exists>S'. account_calls R P role (Register q # ops) S =
    (Inr (MRegisterRsp (register_rsp q REGISTER_UNKOWN_EORROR) # map (roleless_answer (c_str (rq_password q))) ops), S')"
  by (rule server_env.half_registered [OF assms])

text \<open>
  C22: damaged progress is used without a word. When the stored progress of a player does not
  parse, a query answers success with the tasks and the position that were read from it, and
  an update adds to them, answers success and overwrites the entry.
\<close>

theorem damaged_progress_is_used:
  assumes "server_env R up store P wire_ok" and "db_connected up S" and "p < length (role_heap S)" and "gid = player S p"
    and "db store S (task_key gid) = Some s" and "ParseFromArray P TDBTaskInfo s = (False, MDBTaskInfo t)"
    and "in_range req" and "task_capacity wire_ok n" and "card (dom (fst (progress_of t))) + length (finished_task_ids req) \<le> n"
  shows "(\<exists>S1 ids. TaskQueryService R P new_TaskDataManager p q S =
      (Inr (task_query_rsp q TASK_SUCCEED ids (double_of_i32 (db_position_x t)) (double_of_i32 (db_position_y t))), S1) \<and>
      set ids = {i. fst (progress_of t) i = Some FINISH}) \<and>
    (\<exists>S2. TaskUpdateService R P new_TaskDataManager p req S = (Inr (task_update_rsp req TASK_SUCCEED), S2) \<and>
      task_view store P S2 = (task_view store P S)(gid \<mapsto>
        update_progress (finished_task_ids req) (pos (tu_position_x req)) (pos (tu_position_y req)) (Some (progress_of t))))"
  by (rule server_env.damaged_progress [OF assms])

section \<open>Witnesses\<close>

text \<open>The counter is at its end when Bob registers, logs in and tries to register again.\<close>

definition server_full :: "(nat, string \<Rightarrow> string option) server" where
  "server_full = server0\<lparr>redis_ptr := Some [''gid'' \<mapsto> to_string (2 ^ 63 - 1)]\<rparr>"

theorem failed_registration_blocks_account_witness:
  "\<exists>S'. account_calls redis_ref protobuf_ref () [Register register_bob, Login login_bob, Register register_bob] server_full =
     (Inr [MRegisterRsp (register_rsp register_bob REGISTER_UNKOWN_EORROR), MLoginRsp (login_rsp login_bob LOGIN_UNKOWN_EORROR False),
       MRegisterRsp (register_rsp register_bob ACCOUNT_ALREADY_EXIST)], S')"
proof -
  have full: "db_connected (\<lambda>_. True) server_full" "db (\<lambda>m. m) server_full = [''gid'' \<mapsto> to_string (2 ^ 63 - 1)]"
    by (simp_all add: server_full_def db_connected_def db_def)
  have "refuses_incr (to_string (2 ^ 63 - 1))" by (simp add: refuses_incr_def)
  moreover have "role_view (\<lambda>m. m) protobuf_ref server_full k = None" for k by (simp add: role_view_def full(2))
  ultimately show ?thesis
    using failed_registration_blocks_account [OF env_ref_laws full(1), of register_bob "to_string (2 ^ 63 - 1)"
        "[Login login_bob, Register register_bob]" "()"]
    by (simp add: full(2) op_name_def roleless_answer_def account_examples c_str_def)
qed

text \<open>The entry of player 7 is one byte that starts no task list.\<close>

definition server_damaged :: "(nat, string \<Rightarrow> string option) server" where
  "server_damaged = server_two\<lparr>redis_ptr := Some [task_key 7 \<mapsto> ''x'']\<rparr>"

theorem damaged_progress_is_used_witness:
  "\<exists>S1 S2. TaskQueryService redis_ref protobuf_ref new_TaskDataManager 0 \<lparr>tq_rpcid = 5\<rparr> server_damaged
      = (Inr (task_query_rsp \<lparr>tq_rpcid = 5\<rparr> TASK_SUCCEED [] (double_of_i32 0) (double_of_i32 0)), S1) \<and>
    TaskUpdateService redis_ref protobuf_ref new_TaskDataManager 0 update_1 server_damaged
      = (Inr (task_update_rsp update_1 TASK_SUCCEED), S2) \<and>
    task_view (\<lambda>m. m) protobuf_ref S2 7 = Some ([3 \<mapsto> FINISH, 4 \<mapsto> FINISH], 2, 0)"
proof -
  have S: "db_connected (\<lambda>_. True) server_damaged" "0 < length (role_heap server_damaged)" "7 = player server_damaged 0"
      "db (\<lambda>m. m) server_damaged (task_key 7) = Some ''x''"
    using server_two_simps(3,4) by (simp_all add: server_damaged_def db_connected_def db_def player_def)
  have bad: "ParseFromArray protobuf_ref TDBTaskInfo ''x'' = (False, MDBTaskInfo empty_DBTaskInfo)"
    by (simp add: protobuf_ref_def codec_eval)
  have "update_progress [3, 4] 2 0 (Some (Map.empty, 0, 0)) = ([3 \<mapsto> FINISH, 4 \<mapsto> FINISH], 2, 0)"
    by (auto simp: update_progress_def fun_eq_iff)
  with damaged_progress_is_used [OF env_ref_laws S bad _ task_capacity_ref, of update_1 "\<lparr>tq_rpcid = 5\<rparr>"] in_range_examples
  show ?thesis by (fastforce simp: update_1_def progress_of_def empty_DBTaskInfo_def)
qed

end
