(* ===== verification/Threads.thy ===== *)
theory Threads
  imports Server_State
begin

text \<open>
  Threads. \<open>ServerBootstrap\<close> runs its pipelines on a pool of threads (the call that would limit
  it to one is commented out in \<open>main\<close>). The mutex of \<open>SyncRedisWrapper\<close> makes a redis command
  atomic and the mutex of \<open>RoleinfoManager\<close> an insertion into the role table, but nothing makes
  a service atomic. A thread is a program that goes from one atomic section to the next:
  a redis command and its reply, or an access to the shared objects. Running such a program
  alone is an \<open>action\<close> of the other theories; a pool of them interleaves section by section.
  The access \<open>GetRole\<close> makes to the table without the mutex is one section too: what a data
  race does in C++ is outside the model.
\<close>

section \<open>Programs\<close>

datatype ('s, 'a) prog =
    Done 'a
  | Abort error
  | Cmd string "redis_arg list" "redisReply \<Rightarrow> ('s, 'a) prog"
  | Local "'s \<Rightarrow> ('s, 'a) prog \<times> 's"

type_synonym ('addr, 'c, 'a) thread = "(('addr, 'c) server, 'a) prog"

definition send :: "string \<Rightarrow> redis_arg list \<Rightarrow> ('s, redisReply) prog" where
  "send format args = Cmd format args Done"

definition atomic :: "('s, 'a) action \<Rightarrow> ('s, 'a) prog" where
  "atomic m = Local (\<lambda>S. case m S of (Inr x, S') \<Rightarrow> (Done x, S') | (Inl e, S') \<Rightarrow> (Abort e, S'))"

primrec bind_prog :: "('s, 'a) prog \<Rightarrow> ('a \<Rightarrow> ('s, 'b) prog) \<Rightarrow> ('s, 'b) prog" where
  "bind_prog (Done x) f = f x"
| "bind_prog (Abort e) f = Abort e"
| "bind_prog (Cmd format args k) f = Cmd format args (\<lambda>reply. bind_prog (k reply) f)"
| "bind_prog (Local h) f = Local (map_prod (\<lambda>p. bind_prog p f) id \<circ> h)"

text \<open>The next section of a thread; a thread that is done or has aborted has none.\<close>

fun prog_step :: "'c hiredis \<Rightarrow> ('addr, 'c, 'a) thread \<Rightarrow> ('addr, 'c) server
    \<Rightarrow> (('addr, 'c, 'a) thread \<times> ('addr, 'c) server) option" where
  "prog_step R (Done x) S = None"
| "prog_step R (Abort e) S = None"
| "prog_step R (Cmd format args k) S =
     Some (case redis_cmd R format args S of (Inr reply, S') \<Rightarrow> (k reply, S') | (Inl e, S') \<Rightarrow> (Abort e, S'))"
| "prog_step R (Local h) S = Some (h S)"

text \<open>A program that runs alone.\<close>

primrec exec :: "'c hiredis \<Rightarrow> ('addr, 'c, 'a) thread \<Rightarrow> (('addr, 'c) server, 'a) action" where
  "exec R (Done x) = ret_act x"
| "exec R (Abort e) = raise_act e"
| "exec R (Cmd format args k) = bind_act (redis_cmd R format args) (\<lambda>reply. exec R (k reply))"
| "exec R (Local h) = (\<lambda>S. case (map_prod (exec R) id \<circ> h) S of (m, S') \<Rightarrow> m S')"

text \<open>A pool: one thread takes its next section, the others stay where they are.\<close>

inductive thread_step ::
  "'c hiredis \<Rightarrow> ('addr, 'c) server \<times> ('addr, 'c, 'a) thread list \<Rightarrow> ('addr, 'c) server \<times> ('addr, 'c, 'a) thread list \<Rightarrow> bool"
  for R where
  thread_moves: "i < length ts \<Longrightarrow> prog_step R (ts ! i) S = Some (p, S') \<Longrightarrow> thread_step R (S, ts) (S', ts[i := p])"

abbreviation interleaves ::
  "'c hiredis \<Rightarrow> ('addr, 'c) server \<times> ('addr, 'c, 'a) thread list \<Rightarrow> ('addr, 'c) server \<times> ('addr, 'c, 'a) thread list \<Rightarrow> bool" where
  "interleaves R \<equiv> rtranclp (thread_step R)"

inductive_cases thread_stepE: "thread_step R (S, ts) X"

lemma thread_reply:
  assumes "i < length ts" and "ts ! i = Cmd format args k" and "redis_cmd R format args S = (Inr reply, S')"
  shows "thread_step R (S, ts) (S', ts[i := k reply])"
  using thread_moves [OF assms(1), of R S] assms(2,3) by simp

section \<open>Running alone\<close>

lemma prog_induct [case_names Done Abort Cmd Local]:
  assumes "\<And>x. Q (Done x)" and "\<And>e. Q (Abort e)" and "\<And>format args k. (\<And>reply. Q (k reply)) \<Longrightarrow> Q (Cmd format args k)"
    and "\<And>h. (\<And>S. Q (fst (h S))) \<Longrightarrow> Q (Local h)"
  shows "Q p"
proof (induction p)
  case (Local h)
  have "Q (fst (h S))" for S
    using Local [of "h S" "fst (h S)"] by (metis fsts.intros prod.collapse rangeI)
  then show ?case by (rule assms(4))
qed (simp_all add: assms(1-3))

lemma bind_prog_assoc: "bind_prog (bind_prog p f) g = bind_prog p (\<lambda>x. bind_prog (f x) g)"
  by (induction p rule: prog_induct) (simp_all add: fun_eq_iff prod_eq_iff)

lemma bind_prog_Done [simp]: "bind_prog p Done = p"
  by (induction p rule: prog_induct) (simp_all add: fun_eq_iff prod_eq_iff)

lemma exec_bind: "exec R (bind_prog p f) = bind_act (exec R p) (\<lambda>x. exec R (f x))"
  by (induction p rule: prog_induct)
    (auto simp: bind_act_assoc fun_eq_iff bind_act_def case_prod_beta split: sum.splits)

lemma exec_send: "exec R (send format args) = redis_cmd R format args"
  by (simp add: send_def bind_act_def ret_act_def fun_eq_iff split: prod.splits sum.splits)

lemma exec_atomic: "exec R (atomic m) = m"
  by (auto simp: atomic_def fun_eq_iff case_prod_beta ret_act_def raise_act_def prod_eq_iff split: prod.splits sum.splits)

lemma bind_act_if: "bind_act (if b then m else n) f = (if b then bind_act m f else bind_act n f)"
  by simp

lemma bind_act_ret: "bind_act (ret_act x) f = f x"
  by (simp add: fun_eq_iff)

lemma exec_if: "exec R (if b then p else q) = (if b then exec R p else exec R q)"
  by simp

lemmas exec_simps = bind_act_assoc bind_act_if bind_act_ret exec_if exec_bind exec_send exec_atomic exec.simps(1-3) Let_def

lemma prog_step_None: "prog_step R p S = None \<longleftrightarrow> (\<exists>x. p = Done x) \<or> (\<exists>e. p = Abort e)"
  by (cases p) simp_all

lemma stuck_thread:
  assumes "\<nexists>Y. thread_step R (S, ts) Y" and "i < length ts"
  shows "(\<exists>x. ts ! i = Done x) \<or> (\<exists>e. ts ! i = Abort e)"
proof (rule ccontr)
  assume "\<not> ?thesis"
  then obtain p S' where "prog_step R (ts ! i) S = Some (p, S')"
    using prog_step_None [of R "ts ! i" S] by (metis not_Some_eq surj_pair)
  from thread_moves [OF assms(2) this] assms(1) show False by blast
qed

text \<open>Running one program alone is one of the schedules.\<close>

lemma exec_interleaves:
  "i < length ts \<Longrightarrow> exec R (ts ! i) S = (r, S') \<Longrightarrow>
   interleaves R (S, ts) (S', ts[i := (case r of Inr x \<Rightarrow> Done x | Inl e \<Rightarrow> Abort e)])"
proof (induction "ts ! i" arbitrary: ts S rule: prog_induct)
  case (Done x)
  then show ?case by (cases "ts ! i") (auto simp: ret_act_def list_update_same_conv dest: sym)
next
  case (Abort e)
  then show ?case by (cases "ts ! i") (auto simp: raise_act_def list_update_same_conv dest: sym)
next
  case (Cmd format args k)
  note cmd = Cmd.hyps(2) [symmetric]
  show ?case
  proof (cases "redis_cmd R format args S")
    case (Pair c S1)
    show ?thesis
    proof (cases c)
      case (Inl e)
      with Pair cmd Cmd.prems(2) have "S1 = S'" "r = Inl e" by (auto simp: bind_act_def)
      with Pair Inl cmd thread_moves [OF Cmd.prems(1), of R S "Abort e" S'] show ?thesis by auto
    next
      case (Inr reply)
      from Pair Inr cmd thread_moves [OF Cmd.prems(1), of R S] have "thread_step R (S, ts) (S1, ts[i := k reply])" by simp
      moreover have "interleaves R (S1, ts[i := k reply]) (S', ts[i := k reply, i := (case r of Inr x \<Rightarrow> Done x | Inl e \<Rightarrow> Abort e)])"
        using Cmd.hyps(1) [of reply "ts[i := k reply]" S1] Cmd.prems cmd Pair Inr by (simp add: bind_act_def)
      ultimately show ?thesis by (simp add: converse_rtranclp_into_rtranclp)
    qed
  qed
next
  case (Local h)
  note loc = Local.hyps(2) [symmetric]
  obtain p S1 where h: "h S = (p, S1)" by (cases "h S")
  from h loc thread_moves [OF Local.prems(1), of R S] have "thread_step R (S, ts) (S1, ts[i := p])" by simp
  moreover have "interleaves R (S1, ts[i := p]) (S', ts[i := p, i := (case r of Inr x \<Rightarrow> Done x | Inl e \<Rightarrow> Abort e)])"
    using Local.hyps(1) [of S "ts[i := p]" S1] Local.prems loc h by simp
  ultimately show ?case by (simp add: converse_rtranclp_into_rtranclp)
qed

section \<open>Every schedule ends\<close>

text \<open>A program is a well-founded tree, and a step goes down in one of the trees.\<close>

lemma wf_prog_step: "wf {(p', p). \<exists>S S'. prog_step R p S = Some (p', S')}"
proof (rule wfUNIVI)
  fix Q p
  assume step: "\<forall>p. (\<forall>p'. (p', p) \<in> {(p', p). \<exists>S S'. prog_step R p S = Some (p', S')} \<longrightarrow> Q p') \<longrightarrow> Q p"
  have abort: "Q (Abort e)" for e using step by simp
  show "Q p"
  proof (induction p rule: prog_induct)
    case (Cmd format args k)
    have "Q p'" if "prog_step R (Cmd format args k) S = Some (p', S')" for p' S S'
      using that Cmd abort by (auto split: prod.splits sum.splits)
    then show ?case using step [rule_format, of "Cmd format args k"] by blast
  next
    case (Local h)
    have "Q p'" if "prog_step R (Local h) S = Some (p', S')" for p' S S'
      using that Local [of S] by simp
    then show ?case using step [rule_format, of "Local h"] by blast
  qed (use step in simp_all)
qed

lemma wf_thread_step: "wf {(Y, X). thread_step R X Y}"
proof (rule wf_subset)
  show "wf (inv_image (listrel1 {(p', p). \<exists>S S'. prog_step R p S = Some (p', S')}) snd)"
    by (intro wf_inv_image) (simp add: wf_prog_step)
  have "((S', ts'), (S, ts)) \<in> inv_image (listrel1 {(p', p). \<exists>S S'. prog_step R p S = Some (p', S')}) snd"
    if "thread_step R (S, ts) (S', ts')" for S S' ts ts'
    using that
  proof (rule thread_stepE)
    fix i p S1
    assume a: "(S', ts') = (S1, ts[i := p])" "i < length ts" "prog_step R (ts ! i) S = Some (p, S1)"
    have "(p, ts ! i) \<in> {(p', p). \<exists>S S'. prog_step R p S = Some (p', S')}" using a(3) by blast
    then have "(ts[i := p] ! i, ts ! i) \<in> {(p', p). \<exists>S S'. prog_step R p S = Some (p', S')}" using a(2) by simp
    then show ?thesis
      using a(1,2) unfolding in_inv_image snd_conv listrel1_iff_update
      by (intro exI [of _ "ts ! i"] exI [of _ i]) simp
  qed
  then show "{(Y, X). thread_step R X Y} \<subseteq> inv_image (listrel1 {(p', p). \<exists>S S'. prog_step R p S = Some (p', S')}) snd"
    by auto
qed

text \<open>So every pool can be run to a state in which no thread can go on.\<close>

lemma pool_ends: "\<exists>Y. interleaves R X Y \<and> (\<nexists>Z. thread_step R Y Z)"
proof (induction X rule: wf_induct_rule [OF wf_thread_step [of R]])
  case (1 X)
  show ?case
  proof (cases "\<exists>Z. thread_step R X Z")
    case True
    then obtain Z where Z: "thread_step R X Z" by blast
    with 1 [of Z] obtain Y where "interleaves R Z Y" "\<nexists>Z. thread_step R Y Z" by auto
    with Z show ?thesis by (meson converse_rtranclp_into_rtranclp)
  qed blast
qed

section \<open>How many sections a program has\<close>

text \<open>A program of at most so many sections, whatever redis answers and the shared state is.\<close>

inductive steps_le :: "nat \<Rightarrow> ('s, 'a) prog \<Rightarrow> bool" where
  steps_le_Done: "steps_le n (Done x)"
| steps_le_Abort: "steps_le n (Abort e)"
| steps_le_Cmd: "(\<And>reply. steps_le n (k reply)) \<Longrightarrow> steps_le (Suc n) (Cmd format args k)"
| steps_le_Local: "(\<And>S. steps_le n (fst (h S))) \<Longrightarrow> steps_le (Suc n) (Local h)"

inductive_cases steps_le_CmdE: "steps_le n (Cmd format args k)"
inductive_cases steps_le_LocalE: "steps_le n (Local h)"

lemma steps_le_bind:
  "steps_le n p \<Longrightarrow> (\<And>x. steps_le m (f x)) \<Longrightarrow> steps_le (n + m) (bind_prog p f)"
proof (induction rule: steps_le.induct)
  case (steps_le_Done n x)
  have "steps_le k q \<Longrightarrow> steps_le (j + k) q" for j k and q :: "('a, 'c) prog"
    by (induction rule: steps_le.induct) (auto intro: steps_le.intros)
  then show ?case using steps_le_Done by simp
qed (auto intro!: steps_le.intros)

lemma steps_le_section: "(\<And>x. steps_le n (f x)) \<Longrightarrow> steps_le (Suc n) (bind_prog (atomic m) f)"
  by (auto simp: atomic_def intro!: steps_le.intros split: prod.splits sum.splits)

lemmas steps_le_rules = steps_le.intros(1-3) steps_le_section

text \<open>A step of a thread leaves one section fewer, so a pool takes no more steps than it has sections.\<close>

lemma steps_le_step:
  assumes "steps_le n p" and "prog_step R p S = Some (p', S')"
  shows "\<exists>n'. n = Suc n' \<and> steps_le n' p'"
  using assms
proof (cases p)
  case (Local h)
  with assms obtain n' where "n = Suc n'" "\<And>S. steps_le n' (fst (h S))" "h S = (p', S')"
    by (auto elim!: steps_le_LocalE)
  then show ?thesis by (metis fst_conv)
qed (auto elim!: steps_le_CmdE intro: steps_le.intros split: prod.splits sum.splits)

lemma steps_le_pool_step:
  assumes "list_all2 steps_le ns ts" and "thread_step R (S, ts) (S', ts')"
  shows "\<exists>ns'. sum_list ns = Suc (sum_list ns') \<and> list_all2 steps_le ns' ts'"
  using assms(2)
proof (rule thread_stepE)
  fix i p S1
  assume 1: "(S', ts') = (S1, ts[i := p])" "i < length ts" "prog_step R (ts ! i) S = Some (p, S1)"
  have i: "i < length ns" and w: "steps_le (ns ! i) (ts ! i)"
    using assms(1) 1(2) by (auto simp: list_all2_conv_all_nth)
  from steps_le_step [OF w 1(3)] obtain n' where n': "ns ! i = Suc n'" "steps_le n' p" by blast
  have "sum_list ns = Suc (sum_list (ns[i := n']))"
    using i n'(1) sum_list_update [OF i, of n'] elem_le_sum_list [OF i] by simp
  moreover have "list_all2 steps_le (ns[i := n']) ts'"
    using assms(1) 1(1) n'(2) by (auto intro!: list_all2_update_cong)
  ultimately show ?thesis by blast
qed

lemma steps_le_pool:
  assumes "list_all2 steps_le ns (snd X)" and "(thread_step R ^^ k) X Y"
  shows "k \<le> sum_list ns"
  using assms
proof (induction k arbitrary: X ns)
  case (Suc k)
  from Suc.prems(2) obtain Z where Z: "thread_step R X Z" "(thread_step R ^^ k) Z Y"
    by (rule relpowp_Suc_E2)
  obtain ns' where "sum_list ns = Suc (sum_list ns')" "list_all2 steps_le ns' (snd Z)"
    using steps_le_pool_step [of ns "snd X" R "fst X" "fst Z" "snd Z"] Suc.prems(1) Z(1) by auto
  with Suc.IH [OF this(2) Z(2)] show ?case by simp
qed simp

section \<open>Reasoning about pools\<close>

text \<open>
  A thread with a ghost value is safe for a relation between the ghosts of a pool and the
  shared state when each of its sections leads to a ghost with which the relation holds
  again and the rest is safe, and when it ends as \<open>Q\<close> says.
\<close>

inductive safe ::
  "'c hiredis \<Rightarrow> ('g list \<Rightarrow> ('addr, 'c) server \<Rightarrow> bool) \<Rightarrow> ('g \<Rightarrow> error + 'a \<Rightarrow> bool) \<Rightarrow> 'g \<Rightarrow> ('addr, 'c, 'a) thread \<Rightarrow> bool"
  for R ok Q where
  safeI: "(\<And>x. p = Done x \<Longrightarrow> Q g (Inr x)) \<Longrightarrow> (\<And>e. p = Abort e \<Longrightarrow> Q g (Inl e)) \<Longrightarrow>
    (\<And>gs i S p' S'. ok gs S \<Longrightarrow> i < length gs \<Longrightarrow> gs ! i = g \<Longrightarrow> prog_step R p S = Some (p', S') \<Longrightarrow>
       \<exists>g'. ok (gs[i := g']) S' \<and> safe R ok Q g' p') \<Longrightarrow> safe R ok Q g p"

lemma safe_Done [simp]: "safe R ok Q g (Done x) \<longleftrightarrow> Q g (Inr x)"
  by (subst safe.simps) simp

lemma safe_Abort [simp]: "safe R ok Q g (Abort e) \<longleftrightarrow> Q g (Inl e)"
  by (subst safe.simps) simp

lemma safe_Cmd:
  assumes "\<And>gs i S r S'. ok gs S \<Longrightarrow> i < length gs \<Longrightarrow> gs ! i = g \<Longrightarrow> redis_cmd R format args S = (r, S') \<Longrightarrow>
    \<exists>g'. ok (gs[i := g']) S' \<and> (case r of Inr reply \<Rightarrow> safe R ok Q g' (k reply) | Inl e \<Rightarrow> Q g' (Inl e))"
  shows "safe R ok Q g (Cmd format args k)"
proof (rule safeI)
  fix gs i S p' S'
  assume "ok gs S" "i < length gs" "gs ! i = g" "prog_step R (Cmd format args k) S = Some (p', S')"
  with assms [of gs S i] show "\<exists>g'. ok (gs[i := g']) S' \<and> safe R ok Q g' p'"
    by (cases "redis_cmd R format args S") (auto split: sum.splits)
qed simp_all

lemma safe_atomic:
  assumes "\<And>gs i S r S'. ok gs S \<Longrightarrow> i < length gs \<Longrightarrow> gs ! i = g \<Longrightarrow> m S = (r, S') \<Longrightarrow>
    \<exists>g'. ok (gs[i := g']) S' \<and> Q g' r"
  shows "safe R ok Q g (atomic m)"
proof (rule safeI)
  fix gs i S p' S'
  assume "ok gs S" "i < length gs" "gs ! i = g" "prog_step R (atomic m) S = Some (p', S')"
  with assms [of gs S i] show "\<exists>g'. ok (gs[i := g']) S' \<and> safe R ok Q g' p'"
    by (cases "m S"; cases "fst (m S)") (auto simp: atomic_def)
qed (simp_all add: atomic_def)

lemma safe_bind:
  assumes "safe R ok Q' g p" and "\<And>g x. Q' g (Inr x) \<Longrightarrow> safe R ok Q g (f x)" and "\<And>g e. Q' g (Inl e) \<Longrightarrow> Q g (Inl e)"
  shows "safe R ok Q g (bind_prog p f)"
  using assms(1)
proof (induction rule: safe.induct)
  case (safeI p g)
  note step = safeI(3)
  show ?case
  proof (cases p)
    case (Done x)
    with safeI.hyps(1) assms(2) show ?thesis by simp
  next
    case (Abort e)
    with safeI.hyps(2) assms(3) show ?thesis by simp
  next
    case (Cmd format args k)
    show ?thesis unfolding Cmd bind_prog.simps
    proof (rule safe_Cmd)
      fix gs i S r S'
      assume a: "ok gs S" "i < length gs" "gs ! i = g" "redis_cmd R format args S = (r, S')"
      from step [OF a(1-3), of "case r of Inr reply \<Rightarrow> k reply | Inl e \<Rightarrow> Abort e" S'] a(4) Cmd
      show "\<exists>g'. ok (gs[i := g']) S' \<and> (case r of Inr reply \<Rightarrow> safe R ok Q g' (bind_prog (k reply) f) | Inl e \<Rightarrow> Q g' (Inl e))"
        by (cases r) auto
    qed
  next
    case (Local h)
    show ?thesis
    proof (rule safe.safeI)
      fix gs i S p' S'
      assume a: "ok gs S" "i < length gs" "gs ! i = g" "prog_step R (bind_prog p f) S = Some (p', S')"
      with step [OF a(1-3), of "fst (h S)" S'] Local show "\<exists>g'. ok (gs[i := g']) S' \<and> safe R ok Q g' p'"
        by (cases "h S") auto
    qed (simp_all add: Local)
  qed
qed

text \<open>The rules in the form in which a program is gone through from its first section on.\<close>

lemma bind_send [simp]: "bind_prog (send format args) k = Cmd format args k"
  by (simp add: send_def)

lemma bind_prog_if: "bind_prog (if b then p else q) f = (if b then bind_prog p f else bind_prog q f)"
  by simp

lemma bind_prog_option:
  "bind_prog (case x of None \<Rightarrow> p | Some y \<Rightarrow> h y) f = (case x of None \<Rightarrow> bind_prog p f | Some y \<Rightarrow> bind_prog (h y) f)"
  by (cases x) simp_all

lemma bind_prog_prod: "bind_prog (case x of (y, z) \<Rightarrow> h y z) f = (case x of (y, z) \<Rightarrow> bind_prog (h y z) f)"
  by (cases x) simp

lemmas prog_norm = bind_prog_assoc bind_prog.simps(1-3) bind_send bind_prog_if bind_prog_option bind_prog_prod Let_def

lemma safe_section:
  assumes "\<And>gs i S r S'. ok gs S \<Longrightarrow> i < length gs \<Longrightarrow> gs ! i = g \<Longrightarrow> m S = (r, S') \<Longrightarrow>
    \<exists>g'. ok (gs[i := g']) S' \<and> (case r of Inr x \<Rightarrow> safe R ok Q g' (f x) | Inl e \<Rightarrow> Q g' (Inl e))"
  shows "safe R ok Q g (bind_prog (atomic m) f)"
  by (rule safe_bind [where Q' = "\<lambda>g' r. case r of Inr x \<Rightarrow> safe R ok Q g' (f x) | Inl e \<Rightarrow> Q g' (Inl e)"])
    (auto intro!: safe_atomic assms)

text \<open>The same for sections that cannot fail.\<close>

lemma safe_Cmd_ok:
  assumes "\<And>gs i S. ok gs S \<Longrightarrow> i < length gs \<Longrightarrow> gs ! i = g \<Longrightarrow>
    \<exists>reply S' g'. redis_cmd R format args S = (Inr reply, S') \<and> ok (gs[i := g']) S' \<and> safe R ok Q g' (k reply)"
  shows "safe R ok Q g (Cmd format args k)"
  by (rule safe_Cmd) (use assms in fastforce)

lemma safe_section_ok:
  assumes "\<And>gs i S. ok gs S \<Longrightarrow> i < length gs \<Longrightarrow> gs ! i = g \<Longrightarrow>
    \<exists>x S' g'. m S = (Inr x, S') \<and> ok (gs[i := g']) S' \<and> safe R ok Q g' (f x)"
  shows "safe R ok Q g (bind_prog (atomic m) f)"
  by (rule safe_section) (use assms in fastforce)

lemma safe_pool_step:
  assumes "ok gs S" and "list_all2 (safe R ok Q) gs ts" and "thread_step R (S, ts) (S', ts')"
  shows "\<exists>gs'. ok gs' S' \<and> list_all2 (safe R ok Q) gs' ts'"
  using assms(3)
proof (rule thread_stepE)
  fix i p S1
  assume 1: "(S', ts') = (S1, ts[i := p])" "i < length ts" "prog_step R (ts ! i) S = Some (p, S1)"
  have i: "i < length gs" and "safe R ok Q (gs ! i) (ts ! i)"
    using assms(2) 1(2) by (auto simp: list_all2_conv_all_nth)
  from this(2) assms(1) i 1(3) obtain g' where "ok (gs[i := g']) S1" "safe R ok Q g' p"
    by (cases rule: safe.cases) blast
  then show ?thesis using 1(1) assms(2) by (auto intro!: list_all2_update_cong)
qed

lemma safe_pool:
  assumes "interleaves R (S, ts) (S', ts')" and "ok gs S" and "list_all2 (safe R ok Q) gs ts"
  shows "\<exists>gs'. ok gs' S' \<and> list_all2 (safe R ok Q) gs' ts'"
proof -
  have "\<exists>gs'. ok gs' (fst X) \<and> list_all2 (safe R ok Q) gs' (snd X)" if "interleaves R (S, ts) X" for X
    using that
  proof (induction rule: rtranclp_induct)
    case base
    then show ?case using assms(2,3) by auto
  next
    case (step Y Z)
    then show ?case using safe_pool_step [of ok _ "fst Y" R Q "snd Y" "fst Z" "snd Z"] by auto
  qed
  from this [OF assms(1)] show ?thesis by simp
qed

end
