(* ===== verification/Service_Programs.thy ===== *)
theory Service_Programs
  imports Threads Login_Services Task_Services
begin

text \<open>
  The managers and services as programs of a thread: the same code as in the theories of the
  components, cut into its redis commands and its accesses to shared objects. Running such
  a program alone is the operation it is the program of.
\<close>

section \<open>Managers\<close>

definition pull_role_prog :: "protobuf \<Rightarrow> string \<Rightarrow> ('addr, 'c, role_ptr option) thread" where
  "pull_role_prog P name =
     bind_prog (send ''get __role_%s'' [ArgS (c_str name)]) (\<lambda>reply.
       if rtype reply \<noteq> REDIS_REPLY_STRING then Done None
       else (case ParseFromArray P TRoleInfo (str reply) of (ok, m) \<Rightarrow>
         if \<not> ok then Done None
         else (case as_RoleInfo m of
             None \<Rightarrow> Abort BadCast
           | Some r \<Rightarrow> bind_prog (atomic (make_shared r)) (\<lambda>p. Done (Some p)))))"

definition push_role_prog :: "protobuf \<Rightarrow> RoleInfo \<Rightarrow> ('addr, 'c, bool) thread" where
  "push_role_prog P role =
     bind_prog (send ''set __role_%s %b''
         [ArgS (c_str (username (basic_info role))), ArgB (SerializeToString P (MRoleInfo role))]) (\<lambda>reply.
       Done (\<not> rtype reply \<noteq> REDIS_REPLY_STATUS))"

definition pull_task_prog :: "protobuf \<Rightarrow> i32 \<Rightarrow> TaskDataManager \<Rightarrow> ('addr, 'c, bool \<times> TaskDataManager) thread" where
  "pull_task_prog P gid T =
     bind_prog (send ''get __taskinfo_%s'' [ArgS (c_str (to_string (sint gid)))]) (\<lambda>reply.
       if rtype reply = REDIS_REPLY_NIL then Done (False, T)
       else (case as_DBTaskInfo (snd (ParseFromArray P TDBTaskInfo (str reply))) of
           None \<Rightarrow> Abort BadCast
         | Some task_info \<Rightarrow>
             if task_infos T gid \<noteq> None then Done (False, T)
             else Done (True, T\<lparr>task_infos := (task_infos T)(gid \<mapsto> task_info)\<rparr>)))"

definition push_task_prog :: "protobuf \<Rightarrow> i32 \<Rightarrow> TaskDataManager \<Rightarrow> ('addr, 'c, bool) thread" where
  "push_task_prog P gid T =
     (case task_infos T gid of
        None \<Rightarrow> Done False
      | Some t \<Rightarrow>
          bind_prog (send ''set __taskinfo_%s %b''
              [ArgS (c_str (to_string (sint gid))), ArgB (SerializeToString P (MDBTaskInfo t))]) (\<lambda>reply.
            if rtype reply \<noteq> REDIS_REPLY_STATUS then Done False else Done True))"

text \<open>\<open>AddRole\<close> holds the mutex of the table.\<close>

definition pull_and_add_prog :: "protobuf \<Rightarrow> string \<Rightarrow> 'addr \<Rightarrow> ('addr, 'c, bool) thread" where
  "pull_and_add_prog P u a = bind_prog (pull_role_prog P u) (\<lambda>p. case p of
     None \<Rightarrow> Done False
   | Some p \<Rightarrow> atomic (\<lambda>S. map_prod Inr id (AddRole a p S)))"

section \<open>Login\<close>

definition login_prog :: "protobuf \<Rightarrow> LoginReq \<Rightarrow> ('addr, 'c, LoginRsp) thread" where
  "login_prog P request =
     bind_prog
       (bind_prog (send ''get __password_%s'' [ArgS (c_str (lq_account request))]) (\<lambda>reply.
          if rtype reply \<noteq> REDIS_REPLY_STRING then Done (LOGIN_NOT_REGISTERED, False)
          else if lq_password request \<noteq> c_str (str reply) then Done (LOGIN_PASSWORD_WRONG, False)
          else bind_prog (pull_role_prog P (lq_account request)) (\<lambda>ptr.
            case ptr of
              None \<Rightarrow> Done (LOGIN_UNKOWN_EORROR, False)
            | Some p \<Rightarrow> bind_prog (atomic (read_role p)) (\<lambda>r.
                if \<not> is_returning_visitor (basic_info r) then
                  bind_prog (atomic (write_role p (mutable_basic_info (\<lambda>b. b\<lparr>is_returning_visitor := True\<rparr>)))) (\<lambda>_.
                    bind_prog (bind_prog (atomic (read_role p)) (push_role_prog P)) (\<lambda>_. Done (LOGIN_SUCCEED, False)))
                else Done (LOGIN_SUCCEED, True)))))
       (\<lambda>(ret, returning). Done
          \<lparr>lr_rpcid = lq_rpcid request, lr_error = LoginErrorCode_value ret,
           lr_message = LoginErrorCode_Name ret, lr_gid = 0, lr_is_returning_visitor = returning\<rparr>)"

section \<open>Registration\<close>

text \<open>The four commands of a registration; each continuation has a name of its own.\<close>

definition register_done :: "RegisterReq \<Rightarrow> RegisterErrorCode \<Rightarrow> ('addr, 'c, RegisterRsp) thread" where
  "register_done request ret = Done
     \<lparr>rr_rpcid = rq_rpcid request, rr_error = RegisterErrorCode_value ret,
      rr_message = RegisterErrorCode_Name ret, rr_gid = 0\<rparr>"

definition register_role :: "protobuf \<Rightarrow> RegisterReq \<Rightarrow> i32 \<Rightarrow> ('addr, 'c, RegisterRsp) thread" where
  "register_role P request gid =
     (let initial_role = mutable_basic_info (\<lambda>b. b\<lparr>username := rq_account request\<rparr>)
            (mutable_basic_info (\<lambda>b. b\<lparr>player_id := gid\<rparr>) empty_role);
          role_buf = SerializeToString P (MRoleInfo initial_role)
      in Cmd ''set __role_%s %b'' [ArgS (c_str (rq_account request)), ArgB role_buf] (\<lambda>reply.
           if rtype reply = REDIS_REPLY_STATUS then register_done request REGISTER_SUCCEED
           else register_done request REGISTER_UNKOWN_EORROR))"

definition register_incr :: "protobuf \<Rightarrow> RegisterReq \<Rightarrow> ('addr, 'c, RegisterRsp) thread" where
  "register_incr P request = Cmd ''incr gid'' [] (\<lambda>reply.
     if rtype reply \<noteq> REDIS_REPLY_INTEGER then register_done request REGISTER_UNKOWN_EORROR
     else register_role P request (ucast (integer reply)))"

definition register_password :: "protobuf \<Rightarrow> RegisterReq \<Rightarrow> ('addr, 'c, RegisterRsp) thread" where
  "register_password P request =
     Cmd ''set __password_%s %s'' [ArgS (c_str (rq_account request)), ArgS (c_str (rq_password request))] (\<lambda>reply.
       if rtype reply \<noteq> REDIS_REPLY_STATUS then register_done request REGISTER_UNKOWN_EORROR
       else register_incr P request)"

definition register_prog :: "protobuf \<Rightarrow> RegisterReq \<Rightarrow> ('addr, 'c, RegisterRsp) thread" where
  "register_prog P request =
     Cmd ''get __password_%s'' [ArgS (c_str (rq_account request))] (\<lambda>reply.
       if rtype reply \<noteq> REDIS_REPLY_NIL then register_done request ACCOUNT_ALREADY_EXIST
       else register_password P request)"

lemmas register_progs = register_prog_def register_password_def register_incr_def register_role_def register_done_def

section \<open>Task progress and erasing\<close>

definition query_prog :: "protobuf \<Rightarrow> TaskDataManager \<Rightarrow> role_ptr \<Rightarrow> TaskQueryReq \<Rightarrow> ('addr, 'c, TaskQueryRsp) thread" where
  "query_prog P T role request =
     bind_prog (atomic (read_role role)) (\<lambda>r.
       let gid = player_id (basic_info r) in
       bind_prog (pull_task_prog P gid T) (\<lambda>(ok, T).
         if \<not> ok then Done (task_query_rsp request TASK_UNKOWN_EORROR [] (Finite 0) (Finite 0))
         else let taskinfo = fst (GetTaskInfo gid T);
                  done_ids = map fst (filter (\<lambda>item. snd item = FINISH) (tasks taskinfo))
              in Done (task_query_rsp request TASK_SUCCEED done_ids
                   (double_of_i32 (db_position_x taskinfo)) (double_of_i32 (db_position_y taskinfo)))))"

definition lift_prog :: "'a result \<Rightarrow> ('s, 'a) prog" where
  "lift_prog r = (case r of Inr x \<Rightarrow> Done x | Inl e \<Rightarrow> Abort e)"

text \<open>An update once the player is known.\<close>

definition update_player :: "protobuf \<Rightarrow> TaskDataManager \<Rightarrow> i32 \<Rightarrow> TaskUpdateReq \<Rightarrow> ('addr, 'c, TaskUpdateRsp) thread" where
  "update_player P T gid request =
     bind_prog (if TaskInfoExist gid T then Done T
                else bind_prog (pull_task_prog P gid T) (\<lambda>(_, T). Done T)) (\<lambda>T.
       case GetTaskInfo gid T of (task_info, T) \<Rightarrow>
         bind_prog (lift_prog (i32_of_double (tu_position_x request))) (\<lambda>x.
         bind_prog (lift_prog (i32_of_double (tu_position_y request))) (\<lambda>y.
         bind_prog (push_task_prog P gid
             (SetTaskInfo gid \<lparr>tasks = finish_tasks (finished_task_ids request) (tasks task_info),
                db_position_x = x, db_position_y = y\<rparr> T)) (\<lambda>_.
           Done (task_update_rsp request TASK_SUCCEED)))))"

definition update_prog :: "protobuf \<Rightarrow> TaskDataManager \<Rightarrow> role_ptr \<Rightarrow> TaskUpdateReq \<Rightarrow> ('addr, 'c, TaskUpdateRsp) thread" where
  "update_prog P T role request =
     bind_prog (atomic (read_role role)) (\<lambda>r. update_player P T (player_id (basic_info r)) request)"

definition erase_prog :: "protobuf \<Rightarrow> role_ptr \<Rightarrow> EraseRoleReq \<Rightarrow> ('addr, 'c, EraseRoleRsp) thread" where
  "erase_prog P role request =
     bind_prog (atomic (write_role role (\<lambda>r. r\<lparr>opt_basic_info := None\<rparr>))) (\<lambda>_.
     bind_prog (atomic (write_role role (\<lambda>r. r\<lparr>opt_progress := None\<rparr>))) (\<lambda>_.
     bind_prog (atomic (read_role role)) (\<lambda>r.
     bind_prog (push_role_prog P r) (\<lambda>ok.
       let ret = (if \<not> ok then TASK_UNKOWN_EORROR else TASK_SUCCEED) in
       Done \<lparr>err_rpcid = er_rpcid request, err_error = TaskErrorCode_value ret,
             err_message = TaskErrorCode_Name ret\<rparr>))))"

section \<open>A program that runs alone is the operation\<close>

lemma exec_lift: "exec R (lift_prog r) = lift_res r"
  by (cases r) (simp_all add: lift_prog_def lift_res_def ret_act_def raise_act_def fun_eq_iff)

lemma exec_option: "exec R (case x of None \<Rightarrow> p | Some y \<Rightarrow> f y) = (case x of None \<Rightarrow> exec R p | Some y \<Rightarrow> exec R (f y))"
  by (cases x) simp_all

lemma exec_prod: "exec R (case x of (y, z) \<Rightarrow> g y z) = (case x of (y, z) \<Rightarrow> exec R (g y z))"
  by (cases x) simp

lemmas exec_rules = exec.simps(1,2) exec_bind exec_send exec_atomic exec_if exec_option exec_prod

lemma exec_pull_role: "exec R (pull_role_prog P u) = PullRoleInfoFromDB R P u"
  unfolding pull_role_prog_def PullRoleInfoFromDB_def exec_simps exec_option exec_prod ..

lemma exec_push_role: "exec R (push_role_prog P r) = PushRoleToDB R P r"
  unfolding push_role_prog_def PushRoleToDB_def exec_simps ..

lemma exec_pull_task: "exec R (pull_task_prog P gid T) = PullTaskInfoFromDB R P gid T"
  unfolding pull_task_prog_def PullTaskInfoFromDB_def exec_simps exec_option ..

lemma exec_push_task: "exec R (push_task_prog P gid T) = PushTaskInfoToDB R P gid T"
  unfolding push_task_prog_def PushTaskInfoToDB_def exec_simps exec_option ..

lemma exec_pull_and_add: "exec R (pull_and_add_prog P u a) = pull_and_add R P u a"
proof -
  have "exec R (case p of None \<Rightarrow> Done False | Some p \<Rightarrow> atomic (\<lambda>S. map_prod Inr id (AddRole a p S))) =
      (\<lambda>S. case p of None \<Rightarrow> (Inr False, S) | Some p \<Rightarrow> map_prod Inr id (AddRole a p S))" for p
    by (cases p) (simp_all add: exec_atomic fun_eq_iff ret_act_def)
  then show ?thesis
    unfolding pull_and_add_prog_def pull_and_add_def by (simp add: exec_bind exec_pull_role)
qed

lemma exec_login: "exec R (login_prog P request) = MinigameFakeLoginService R P role request"
  unfolding login_prog_def MinigameFakeLoginService_def PushRoleToDB_ptr_def option.case exec_rules exec_pull_role exec_push_role ..

lemma exec_register: "exec R (register_prog P request) = MinigameRegisterService R P role request"
  unfolding register_progs MinigameRegisterService_def exec_simps ..

lemma exec_query: "exec R (query_prog P T p request) = TaskQueryService R P T p request"
  unfolding query_prog_def TaskQueryService_def Let_def exec_rules exec_pull_task ..

lemma exec_update: "exec R (update_prog P T p request) = TaskUpdateService R P T p request"
  unfolding update_prog_def update_player_def TaskUpdateService_def Let_def exec_rules exec_pull_task exec_push_task exec_lift ..

lemma exec_erase: "exec R (erase_prog P p request) = EraseRoleService R P p request"
  unfolding erase_prog_def EraseRoleService_def Let_def exec_rules exec_push_role ..

end
