(* ===== verification/Requests.thy ===== *)
theory Requests
  imports Service_Programs Server
begin

text \<open>
  What the pipeline does with a message, as the program of an IO thread: role injection, the
  service of the command and its answer (\<open>request_prog\<close>), followed by the way of the response
  through the outbound handlers (\<open>answer_prog\<close>). Each connection is read by one thread, and the
  threads of different connections interleave; a request that runs alone is the path of a
  frame in the theory \<open>Server\<close>.
\<close>

section \<open>The program of a request\<close>

text \<open>The body of a registered command, after the cast the decorator makes.\<close>

definition decorated :: "(Message \<Rightarrow> 'q option) \<Rightarrow> ('rsp \<Rightarrow> Message) \<Rightarrow> ('q \<Rightarrow> ('addr, 'c, 'rsp) thread) \<Rightarrow> Message
    \<Rightarrow> ('addr, 'c, Message) thread" where
  "decorated cast_to message service request =
     (case cast_to request of None \<Rightarrow> Abort BadCast | Some q \<Rightarrow> bind_prog (service q) (\<lambda>rsp. Done (message rsp)))"

text \<open>The task services start from a copy of the shared task manager.\<close>

definition copy_task_manager :: "(('addr, 'c) server, TaskDataManager) action" where
  "copy_task_manager S = (Inr (task_manager S), S)"

definition service_prog :: "protobuf \<Rightarrow> u32 \<Rightarrow> role_ptr \<Rightarrow> Message \<Rightarrow> ('addr, 'c, Message) thread" where
  "service_prog P cmd_id role =
     (if cmd_id = CMD_QUERY_TASK then
        decorated as_TaskQueryReq MTaskQueryRsp (\<lambda>q. bind_prog (atomic copy_task_manager) (\<lambda>T. query_prog P T role q))
      else if cmd_id = CMD_UPDATE_TASK then
        decorated as_TaskUpdateReq MTaskUpdateRsp (\<lambda>q. bind_prog (atomic copy_task_manager) (\<lambda>T. update_prog P T role q))
      else if cmd_id = CMD_ERASE_ROLE then
        decorated as_EraseRoleReq MEraseRoleRsp (erase_prog P role)
      else (\<lambda>_. Abort AssertFail))"

definition request_prog :: "protobuf \<Rightarrow> 'addr \<Rightarrow> CmdMessagePair \<Rightarrow> ('addr, 'c, CmdMessagePair) thread" where
  "request_prog P addr msg =
     (let cmd_id = fst msg in
      if cmd_id = CMD_LOGIN then
        (case as_LoginReq (snd msg) of
           None \<Rightarrow> Abort NullDeref
         | Some req \<Rightarrow>
             bind_prog (pull_and_add_prog P (lq_account req) addr) (\<lambda>_.
             bind_prog (login_prog P req) (\<lambda>rsp. Done (cmd_id, MLoginRsp rsp))))
      else if cmd_id = CMD_REGISTER then
        (case as_RegisterReq (snd msg) of
           None \<Rightarrow> Abort NullDeref
         | Some req \<Rightarrow> bind_prog (register_prog P req) (\<lambda>rsp. Done (cmd_id, MRegisterRsp rsp)))
      else
        bind_prog (atomic (\<lambda>S. (Inr (GetRole addr S), S))) (\<lambda>role.
        bind_prog (case role of Some p \<Rightarrow> Done p | None \<Rightarrow> atomic (make_shared empty_role)) (\<lambda>p.
        bind_prog (service_prog P cmd_id p (snd msg)) (\<lambda>rsp. Done (cmd_id, rsp)))))"

section \<open>A request that runs alone\<close>

lemma exec_decorated:
  "exec R (decorated c f k request) S =
     (case c request of None \<Rightarrow> (Inl BadCast, S) | Some q \<Rightarrow> bind_act (exec R (k q)) (\<lambda>rsp. ret_act (f rsp)) S)"
  by (simp add: decorated_def exec_rules raise_act_def split: option.splits)

lemma exec_copy: "exec R (bind_prog (atomic copy_task_manager) f) S = exec R (f (task_manager S)) S"
  by (simp add: exec_bind exec_atomic copy_task_manager_def bind_act_def)

lemma exec_classes:
  "let D = SyncServiceClassDecorator (TaskQueryService_class R P) in
   exec R (service_prog P CMD_QUERY_TASK p request) S = D p request S"
  "let D = SyncServiceClassDecorator (TaskUpdateService_class R P) in
   exec R (service_prog P CMD_UPDATE_TASK p request) S = D p request S"
  "let D = SyncServiceClassDecorator (EraseRoleService_class R P) in
   exec R (service_prog P CMD_ERASE_ROLE p request) S = D p request S"
  by (simp_all add: Let_def SyncServiceClassDecorator_def service_classes service_prog_def exec_decorated cmd_ids raise_act_def
      bind_act_def exec_copy exec_query exec_update exec_erase del: casts_by_type split: option.splits)

lemma exec_service:
  assumes "register_services R P = Inr m" and "cmd_id \<noteq> CMD_LOGIN" and "cmd_id \<noteq> CMD_REGISTER"
    and "sync_services (fst m) cmd_id = Some f"
  shows "exec R (service_prog P cmd_id p request) S = f p request S"
proof -
  from assms consider
      "cmd_id = CMD_QUERY_TASK" "f = SyncServiceClassDecorator (TaskQueryService_class R P)"
    | "cmd_id = CMD_UPDATE_TASK" "f = SyncServiceClassDecorator (TaskUpdateService_class R P)"
    | "cmd_id = CMD_ERASE_ROLE" "f = SyncServiceClassDecorator (EraseRoleService_class R P)"
    by (auto simp: register_services_eq split: if_splits)
  then show ?thesis by cases (simp_all add: exec_classes [unfolded Let_def])
qed

lemma on_shared_bind: "on_shared (bind_act m f) = bind_act (on_shared m) (\<lambda>x. on_shared (f x))"
  by (auto simp: fun_eq_iff on_shared_def bind_act_def split: prod.splits sum.splits)

lemma on_shared_ret: "on_shared (ret_act x) = ret_act x" "on_shared (raise_act e) = raise_act e"
  by (simp_all add: fun_eq_iff on_shared_def ret_act_def raise_act_def)

lemma on_shared_lift: "on_shared (lift_res r) = lift_res r"
  by (simp add: fun_eq_iff on_shared_def)

lemma bind_raise: "bind_act (raise_act e) f = raise_act e"
  by (simp add: fun_eq_iff bind_act_def raise_act_def)

lemma CommandDistributor_sync:
  assumes "async_services C = Map.empty"
  shows "CommandDistributor_read (new_CommandDistributor C) ctx (cmd_id, p, request) =
    bind_act (on_shared (RunSyncService C cmd_id p request)) (\<lambda>rsp. fireWrite ctx (cmd_id, rsp))"
  using assms
  by (auto simp: CommandDistributor_read_def RunSyncService_def IsSyncCmd_def CommandManager_IsValidCmd_def Let_def
      on_shared_ret fun_eq_iff split: option.splits)

lemma exec_RunSync:
  assumes "register_services R P = Inr m" and "cmd_id \<noteq> CMD_LOGIN" and "cmd_id \<noteq> CMD_REGISTER"
  shows "RunSyncService (fst m) cmd_id p request = exec R (service_prog P cmd_id p request)"
proof (cases "sync_services (fst m) cmd_id")
  case None
  then have "cmd_id \<noteq> CMD_QUERY_TASK" "cmd_id \<noteq> CMD_UPDATE_TASK" "cmd_id \<noteq> CMD_ERASE_ROLE"
    using assms(1) by (auto simp: register_services_eq split: if_splits)
  with None show ?thesis by (simp add: RunSyncService_def service_prog_def)
next
  case (Some f)
  with exec_service [OF assms Some] show ?thesis by (simp add: RunSyncService_def fun_eq_iff)
qed

text \<open>Everything above the parser is the program of the request, and then the answer is written.\<close>

lemma after_parse_exec:
  assumes "register_services R P = Inr m"
  shows "after_parse R P m addr L msg = bind_act (on_shared (exec R (request_prog P addr msg))) (respond L)"
proof -
  have async: "async_services (fst m) = Map.empty" using assms by (auto simp: register_services_eq)
  note rules = after_parse_def RoleInjectHandler_read_def request_prog_def Let_def exec_rules on_shared_bind on_shared_ret bind_act_assoc
    bind_act_ret exec_pull_and_add exec_login [of _ _ _ empty_role] exec_register [of _ _ _ empty_role]
  have role: "(case r of None \<Rightarrow> on_shared (make_shared empty_role) | Some p \<Rightarrow> ret_act p) =
      on_shared (case r of None \<Rightarrow> exec R (atomic (make_shared empty_role)) | Some p \<Rightarrow> exec R (Done p))" for r
    by (cases r) (simp_all add: exec_atomic on_shared_ret)
  consider "fst msg = CMD_LOGIN" | "fst msg = CMD_REGISTER" "fst msg \<noteq> CMD_LOGIN"
    | "fst msg \<noteq> CMD_LOGIN" "fst msg \<noteq> CMD_REGISTER" by blast
  then show ?thesis
  proof cases
    case 3
    then show ?thesis
      by (simp add: rules role CommandDistributor_sync [OF async] exec_RunSync [OF assms])
  qed (simp_all add: rules bind_raise del: casts_by_type split: option.splits)
qed

section \<open>Connections\<close>

text \<open>
  A connection: its messages are handled one after the other, in the order in which they
  arrive; an exception ends it. The connections of a pool interleave.
\<close>

primrec connection_prog :: "protobuf \<Rightarrow> 'addr \<Rightarrow> CmdMessagePair list \<Rightarrow> ('addr, 'c, CmdMessagePair list) thread" where
  "connection_prog P addr [] = Done []"
| "connection_prog P addr (msg # msgs) =
     bind_prog (request_prog P addr msg) (\<lambda>rsp. bind_prog (connection_prog P addr msgs) (\<lambda>rsps. Done (rsp # rsps)))"

section \<open>The way out\<close>

text \<open>
  The outbound handlers have no state of their own and touch none of the server's, so a
  response goes out on the thread that computed it, without another section: serialised, with
  its command id and its length in front, or refused by the prepender.
\<close>

definition outbound :: "folly \<Rightarrow> protobuf \<Rightarrow> CmdMessagePair \<Rightarrow> iobuf result" where
  "outbound F P msg =
     (let bytes = SerializeToString P (snd msg);
          buffer = (io_append F (length bytes) (io_create F (length bytes)))[0 := bytes]
      in bind_res (opcode_write F (fst msg, buffer)) (prepender_write F minigame_prepender))"

definition answer_prog :: "folly \<Rightarrow> protobuf \<Rightarrow> 'addr \<Rightarrow> CmdMessagePair \<Rightarrow> ('addr, 'c, iobuf) thread" where
  "answer_prog F P addr msg = bind_prog (request_prog P addr msg) (\<lambda>rsp. lift_prog (outbound F P rsp))"

text \<open>A connection with the frames it sends; the exception of a frame ends it.\<close>

primrec serving_prog :: "folly \<Rightarrow> protobuf \<Rightarrow> 'addr \<Rightarrow> CmdMessagePair list \<Rightarrow> ('addr, 'c, iobuf list) thread" where
  "serving_prog F P addr [] = Done []"
| "serving_prog F P addr (msg # msgs) =
     bind_prog (answer_prog F P addr msg) (\<lambda>frame. bind_prog (serving_prog F P addr msgs) (\<lambda>frames. Done (frame # frames)))"

context folly_io
begin

lemma outbound_eq:
  "outbound F P (cmd_id, msg) = prepender_write F minigame_prepender [le_bytes 2 (unat (cmd_id + 1) mod 65536), SerializeToString P msg]"
proof -
  obtain s where "io_append F (length (SerializeToString P msg)) (io_create F (length (SerializeToString P msg))) = [s]"
    using create_append by blast
  then show ?thesis by (simp add: outbound_def opcode_write_eq bind_res_def del: le_bytes_numeral)
qed

lemma outbound_error: "outbound F P rsp = Inl e \<Longrightarrow> e \<in> refusals \<and> \<not> reply_fits P (snd rsp)"
  using prepender_minigame_error prepender_minigame_fits [of P "snd rsp" "fst rsp"] outbound_eq [of P "fst rsp" "snd rsp"] by fastforce

lemma outbound_frame: "outbound F P rsp = Inr frame \<Longrightarrow>
    concat frame = reply_bytes P (fst rsp) (snd rsp) \<or> 2 ^ 32 \<le> length (SerializeToString P (snd rsp)) + 2"
  using prepender_minigame_oversized [of P "snd rsp" "fst rsp"] prepender_minigame_fits [of P "snd rsp" "fst rsp"]
    outbound_eq [of P "fst rsp" "snd rsp"]
  by (cases "reply_fits P (snd rsp)"; cases "reply_oversized P (snd rsp)") (auto simp: reply_fits_def reply_oversized_def)

lemma respond_is_outbound:
  assumes "newPipeline F P R (new_LittleBPipelineFactory m) addr = Inr L"
  shows "respond L rsp = bind_act (lift_res (outbound F P rsp)) (\<lambda>b. log_event (Wrote b))"
  using respond_outbound [OF assms, of "fst rsp" "snd rsp"] outbound_eq [of P "fst rsp" "snd rsp"] by (simp add: fun_eq_iff)

text \<open>Alone, the program of a request with its way out is what the pipeline does with the frame.\<close>

lemma frames_are_programs:
  assumes "register_services R P = Inr m" and L: "newPipeline F P R (new_LittleBPipelineFactory m) addr = Inr L"
    and "2 \<le> length s" and "reflection_data (snd m) (frame_cmd s) = Some d"
    and "ParseFromArray P (request_proto d) (drop 2 s) = (True, msg)"
  shows "deliver L (s # ss) w = bind_act (on_shared (exec R (answer_prog F P addr (frame_cmd s, msg)))) (\<lambda>b. log_event (Wrote b)) w"
proof -
  have "respond L = (\<lambda>rsp. bind_act (lift_res (outbound F P rsp)) (\<lambda>b. log_event (Wrote b)))"
    by (rule ext) (rule respond_is_outbound [OF L])
  then show ?thesis
    using deliver_eq [OF L assms(3), of ss w] assms(4,5)
    by (simp add: after_parse_exec [OF assms(1)] on_shared_lift answer_prog_def exec_bind exec_lift on_shared_bind bind_act_assoc)
qed

end

section \<open>Property\<close>

text \<open>
  C18: a request that runs alone is the pipeline. Whatever a frame with a registered command
  and a message that parses does on the booted server, from opcode and parser to role
  injection, distributor and service, is what the program of the request does when its
  sections follow each other without another thread in between; its result is then written
  as the response. This holds for all five services, from every state and for every
  behaviour of redis.
\<close>

theorem requests_are_programs:
  assumes "folly_io F" and "register_services R P = Inr m" and "newPipeline F P R (new_LittleBPipelineFactory m) addr = Inr L"
    and "2 \<le> length s" and "reflection_data (snd m) (frame_cmd s) = Some d"
    and "ParseFromArray P (request_proto d) (drop 2 s) = (True, msg)"
  shows "deliver L (s # ss) w = bind_act (on_shared (exec R (request_prog P addr (frame_cmd s, msg)))) (respond L) w"
  using folly_io.deliver_eq [OF assms(1,3,4), of ss w] assms(5,6) by (simp add: after_parse_exec [OF assms(2)])

text \<open>A query on a connection without a role: alone, its program leads to the response that is written.\<close>

theorem requests_are_programs_witness:
  "\<exists>(m :: (role_ptr, (nat, string \<Rightarrow> string option) server, nat) managers) L. register_services redis_ref protobuf_ref = Inr m \<and>
     newPipeline folly_ref protobuf_ref redis_ref (new_LittleBPipelineFactory m) 5 = Inr L \<and>
     deliver L [query_frame] world0 =
       bind_act (on_shared (exec redis_ref (request_prog protobuf_ref 5 (CMD_QUERY_TASK, MTaskQueryReq \<lparr>tq_rpcid = 5\<rparr>))))
         (respond L) world0"
proof (rule pipeline_exists [of redis_ref protobuf_ref folly_ref 5])
  fix m :: "(role_ptr, (nat, string \<Rightarrow> string option) server, nat) managers" and L
  assume m: "register_services redis_ref protobuf_ref = Inr m" "newPipeline folly_ref protobuf_ref redis_ref (new_LittleBPipelineFactory m) 5 = Inr L"
  have lookup: "reflection_data (snd m) (frame_cmd query_frame) = Some \<lparr>request_proto = TTaskQueryReq, response_proto = TTaskQueryRsp\<rparr>"
    using m(1) unfolding register_services_eq query_frame_facts(2) by (auto simp: cmd_ids)
  with requests_are_programs [OF folly_ref_laws(1) m query_frame_facts(1) lookup] query_frame_facts m show ?thesis by auto
qed

end
