(* ===== verification/Concurrent_Requests.thy ===== *)
theory Concurrent_Requests
  imports Requests Robustness
begin

text \<open>
  Any number of connections at the same time, each with any sequence of requests. The role
  table and the role objects stay well formed under every schedule of their sections, whatever
  the database answers, and a connection cannot touch the role of another one.
\<close>

section \<open>Who may write which role object\<close>

text \<open>
  The ghost of a thread: the address it serves, the role objects it has made and not put into
  the table, and the object it knows its address is bound to.
\<close>

record 'addr access =
  serves :: 'addr
  owned :: "role_ptr set"
  own_role :: "role_ptr option"

definition may_use :: "'addr access \<Rightarrow> role_ptr \<Rightarrow> bool" where
  "may_use g p \<longleftrightarrow> p \<in> owned g \<or> own_role g = Some p"

text \<open>
  The shared state against the state \<open>S0\<close> in which the pool started: pointers are valid and
  unshared, owned objects belong to one thread and to no address, bindings stay, and the
  bindings and roles of addresses nobody serves are what they were.
\<close>

definition access_ok :: "('addr, 'c) server \<Rightarrow> 'addr set \<Rightarrow> 'addr access list \<Rightarrow> ('addr, 'c) server \<Rightarrow> bool" where
  "access_ok S0 A gs S \<longleftrightarrow> roles_ok S \<and> task_manager S = task_manager S0 \<and>
     (\<forall>a p. roles S0 a = Some p \<longrightarrow> roles S a = Some p) \<and>
     (\<forall>a. a \<notin> A \<longrightarrow> roles S a = roles S0 a) \<and>
     (\<forall>a p. a \<notin> A \<longrightarrow> roles S0 a = Some p \<longrightarrow> role_heap S ! p = role_heap S0 ! p) \<and>
     (\<forall>i<length gs. serves (gs ! i) \<in> A \<and>
        (\<forall>p. own_role (gs ! i) = Some p \<longrightarrow> roles S (serves (gs ! i)) = Some p) \<and>
        (\<forall>p\<in>owned (gs ! i). p < length (role_heap S) \<and> p \<notin> ran (roles S)) \<and>
        (\<forall>j<length gs. i \<noteq> j \<longrightarrow> owned (gs ! i) \<inter> owned (gs ! j) = {}))"

text \<open>A change of the pool state that keeps this, checked thread by thread.\<close>

lemma access_ok_update:
  assumes "access_ok S0 A gs S" and "i < length gs"
    and "roles_ok S'" and "task_manager S' = task_manager S" and "length (role_heap S) \<le> length (role_heap S')"
    and "\<And>a. a \<noteq> serves (gs ! i) \<Longrightarrow> roles S' a = roles S a"
    and "\<And>p. roles S (serves (gs ! i)) = Some p \<Longrightarrow> roles S' (serves (gs ! i)) = Some p"
    and "\<And>p. p < length (role_heap S) \<Longrightarrow> \<not> may_use (gs ! i) p \<Longrightarrow> role_heap S' ! p = role_heap S ! p"
    and "\<And>p. roles S' (serves (gs ! i)) = Some p \<Longrightarrow> roles S (serves (gs ! i)) = Some p \<or> p \<in> owned (gs ! i)"
    and "serves g' = serves (gs ! i)" and "\<And>p. own_role g' = Some p \<Longrightarrow> roles S' (serves g') = Some p"
    and "\<And>p. p \<in> owned g' \<Longrightarrow> p < length (role_heap S') \<and> p \<notin> ran (roles S')"
    and "\<And>p. p \<in> owned g' \<Longrightarrow> p \<in> owned (gs ! i) \<or> length (role_heap S) \<le> p"
  shows "access_ok S0 A (gs[i := g']) S'"
  unfolding access_ok_def
proof (intro conjI allI impI ballI)
  note ok = assms(1) [unfolded access_ok_def]
  let ?a = "serves (gs ! i)"
  have A: "?a \<in> A" using ok assms(2) by blast
  have own: "p < length (role_heap S)" "p \<notin> ran (roles S)" if "l < length gs" "p \<in> owned (gs ! l)" for l p using ok that by blast+
  have apart: "owned (gs ! l) \<inter> owned (gs ! l') = {}" if "l < length gs" "l' < length gs" "l \<noteq> l'" for l l' using ok that by blast
  have keep: "roles S' a = Some p" if "roles S a = Some p" for a p
    using that assms(6) [of a] assms(7) by (cases "a = ?a") auto
  show "roles_ok S'" by (rule assms(3))
  show "task_manager S' = task_manager S0" using ok assms(4) by simp
  show "roles S' a = Some p" if "roles S0 a = Some p" for a p using ok that keep by blast
  show other: "roles S' a = roles S0 a" if "a \<notin> A" for a using ok that A assms(6) by metis
  show "role_heap S' ! p = role_heap S0 ! p" if "a \<notin> A" "roles S0 a = Some p" for a p
  proof -
    have p: "roles S a = Some p" using ok that by blast
    then have len: "p < length (role_heap S)" using ok unfolding roles_ok_def by blast
    have "p \<notin> owned (gs ! i)" using ok assms(2) p unfolding ran_def by blast
    moreover have "own_role (gs ! i) \<noteq> Some p" using ok assms(2) p that(1) A unfolding roles_ok_def by blast
    ultimately show ?thesis using assms(8) [OF len] ok that by (auto simp: may_use_def)
  qed
  fix j assume j: "j < length (gs[i := g'])"
  show "serves (gs[i := g'] ! j) \<in> A" using ok j A assms(2,10) by (cases "j = i") auto
  show "roles S' (serves (gs[i := g'] ! j)) = Some p" if "own_role (gs[i := g'] ! j) = Some p" for p
    using that ok j keep assms(2,11) by (cases "j = i") auto
  show "p < length (role_heap S')" if "p \<in> owned (gs[i := g'] ! j)" for p
  proof (cases "j = i")
    case False
    with that j have "p \<in> owned (gs ! j)" "j < length gs" by auto
    with ok have "p < length (role_heap S)" by blast
    with assms(5) show ?thesis by simp
  qed (use that assms(2,12) in auto)
  show "p \<notin> ran (roles S')" if p: "p \<in> owned (gs[i := g'] ! j)" for p
  proof (cases "j = i")
    case True
    with p assms(2,12) show ?thesis by simp
  next
    case False
    with p j have free: "p \<notin> ran (roles S)" "p \<notin> owned (gs ! i)" using assms(2) apart [of j i] own by auto
    show ?thesis
    proof
      assume "p \<in> ran (roles S')"
      then obtain a where "roles S' a = Some p" by (auto simp: ran_def)
      with free assms(6) [of a] assms(9) show False by (cases "a = ?a") (auto simp: ran_def)
    qed
  qed
  fix k assume k: "k < length (gs[i := g'])" "j \<noteq> k"
  have new: "owned g' \<inter> owned (gs ! l) = {}" if "l < length gs" "l \<noteq> i" for l
    using apart [OF assms(2) that(1)] that(2) assms(13) own(1) [OF that(1)] by fastforce
  show "owned (gs[i := g'] ! j) \<inter> owned (gs[i := g'] ! k) = {}"
    using apart [of j k] j k new [of j] new [of k] by (cases "j = i"; cases "k = i") (auto simp: Int_commute)
qed

lemma access_ok_roles: "access_ok S0 A gs S \<Longrightarrow> roles_ok S"
  by (simp add: access_ok_def)

lemma access_ok_owned:
  "access_ok S0 A gs S \<Longrightarrow> i < length gs \<Longrightarrow> p \<in> owned (gs ! i) \<Longrightarrow> p < length (role_heap S) \<and> p \<notin> ran (roles S)"
  by (simp add: access_ok_def)

section \<open>The sections of a request\<close>

abbreviation tidy :: "'c hiredis \<Rightarrow> ('addr, 'c) server \<Rightarrow> 'addr set \<Rightarrow> 'addr access \<Rightarrow> ('addr, 'c, 'a) thread \<Rightarrow> bool" where
  "tidy R S0 A \<equiv> safe R (access_ok S0 A) (\<lambda>_ _. True)"

lemma access_ok_same:
  assumes "access_ok S0 A gs S" and "i < length gs" and "same_roles S S'"
  shows "access_ok S0 A (gs[i := gs ! i]) S'"
  using assms by (simp add: access_ok_def same_roles_def roles_ok_def)

lemma tidy_Cmd:
  assumes "\<And>reply. tidy R S0 A g (k reply)"
  shows "tidy R S0 A g (Cmd format args k)"
proof (rule safe_Cmd)
  fix gs i S r S'
  assume a: "access_ok S0 A gs S" "i < length gs" "gs ! i = g" "redis_cmd R format args S = (r, S')"
  have "same_roles S S'"
    using redis_cmd_frame [of R format args S] a(4) by (simp add: same_roles_def)
  from access_ok_same [OF a(1,2) this] assms a(3)
  show "\<exists>g'. access_ok S0 A (gs[i := g']) S' \<and> (case r of Inl e \<Rightarrow> True | Inr reply \<Rightarrow> tidy R S0 A g' (k reply))"
    by (intro exI [of _ g]) (auto split: sum.splits)
qed

lemma tidy_read:
  assumes "\<And>r. tidy R S0 A g (f r)"
  shows "tidy R S0 A g (bind_prog (atomic (read_role p)) f)"
proof (rule safe_section)
  fix gs i S r S'
  assume a: "access_ok S0 A gs S" "i < length gs" "gs ! i = g" "read_role p S = (r, S')"
  then have "S' = S" by (auto simp: read_role_def split: if_splits)
  with a assms show "\<exists>g'. access_ok S0 A (gs[i := g']) S' \<and> (case r of Inl e \<Rightarrow> True | Inr x \<Rightarrow> tidy R S0 A g' (f x))"
    by (intro exI [of _ g]) (auto split: sum.splits)
qed

lemma tidy_copy:
  assumes "\<And>T. tidy R S0 A g (f T)"
  shows "tidy R S0 A g (bind_prog (atomic copy_task_manager) f)"
proof (rule safe_section)
  fix gs i S r S'
  assume a: "access_ok S0 A gs S" "i < length gs" "gs ! i = g" "copy_task_manager S = (r, S')"
  then have "S' = S" by (auto simp: copy_task_manager_def)
  with a assms show "\<exists>g'. access_ok S0 A (gs[i := g']) S' \<and> (case r of Inl e \<Rightarrow> True | Inr x \<Rightarrow> tidy R S0 A g' (f x))"
    by (intro exI [of _ g]) (auto split: sum.splits)
qed

lemma tidy_write:
  assumes "may_use g p" and "tidy R S0 A g (h ())"
  shows "tidy R S0 A g (bind_prog (atomic (write_role p f)) h)"
proof (rule safe_section)
  fix gs i S r S'
  assume a: "access_ok S0 A gs S" "i < length gs" "gs ! i = g" "write_role p f S = (r, S')"
  have S': "S' = S \<or> S' = S\<lparr>role_heap := (role_heap S)[p := f (role_heap S ! p)]\<rparr>"
    using a(4) by (auto simp: write_role_def split: if_splits)
  then have "access_ok S0 A (gs[i := g]) S'"
  proof
    assume "S' = S"
    with a(1,3) show ?thesis by auto
  next
    assume S': "S' = S\<lparr>role_heap := (role_heap S)[p := f (role_heap S ! p)]\<rparr>"
    show ?thesis
    proof (rule access_ok_update [OF a(1,2)])
      show "role_heap S' ! q = role_heap S ! q" if "\<not> may_use (gs ! i) q" for q
        using that assms(1) a(3) S' by (cases "q = p") auto
    qed (use a(1,2) S' in \<open>auto simp: access_ok_def roles_ok_def a(3) [symmetric]\<close>)
  qed
  with assms(2) show "\<exists>g'. access_ok S0 A (gs[i := g']) S' \<and> (case r of Inl e \<Rightarrow> True | Inr x \<Rightarrow> tidy R S0 A g' (h x))"
    by (intro exI [of _ g]) (auto split: sum.splits)
qed

lemma tidy_make:
  assumes "\<And>p. tidy R S0 A (g\<lparr>owned := insert p (owned g)\<rparr>) (f p)"
  shows "tidy R S0 A g (bind_prog (atomic (make_shared x)) f)"
proof (rule safe_section)
  fix gs i S r S'
  assume a: "access_ok S0 A gs S" "i < length gs" "gs ! i = g" "make_shared x S = (r, S')"
  let ?p = "length (role_heap S)" and ?g = "g\<lparr>owned := insert (length (role_heap S)) (owned g)\<rparr>"
  have S': "S' = S\<lparr>role_heap := role_heap S @ [x]\<rparr>" "r = Inr ?p"
    using a(4) by (simp_all add: make_shared_def)
  have fresh: "?p \<notin> ran (roles S)" using a(1) by (auto simp: access_ok_def roles_ok_def ran_def)
  have "access_ok S0 A (gs[i := ?g]) S'"
  proof (rule access_ok_update [OF a(1,2)])
    show "roles_ok S'" using a(1) S'(1) by (auto simp: access_ok_def roles_ok_def intro: less_SucI)
    show "p < length (role_heap S') \<and> p \<notin> ran (roles S')" if "p \<in> owned ?g" for p
    proof -
      have "p = ?p \<or> p \<in> owned (gs ! i)" using that a(3) by auto
      then show ?thesis using a(1,2) fresh S'(1) unfolding access_ok_def by (auto intro: less_SucI)
    qed
  qed (use a S'(1) in \<open>auto simp: access_ok_def nth_append\<close>)
  with assms S'(2) show "\<exists>g'. access_ok S0 A (gs[i := g']) S' \<and> (case r of Inl e \<Rightarrow> True | Inr x \<Rightarrow> tidy R S0 A g' (f x))"
    by auto
qed

lemma tidy_add:
  assumes "a = serves g" and "p \<in> owned g" and "\<And>g' b. serves g' = a \<Longrightarrow> tidy R S0 A g' (f b)"
  shows "tidy R S0 A g (bind_prog (atomic (\<lambda>S. map_prod Inr id (AddRole a p S))) f)"
proof (rule safe_section)
  fix gs i S r S'
  assume a: "access_ok S0 A gs S" "i < length gs" "gs ! i = g" "map_prod Inr id (AddRole a p S) = (r, S')"
  have own: "q < length (role_heap S)" "q \<notin> ran (roles S)" if "q \<in> owned g" for q
    using access_ok_owned [OF a(1,2)] that a(3) by simp_all
  have S': "S' = snd (AddRole a p S)" and r: "\<exists>b. r = Inr b" using a(4) by (auto simp: map_prod_def split: prod.splits)
  have "roles_ok S" by (rule access_ok_roles [OF a(1)])
  then have ok': "roles_ok S'" unfolding S' using own [OF assms(2)] by (intro AddRole_roles_ok)
  show "\<exists>g'. access_ok S0 A (gs[i := g']) S' \<and> (case r of Inl e \<Rightarrow> True | Inr x \<Rightarrow> tidy R S0 A g' (f x))"
  proof (cases "roles S a")
    case (Some q)
    with S' have "S' = S" by (simp add: AddRole_def)
    with a(1,3) have "access_ok S0 A (gs[i := g]) S'" by auto
    with assms(3) [OF assms(1) [symmetric]] r show ?thesis by (intro exI [of _ g]) auto
  next
    case None
    let ?g = "g\<lparr>owned := owned g - {p}, own_role := None\<rparr>"
    have S'': "S' = S\<lparr>roles := (roles S)(a \<mapsto> p)\<rparr>" using None S' by (simp add: AddRole_def)
    have "access_ok S0 A (gs[i := ?g]) S'"
    proof (rule access_ok_update [OF a(1,2) ok'], unfold a(3) assms(1) [symmetric])
      show "q < length (role_heap S') \<and> q \<notin> ran (roles S')" if "q \<in> owned ?g" for q
        using that own [of q] None S'' by auto
    qed (use assms(1,2) None S'' in \<open>auto simp: may_use_def\<close>)
    with assms(3) [of ?g] assms(1) r show ?thesis by (intro exI [of _ ?g]) auto
  qed
qed

lemma tidy_GetRole:
  assumes "a = serves g" and "tidy R S0 A g (f None)" and "\<And>p. tidy R S0 A (g\<lparr>own_role := Some p\<rparr>) (f (Some p))"
  shows "tidy R S0 A g (bind_prog (atomic (\<lambda>S. (Inr (GetRole a S), S))) f)"
proof (rule safe_section)
  fix gs i S r S'
  assume a: "access_ok S0 A gs S" "i < length gs" "gs ! i = g" "(Inr (GetRole a S), S) = (r, S')"
  show "\<exists>g'. access_ok S0 A (gs[i := g']) S' \<and> (case r of Inl e \<Rightarrow> True | Inr x \<Rightarrow> tidy R S0 A g' (f x))"
  proof (cases "roles S a")
    case None
    with a assms(2) show ?thesis by (intro exI [of _ g]) (auto simp: GetRole_def)
  next
    case (Some p)
    let ?g = "g\<lparr>own_role := Some p\<rparr>"
    have "access_ok S0 A (gs[i := ?g]) S"
      by (rule access_ok_update [OF a(1,2)]) (use a(1-3) assms(1) Some in \<open>auto simp: access_ok_def\<close>)
    with a(4) assms(3) Some show ?thesis by (intro exI [of _ ?g]) (auto simp: GetRole_def)
  qed
qed

lemma may_use_simps [simp]:
  "may_use (g\<lparr>owned := insert p O'\<rparr>) p" "may_use (g\<lparr>own_role := Some p\<rparr>) p"
  by (simp_all add: may_use_def)

section \<open>Requests keep the role table\<close>

lemmas tidy_sections = tidy_Cmd tidy_read tidy_copy tidy_write tidy_make tidy_add tidy_GetRole

lemma bind_lift:
  "bind_prog (lift_prog r) f = (case r of Inr x \<Rightarrow> f x | Inl e \<Rightarrow> Abort e)"
  by (simp add: lift_prog_def split: sum.splits)

lemma tidy_pull:
  assumes "tidy R S0 A g (f None)" and "\<And>p. tidy R S0 A (g\<lparr>owned := insert p (owned g)\<rparr>) (f (Some p))"
  shows "tidy R S0 A g (bind_prog (pull_role_prog P u) f)"
  unfolding pull_role_prog_def prog_norm
  using assms by (auto intro!: tidy_sections split: prod.splits option.splits)

lemma tidy_push:
  assumes "\<And>b. tidy R S0 A g (f b)"
  shows "tidy R S0 A g (bind_prog (push_role_prog P r) f)"
  unfolding push_role_prog_def prog_norm using assms by (auto intro!: tidy_sections)

lemma tidy_pull_task:
  assumes "\<And>x. tidy R S0 A g (f x)"
  shows "tidy R S0 A g (bind_prog (pull_task_prog P gid T) f)"
  unfolding pull_task_prog_def prog_norm using assms by (auto intro!: tidy_sections split: option.splits)

lemma tidy_push_task:
  assumes "\<And>x. tidy R S0 A g (f x)"
  shows "tidy R S0 A g (bind_prog (push_task_prog P gid T) f)"
  unfolding push_task_prog_def prog_norm using assms by (auto intro!: tidy_sections split: option.splits)

lemmas tidy_managers = tidy_sections tidy_pull tidy_push tidy_pull_task tidy_push_task

lemma tidy_login: "(\<And>g' x. serves g' = serves g \<Longrightarrow> tidy R S0 A g' (f x)) \<Longrightarrow> tidy R S0 A g (bind_prog (login_prog P req) f)"
  unfolding login_prog_def prog_norm prod.case
  by (auto intro!: tidy_managers split: prod.splits option.splits)

lemma tidy_register: "(\<And>x. tidy R S0 A g (f x)) \<Longrightarrow> tidy R S0 A g (bind_prog (register_prog P req) f)"
  unfolding register_progs prog_norm by (auto intro!: tidy_sections)

lemma tidy_query: "(\<And>x. tidy R S0 A g (f x)) \<Longrightarrow> tidy R S0 A g (bind_prog (query_prog P T p req) f)"
  unfolding query_prog_def prog_norm by (auto intro!: tidy_managers split: prod.splits)

lemma tidy_update: "(\<And>x. tidy R S0 A g (f x)) \<Longrightarrow> tidy R S0 A g (bind_prog (update_prog P T p req) f)"
  unfolding update_prog_def update_player_def prog_norm bind_lift
  by (auto simp: bind_prog_assoc intro!: tidy_managers split: prod.splits sum.splits)

lemma tidy_erase: "may_use g p \<Longrightarrow> (\<And>x. tidy R S0 A g (f x)) \<Longrightarrow> tidy R S0 A g (bind_prog (erase_prog P p req) f)"
  unfolding erase_prog_def prog_norm by (auto intro!: tidy_managers)

lemma tidy_service: "may_use g p \<Longrightarrow> (\<And>x. tidy R S0 A g (f x)) \<Longrightarrow> tidy R S0 A g (bind_prog (service_prog P cmd_id p req) f)"
  unfolding service_prog_def decorated_def
  by (auto simp: bind_prog_assoc intro!: tidy_copy tidy_query tidy_update tidy_erase split: option.splits)

lemma tidy_request:
  assumes "serves g = a" and "\<And>g' x. serves g' = a \<Longrightarrow> tidy R S0 A g' (f x)"
  shows "tidy R S0 A g (bind_prog (request_prog P a msg) f)"
  unfolding request_prog_def pull_and_add_prog_def prog_norm
  using assms
  by (auto intro!: tidy_managers tidy_login tidy_register tidy_service simp: bind_prog_if split: option.splits)

lemma tidy_connection:
  assumes "serves g = a" and "\<And>g' x. serves g' = a \<Longrightarrow> tidy R S0 A g' (f x)"
  shows "tidy R S0 A g (bind_prog (connection_prog P a msgs) f)"
  using assms
proof (induction msgs arbitrary: g f)
  case (Cons msg msgs)
  have "tidy R S0 A g' (bind_prog (connection_prog P a msgs) (\<lambda>rsps. f (rsp # rsps)))" if "serves g' = a" for g' rsp
    using Cons.IH [OF that, of "\<lambda>rsps. f (rsp # rsps)"] Cons.prems(2) by blast
  with Cons.prems(1) show ?case by (auto simp: bind_prog_assoc intro!: tidy_request)
qed simp

lemma pool_tidy:
  fixes S S' :: "('addr, 'c) server"
  assumes "roles_ok S" and "interleaves R (S, map (\<lambda>(a, msgs). connection_prog P a msgs) conns) (S', ts)"
  shows "\<exists>gs. access_ok S (fst ` set conns) gs S'"
proof -
  let ?gs = "map (\<lambda>(a, msg). \<lparr>serves = a, owned = {}, own_role = None\<rparr>) conns"
  let ?ok = "access_ok S (fst ` set conns)"
  have ok: "?ok ?gs S"
    using assms(1) by (auto simp: access_ok_def case_prod_beta)
  have one: "tidy R S (fst ` set conns) \<lparr>serves = a, owned = {}, own_role = None\<rparr>
      (connection_prog P a msgs :: ('addr, 'c, CmdMessagePair list) thread)" for a msgs
    using tidy_connection [of "\<lparr>serves = a, owned = {}, own_role = None\<rparr>" a R S "fst ` set conns" Done P msgs] by simp
  have "list_all2 (tidy R S (fst ` set conns)) ?gs
      (map (\<lambda>(a, msgs). connection_prog P a msgs) conns :: ('addr, 'c, CmdMessagePair list) thread list)"
    by (simp add: list_all2_conv_all_nth case_prod_beta one)
  from safe_pool [of R S _ S' ts ?ok, OF assms(2) ok this] show ?thesis by blast
qed

section \<open>Property\<close>

text \<open>
  C14: isolation of the connections. However the sections of any connections interleave, each
  with any sequence of requests, wherever that is stopped and whatever the database answers:
  the pointers of the role table are valid and unshared, the shared task cache is as it was,
  an address that was bound keeps its role object, and an address none of the requests came
  from has the binding it had and its role object is unchanged. So no request writes into
  the role of another player.
\<close>

theorem concurrent_requests_are_isolated:
  assumes "roles_ok S" and "interleaves R (S, map (\<lambda>(a, msgs). connection_prog P a msgs) conns) (S', ts)"
  shows "roles_ok S' \<and> task_manager S' = task_manager S \<and> (\<forall>a p. roles S a = Some p \<longrightarrow> roles S' a = Some p) \<and>
    (\<forall>a. a \<notin> fst ` set conns \<longrightarrow> roles S' a = roles S a) \<and>
    (\<forall>a p. a \<notin> fst ` set conns \<longrightarrow> roles S a = Some p \<longrightarrow> role_heap S' ! p = role_heap S ! p)"
  using pool_tidy [OF assms] unfolding access_ok_def by blast

text \<open>
  The player at address 1 erases the role and logs in again, a new client registers at address
  3, and the player at address 2 is bound.
\<close>

definition server_bound :: "(nat, string \<Rightarrow> string option) server" where
  "server_bound = server_two\<lparr>roles := [1 \<mapsto> 0, 2 \<mapsto> 1]\<rparr>"

theorem concurrent_requests_are_isolated_witness:
  "\<exists>S' ts. interleaves redis_ref (server_bound,
       [connection_prog protobuf_ref 1 [(CMD_ERASE_ROLE, MEraseRoleReq \<lparr>er_rpcid = 5\<rparr>), (CMD_LOGIN, MLoginReq login_bob)],
        connection_prog protobuf_ref 3 [(CMD_REGISTER, MRegisterReq register_bob)]]) (S', ts) \<and>
     (\<nexists>Z. thread_step redis_ref (S', ts) Z) \<and> roles S' 1 = Some 0 \<and> roles S' 2 = Some 1 \<and> role_heap S' ! 1 = role_heap server_two ! 1"
proof -
  let ?conns = "[(1, [(CMD_ERASE_ROLE, MEraseRoleReq \<lparr>er_rpcid = 5\<rparr>), (CMD_LOGIN, MLoginReq login_bob)]),
      (3, [(CMD_REGISTER, MRegisterReq register_bob)])]"
  obtain S' ts where run: "interleaves redis_ref (server_bound, map (\<lambda>(a, msgs). connection_prog protobuf_ref a msgs) ?conns) (S', ts)"
      "\<nexists>Z. thread_step redis_ref (S', ts) Z"
    using pool_ends [of redis_ref] by (metis surj_pair)
  have "roles_ok server_bound" by (auto simp: roles_ok_def server_bound_def split: if_splits)
  note iso = concurrent_requests_are_isolated [OF this run(1)]
  from iso have "roles S' 1 = Some 0" "roles S' 2 = Some 1" by (simp_all add: server_bound_def)
  moreover from iso have "\<forall>a p. a \<notin> fst ` set ?conns \<longrightarrow> roles server_bound a = Some p \<longrightarrow> role_heap S' ! p = role_heap server_bound ! p"
    by blast
  from this [rule_format, of 2 1] have "role_heap S' ! 1 = role_heap server_two ! 1" by (simp add: server_bound_def)
  ultimately show ?thesis using run by (intro exI [of _ S'] exI [of _ ts]) simp
qed

end
