(* ===== verification/Concurrent_Answers.thy ===== *)
theory Concurrent_Answers
  imports Concurrent_Requests
begin

text \<open>
  With the database up, no connection waits for another one and no request fails: a request
  has at most ten sections, so every schedule ends within a bound that only depends on the
  number of requests, and at its end every connection has sent the answers to its requests,
  unless one of them is an update whose position no \<open>int32\<close> can hold or has a response the
  prepender refuses.
\<close>

section \<open>What the threads rely on\<close>

text \<open>
  The ghost of a thread: the requests of its connection, role pointers it knows to be valid,
  and the player ids it may still take from the counter.
\<close>

record stock =
  asked :: "CmdMessagePair list"
  known :: "role_ptr set"
  tickets :: nat

definition stock_ok ::
  "('c \<Rightarrow> bool) \<Rightarrow> ('c \<Rightarrow> string \<Rightarrow> string option) \<Rightarrow> CmdMessagePair list list \<Rightarrow> stock list \<Rightarrow> ('addr, 'c) server \<Rightarrow> bool" where
  "stock_ok up store cs gs S \<longleftrightarrow> map asked gs = cs \<and> db_connected up S \<and>
     (\<exists>n. 0 \<le> n \<and> counts (db store S ''gid'') n \<and> n + int (sum_list (map tickets gs)) < 2 ^ 63) \<and>
     (\<forall>a p. roles S a = Some p \<longrightarrow> live p S) \<and> (\<forall>g\<in>set gs. \<forall>p\<in>known g. live p S)"

abbreviation answers ::
  "'c hiredis \<Rightarrow> ('c \<Rightarrow> bool) \<Rightarrow> ('c \<Rightarrow> string \<Rightarrow> string option) \<Rightarrow> CmdMessagePair list list
     \<Rightarrow> (CmdMessagePair list \<Rightarrow> error + 'a \<Rightarrow> bool) \<Rightarrow> stock \<Rightarrow> ('addr, 'c, 'a) thread \<Rightarrow> bool" where
  "answers R up store cs good \<equiv> safe R (stock_ok up store cs) (\<lambda>g. good (asked g))"

lemma stock_ok_update:
  assumes "stock_ok up store cs gs S" and "i < length gs" and "db_connected up S'"
    and "\<And>n. 0 \<le> n \<Longrightarrow> counts (db store S ''gid'') n \<Longrightarrow> n + int (tickets (gs ! i)) < 2 ^ 63 \<Longrightarrow>
      \<exists>n'. 0 \<le> n' \<and> counts (db store S' ''gid'') n' \<and> n' + int (tickets g) \<le> n + int (tickets (gs ! i))"
    and "length (role_heap S) \<le> length (role_heap S')" and "\<And>a p. roles S' a = Some p \<Longrightarrow> roles S a = Some p \<or> live p S'"
    and "\<And>p. p \<in> known g \<Longrightarrow> live p S'" and "asked g = asked (gs ! i)"
  shows "stock_ok up store cs (gs[i := g]) S'"
proof -
  obtain n where n: "0 \<le> n" "counts (db store S ''gid'') n" "n + int (sum_list (map tickets gs)) < 2 ^ 63"
    using assms(1) by (auto simp: stock_ok_def)
  have "tickets (gs ! i) \<le> sum_list (map tickets gs)" using elem_le_sum_list [of i "map tickets gs"] assms(2) by simp
  then obtain n' where "0 \<le> n'" "counts (db store S' ''gid'') n'" "n' + int (tickets g) \<le> n + int (tickets (gs ! i))"
    using assms(4) [OF n(1,2)] n(3) by auto
  moreover have "n' + int (sum_list (map tickets (gs[i := g]))) < 2 ^ 63" if "n' + int (tickets g) \<le> n + int (tickets (gs ! i))" for n'
    using that sum_list_map_update [OF assms(2), of tickets g] n(3) by linarith
  moreover have "map asked (gs[i := g]) = cs"
    using assms(1,2,8) by (auto simp: stock_ok_def map_update list_update_same_conv)
  moreover have "live p S'" if "live p S" for p using that assms(5) by (simp add: live_def)
  ultimately show ?thesis
    using assms(1,3,6,7) set_update_subset_insert [of gs i g] unfolding stock_ok_def by blast
qed

lemma stock_ok_same:
  assumes "stock_ok up store cs gs S" and "i < length gs" and "db_connected up S'" and "db store S' ''gid'' = db store S ''gid''"
    and "same_roles S S'"
  shows "stock_ok up store cs (gs[i := gs ! i]) S'"
  using assms by (intro stock_ok_update [OF assms(1-3)]) (auto simp: same_roles_def stock_ok_def live_def)

lemma stock_ok_known: "stock_ok up store cs gs S \<Longrightarrow> i < length gs \<Longrightarrow> p \<in> known (gs ! i) \<Longrightarrow> live p S"
  unfolding stock_ok_def using nth_mem by blast

text \<open>A message of a registered command, and an answer to it of the registered type.\<close>

definition registered_msg :: "('r, 's, 'f) managers \<Rightarrow> CmdMessagePair \<Rightarrow> bool" where
  "registered_msg m x \<longleftrightarrow> (\<exists>d. reflection_data (snd m) (fst x) = Some d \<and> type_of (snd x) = request_proto d)"

definition typed_answer :: "('r, 's, 'f) managers \<Rightarrow> CmdMessagePair \<Rightarrow> CmdMessagePair \<Rightarrow> bool" where
  "typed_answer m x y \<longleftrightarrow> fst y = fst x \<and> (\<exists>d. reflection_data (snd m) (fst x) = Some d \<and> type_of (snd y) = response_proto d)"

text \<open>
  How a connection may end: with one frame per request, whose bytes are the length, the command
  id plus one and an answer of the registered type (the length of a message of four gigabytes
  wraps), or with an exception one of its requests explains.
\<close>

definition sent_answer :: "protobuf \<Rightarrow> ('r, 's, 'f) managers \<Rightarrow> CmdMessagePair \<Rightarrow> iobuf \<Rightarrow> bool" where
  "sent_answer P m x frame \<longleftrightarrow> (\<exists>rsp. typed_answer m x rsp \<and>
     (concat frame = reply_bytes P (fst x) (snd rsp) \<or> 2 ^ 32 \<le> length (SerializeToString P (snd rsp)) + 2))"

definition serving_ends :: "folly \<Rightarrow> protobuf \<Rightarrow> ('r, 's, 'f) managers \<Rightarrow> CmdMessagePair list \<Rightarrow> error + iobuf list \<Rightarrow> bool" where
  "serving_ends F P m msgs r \<longleftrightarrow> (case r of
     Inr frames \<Rightarrow> list_all2 (sent_answer P m) msgs frames
   | Inl e \<Rightarrow> e = bad_position \<and> (\<exists>q. (CMD_UPDATE_TASK, MTaskUpdateReq q) \<in> set msgs \<and> \<not> in_range q) \<or>
       e \<in> refusals \<and> (\<exists>x\<in>set msgs. \<exists>rsp. typed_answer m x rsp \<and> outbound F P rsp = Inl e \<and> \<not> reply_fits P (snd rsp)))"

definition thread_ends :: "(error + 'a \<Rightarrow> bool) \<Rightarrow> ('addr, 'c, 'a) thread \<Rightarrow> bool" where
  "thread_ends Q t \<longleftrightarrow> (\<exists>x. t = Done x \<and> Q (Inr x)) \<or> (\<exists>e. t = Abort e \<and> Q (Inl e))"

section \<open>The sections of a request\<close>

context server_env
begin

text \<open>A command that leaves the counter alone.\<close>

lemma answers_quiet:
  fixes k :: "redisReply \<Rightarrow> ('addr, 'c, 'a) thread"
  assumes "\<And>S :: ('addr, 'c) server. db_connected up S \<Longrightarrow> \<exists>reply S'. redis_cmd R format args S = (Inr reply, S') \<and> db_connected up S' \<and>
      db store S' ''gid'' = db store S ''gid'' \<and> same_roles S S' \<and> answers R up store cs good g (k reply)"
  shows "answers R up store cs good g (Cmd format args k)"
proof (rule safe_Cmd_ok)
  fix gs i and S :: "('addr, 'c) server"
  assume a: "stock_ok up store cs gs S" "i < length gs" "gs ! i = g"
  then obtain reply S' where S': "redis_cmd R format args S = (Inr reply, S')" "db_connected up S'"
      "db store S' ''gid'' = db store S ''gid''" "same_roles S S'" "answers R up store cs good g (k reply)"
    using assms [of S] by (auto simp: stock_ok_def)
  with stock_ok_same [OF a(1,2) S'(2-4)] a(3) show "\<exists>reply S' g'. redis_cmd R format args S = (Inr reply, S') \<and>
      stock_ok up store cs (gs[i := g']) S' \<and> answers R up store cs good g' (k reply)" by blast
qed

lemma answers_get:
  assumes "plain p" and "\<And>v. answers R up store cs good g (k (reply_get v))"
  shows "answers R up store cs good g (Cmd (''get '' @ p @ ''%s'') [ArgS key] k)"
  by (rule answers_quiet) (use redis_get [OF _ assms(1), of _ key] assms(2) in fastforce)

lemma answers_set_s:
  assumes "plain p" and "p @ key \<noteq> ''gid''" and "answers R up store cs good g (k reply_status)"
  shows "answers R up store cs good g (Cmd (''set '' @ p @ ''%s %s'') [ArgS key, ArgS v] k)"
  by (rule answers_quiet) (use redis_set_s [OF _ assms(1), of _ key v] assms(2,3) in fastforce)

lemma answers_set_b:
  assumes "plain p" and "p @ key \<noteq> ''gid''" and "answers R up store cs good g (k reply_status)"
  shows "answers R up store cs good g (Cmd (''set '' @ p @ ''%s %b'') [ArgS key, ArgB v] k)"
  by (rule answers_quiet) (use redis_set_b [OF _ assms(1), of _ key v] assms(2,3) in fastforce)

text \<open>A ticket is spent on the counter.\<close>

lemma answers_incr:
  assumes "tickets g = Suc t" and "\<And>n. answers R up store cs good (g\<lparr>tickets := t\<rparr>) (k (reply_integer n))"
  shows "answers R up store cs good g (Cmd ''incr gid'' [] k)"
proof (rule safe_Cmd_ok)
  fix gs i S
  assume a: "stock_ok up store cs gs S" "i < length gs" "gs ! i = g"
  obtain n where n: "0 \<le> n" "counts (db store S ''gid'') n" "n + int (sum_list (map tickets gs)) < 2 ^ 63"
    using a(1) by (auto simp: stock_ok_def)
  have "tickets (gs ! i) \<le> sum_list (map tickets gs)" using elem_le_sum_list [of i "map tickets gs"] a(2) by simp
  with n assms(1) a(3) have "n + 1 < 2 ^ 63" by simp
  with a(1) n obtain S' where S': "redis_cmd R ''incr gid'' [] S = (Inr (reply_integer (n + 1)), S')"
      "db_connected up S'" "db store S' = (db store S)(''gid'' \<mapsto> to_string (n + 1))" "same_roles S S'"
    using redis_incr [of S "''gid''" n] by (auto simp: stock_ok_def)
  have "stock_ok up store cs (gs[i := g\<lparr>tickets := t\<rparr>]) S'"
  proof (rule stock_ok_update [OF a(1,2) S'(2)])
    fix n1 assume n1: "0 \<le> n1" "counts (db store S ''gid'') n1" "n1 + int (tickets (gs ! i)) < 2 ^ 63"
    then have "n1 = n" using n(1,2) by (auto simp: counts_def)
    with n(1) S'(3) assms(1) a(3) show "\<exists>n'. 0 \<le> n' \<and> counts (db store S' ''gid'') n' \<and>
        n' + int (tickets (g\<lparr>tickets := t\<rparr>)) \<le> n1 + int (tickets (gs ! i))"
      by (intro exI [of _ "n + 1"]) (simp add: counts_def)
  qed (use S'(4) a stock_ok_known [OF a(1,2)] in \<open>auto simp: same_roles_def live_def stock_ok_def\<close>)
  with S'(1) assms(2) show "\<exists>reply S' g'. redis_cmd R ''incr gid'' [] S = (Inr reply, S') \<and>
      stock_ok up store cs (gs[i := g']) S' \<and> answers R up store cs good g' (k reply)" by blast
qed

lemma answers_read:
  assumes "p \<in> known g" and "\<And>r. answers R up store cs good g (f r)"
  shows "answers R up store cs good g (bind_prog (atomic (read_role p)) f)"
  by (rule safe_section_ok)
    (use assms stock_ok_known [of up store cs] in \<open>auto simp: read_role_def live_def intro!: exI [of _ g]\<close>)

lemma answers_copy:
  assumes "\<And>T. answers R up store cs good g (f T)"
  shows "answers R up store cs good g (bind_prog (atomic copy_task_manager) f)"
  by (rule safe_section_ok) (use assms in \<open>auto simp: copy_task_manager_def intro!: exI [of _ g]\<close>)

lemma answers_write:
  assumes "p \<in> known g" and "answers R up store cs good g (h ())"
  shows "answers R up store cs good g (bind_prog (atomic (write_role p f)) h)"
proof (rule safe_section_ok)
  fix gs i S
  assume a: "stock_ok up store cs gs S" "i < length gs" "gs ! i = g"
  let ?S = "S\<lparr>role_heap := (role_heap S)[p := f (role_heap S ! p)]\<rparr>"
  have "stock_ok up store cs (gs[i := g]) ?S"
    using a by (intro stock_ok_update [OF a(1,2)]) (auto simp: stock_ok_def live_def)
  moreover have "write_role p f S = (Inr (), ?S)"
    using stock_ok_known [OF a(1,2), of p] a(3) assms(1) by (simp add: write_role_def live_def)
  ultimately show "\<exists>x S' g'. write_role p f S = (Inr x, S') \<and> stock_ok up store cs (gs[i := g']) S' \<and> answers R up store cs good g' (h x)"
    using assms(2) by auto
qed

lemma answers_make:
  assumes "\<And>p. answers R up store cs good (g\<lparr>known := insert p (known g)\<rparr>) (f p)"
  shows "answers R up store cs good g (bind_prog (atomic (make_shared x)) f)"
proof (rule safe_section_ok)
  fix gs i S
  assume a: "stock_ok up store cs gs S" "i < length gs" "gs ! i = g"
  let ?p = "length (role_heap S)"
  have "stock_ok up store cs (gs[i := g\<lparr>known := insert ?p (known g)\<rparr>]) (S\<lparr>role_heap := role_heap S @ [x]\<rparr>)"
    using a stock_ok_known [OF a(1,2)]
    by (intro stock_ok_update [OF a(1,2)]) (auto simp: stock_ok_def live_def less_Suc_eq)
  with assms show "\<exists>y S' g'. make_shared x S = (Inr y, S') \<and> stock_ok up store cs (gs[i := g']) S' \<and> answers R up store cs good g' (f y)"
    by (auto simp: make_shared_def)
qed

lemma answers_add:
  fixes a :: 'addr
  assumes "p \<in> known g" and "\<And>b. answers R up store cs good g (f b)"
  shows "answers R up store cs good g (bind_prog (atomic (\<lambda>S. map_prod Inr id (AddRole a p S))) f)"
proof (rule safe_section_ok)
  fix gs i and S :: "('addr, 'c) server"
  assume ok: "stock_ok up store cs gs S" "i < length gs" "gs ! i = g"
  have "stock_ok up store cs (gs[i := g]) (snd (AddRole a p S))"
    using ok assms(1) stock_ok_known [OF ok(1,2)]
    by (intro stock_ok_update [OF ok(1,2)])
      (auto simp: stock_ok_def live_def AddRole_def db_connected_def db_def split: option.splits if_splits)
  with assms(2) show "\<exists>y S' g'. map_prod Inr id (AddRole a p S) = (Inr y, S') \<and> stock_ok up store cs (gs[i := g']) S' \<and>
      answers R up store cs good g' (f y)"
    by (cases "AddRole a p S") auto
qed

lemma answers_GetRole:
  fixes a :: 'addr
  assumes "answers R up store cs good g (f None)" and "\<And>p. answers R up store cs good (g\<lparr>known := insert p (known g)\<rparr>) (f (Some p))"
  shows "answers R up store cs good g (bind_prog (atomic (\<lambda>S. (Inr (GetRole a S), S))) f)"
proof (rule safe_section_ok)
  fix gs i and S :: "('addr, 'c) server"
  assume ok: "stock_ok up store cs gs S" "i < length gs" "gs ! i = g"
  have "stock_ok up store cs (gs[i := g\<lparr>known := insert p (known g)\<rparr>]) S" if "roles S a = Some p" for p
    using ok that stock_ok_known [OF ok(1,2)]
    by (intro stock_ok_update [OF ok(1,2)]) (auto simp: stock_ok_def)
  moreover have "stock_ok up store cs (gs[i := g]) S" using ok by auto
  ultimately show "\<exists>y S' g'. (Inr (GetRole a S), S) = (Inr y, S') \<and> stock_ok up store cs (gs[i := g']) S' \<and>
      answers R up store cs good g' (f y)"
    using assms by (cases "roles S a") (auto simp: GetRole_def)
qed

lemmas answers_sections = answers_read answers_copy answers_write answers_make answers_add answers_GetRole
  answers_get [of "''__role_''", simplified] answers_get [of "''__password_''", simplified] answers_get [of "''__taskinfo_''", simplified]
  answers_set_s [of "''__password_''", simplified] answers_set_b [of "''__role_''", simplified] answers_set_b [of "''__taskinfo_''", simplified]

section \<open>Every request is answered\<close>

lemma answers_pull:
  assumes "answers R up store cs good g (f None)" and "\<And>p. answers R up store cs good (g\<lparr>known := insert p (known g)\<rparr>) (f (Some p))"
  shows "answers R up store cs good g (bind_prog (pull_role_prog P u) f)"
proof -
  have "answers R up store cs good g (case ParseFromArray P TRoleInfo s of (ok, m) \<Rightarrow>
      if \<not> ok then f None else (case as_RoleInfo m of None \<Rightarrow> Abort BadCast
        | Some r \<Rightarrow> bind_prog (atomic (make_shared r)) (\<lambda>p. f (Some p))))" for s
    using parse_RoleInfo [of s] assms
    by (cases "ParseFromArray P TRoleInfo s") (auto simp: as_RoleInfo_def intro!: answers_make)
  then show ?thesis
    unfolding pull_role_prog_def prog_norm using assms(1) by (auto intro!: answers_sections)
qed

lemma answers_push:
  "(\<And>b. answers R up store cs good g (f b)) \<Longrightarrow> answers R up store cs good g (bind_prog (push_role_prog P r) f)"
  unfolding push_role_prog_def prog_norm by (auto intro!: answers_sections)

lemma answers_pull_task:
  assumes "\<And>x. answers R up store cs good g (f x)"
  shows "answers R up store cs good g (bind_prog (pull_task_prog P gid T) f)"
proof -
  have "answers R up store cs good g (case as_DBTaskInfo (snd (ParseFromArray P TDBTaskInfo s)) of
      None \<Rightarrow> Abort BadCast
    | Some task_info \<Rightarrow> if task_infos T gid \<noteq> None then f (False, T) else f (True, T\<lparr>task_infos := (task_infos T)(gid \<mapsto> task_info)\<rparr>))" for s
    using parse_DBTaskInfo [of s] assms by (auto simp: as_DBTaskInfo_def)
  then show ?thesis
    unfolding pull_task_prog_def prog_norm using assms by (auto intro!: answers_sections)
qed

lemma answers_push_task:
  "(\<And>x. answers R up store cs good g (f x)) \<Longrightarrow> answers R up store cs good g (bind_prog (push_task_prog P gid T) f)"
  unfolding push_task_prog_def prog_norm by (auto intro!: answers_sections split: option.splits)

lemmas answers_managers = answers_sections answers_pull answers_push answers_pull_task answers_push_task

lemma answers_lift:
  "(\<And>e. i32_of_double d = Inl e \<Longrightarrow> good (asked g) (Inl bad_position)) \<Longrightarrow> (\<And>x. answers R up store cs good g (f x)) \<Longrightarrow>
   answers R up store cs good g (bind_prog (lift_prog (i32_of_double d)) f)"
  by (cases "i32_of_double d") (auto simp: bind_lift dest: i32_of_double_error)

lemma answers_login:
  "(\<And>g' x. asked g' = asked g \<Longrightarrow> tickets g' = tickets g \<Longrightarrow> answers R up store cs good g' (f x)) \<Longrightarrow> answers R up store cs good g (bind_prog (login_prog P req) f)"
  unfolding login_prog_def prog_norm prod.case
  by (auto intro!: answers_managers split: option.splits)

lemma answers_register:
  assumes "tickets g = Suc t" and "\<And>g' x. asked g' = asked g \<Longrightarrow> t \<le> tickets g' \<Longrightarrow> answers R up store cs good g' (f x)"
  shows "answers R up store cs good g (bind_prog (register_prog P req) f)"
  unfolding register_progs prog_norm using assms by (auto intro!: answers_sections answers_incr [OF assms(1)])

lemma answers_query:
  "p \<in> known g \<Longrightarrow> (\<And>x. answers R up store cs good g (f x)) \<Longrightarrow> answers R up store cs good g (bind_prog (query_prog P T p req) f)"
  unfolding query_prog_def prog_norm by (auto intro!: answers_managers split: prod.splits)

lemma answers_update:
  "(\<not> in_range req \<Longrightarrow> good (asked g) (Inl bad_position)) \<Longrightarrow> p \<in> known g \<Longrightarrow> (\<And>x. answers R up store cs good g (f x)) \<Longrightarrow>
   answers R up store cs good g (bind_prog (update_prog P T p req) f)"
  unfolding update_prog_def update_player_def prog_norm
  by (auto intro!: answers_managers answers_lift simp: in_range_def split: prod.splits)

lemma answers_erase:
  "p \<in> known g \<Longrightarrow> (\<And>x. answers R up store cs good g (f x)) \<Longrightarrow> answers R up store cs good g (bind_prog (erase_prog P p req) f)"
  unfolding erase_prog_def prog_norm by (auto intro!: answers_managers)

text \<open>The answer carries the id of the command and has its registered type.\<close>

lemma answers_request:
  assumes m: "register_services R P = Inr m" "registered_msg m (c, msg)"
    and g: "\<And>q. (c, msg) = (CMD_UPDATE_TASK, MTaskUpdateReq q) \<Longrightarrow> \<not> in_range q \<Longrightarrow> good (asked g) (Inl bad_position)" "tickets g = Suc t"
    and f: "\<And>g' x. asked g' = asked g \<Longrightarrow> t \<le> tickets g' \<Longrightarrow> typed_answer m (c, msg) x \<Longrightarrow> answers R up store cs good g' (f x)"
  shows "answers R up store cs good g (bind_prog (request_prog P a (c, msg)) f)"
proof -
  have types: "typed_answer m (CMD_LOGIN, q) (CMD_LOGIN, MLoginRsp r1)"
      "typed_answer m (CMD_REGISTER, q) (CMD_REGISTER, MRegisterRsp r2)"
      "typed_answer m (CMD_QUERY_TASK, q) (CMD_QUERY_TASK, MTaskQueryRsp r3)"
      "typed_answer m (CMD_UPDATE_TASK, q) (CMD_UPDATE_TASK, MTaskUpdateRsp r4)"
      "typed_answer m (CMD_ERASE_ROLE, q) (CMD_ERASE_ROLE, MEraseRoleRsp r5)" for q r1 r2 r3 r4 r5
    using m(1) by (auto simp: typed_answer_def register_services_eq cmd_ids)
  from m(2) obtain d where "reflection_data (snd m) c = Some d" "type_of msg = request_proto d" by (auto simp: registered_msg_def)
  from registered_request [OF m(1) this] show ?thesis
  proof cases
    case (1 q)
    then show ?thesis
      unfolding request_prog_def pull_and_add_prog_def
      using f types(1) g(2)
      by (auto simp: prog_norm as_LoginReq_def intro!: answers_managers answers_login split: option.splits)
  next
    case (2 q)
    then show ?thesis
      unfolding request_prog_def
      using f types(2) by (auto simp: prog_norm as_RegisterReq_def cmd_ids intro!: answers_register [OF g(2)])
  next
    case (3 q)
    then show ?thesis
      unfolding request_prog_def service_prog_def decorated_def
      using f types(3) g(2)
      by (auto simp: prog_norm as_TaskQueryReq_def cmd_ids intro!: answers_managers answers_query split: option.splits)
  next
    case (4 q)
    then show ?thesis
      unfolding request_prog_def service_prog_def decorated_def
      using f types(4) g
      by (auto simp: prog_norm as_TaskUpdateReq_def cmd_ids intro!: answers_managers answers_update split: option.splits)
  next
    case (5 q)
    then show ?thesis
      unfolding request_prog_def service_prog_def decorated_def
      using f types(5) g(2)
      by (auto simp: prog_norm as_EraseRoleReq_def cmd_ids intro!: answers_managers answers_erase split: option.splits)
  qed
qed

lemma answers_serving:
  assumes F: "folly_io F" and m: "register_services R P = Inr m" "list_all (registered_msg m) msgs"
    and g: "set msgs \<subseteq> set (asked g)" "length msgs \<le> tickets g"
    and f: "\<And>g' frames. asked g' = asked g \<Longrightarrow> list_all2 (sent_answer P m) msgs frames \<Longrightarrow>
      answers R up store cs (serving_ends F P m) g' (f frames)"
  shows "answers R up store cs (serving_ends F P m) g (bind_prog (serving_prog F P a msgs) f)"
  using m(2) g f
proof (induction msgs arbitrary: g f)
  case (Cons x msgs)
  obtain c msg where x: "x = (c, msg)" by (cases x)
  obtain t where t: "tickets g = Suc t" using Cons.prems(3) by (cases "tickets g") auto
  have "answers R up store cs (serving_ends F P m) g' (bind_prog (lift_prog (outbound F P rsp))
      (\<lambda>frame. bind_prog (serving_prog F P a msgs) (\<lambda>frames. f (frame # frames))))"
    if "asked g' = asked g" "t \<le> tickets g'" "typed_answer m (c, msg) rsp" for g' rsp
  proof (cases "outbound F P rsp")
    case (Inl e)
    have "x \<in> set (asked g')" "typed_answer m x rsp" using that(1,3) Cons.prems(2) x by auto
    with folly_io.outbound_error [OF F Inl] Inl have "serving_ends F P m (asked g') (Inl e)"
      unfolding serving_ends_def sum.case by blast
    then show ?thesis by (simp add: bind_lift Inl)
  next
    case (Inr frame)
    have "fst rsp = c" using that(3) by (simp add: typed_answer_def)
    then have "sent_answer P m x frame"
      unfolding sent_answer_def using folly_io.outbound_frame [OF F Inr] that(3) x by (intro exI [of _ rsp]) simp
    then have "answers R up store cs (serving_ends F P m) g' (bind_prog (serving_prog F P a msgs) (\<lambda>frames. f (frame # frames)))"
      using Cons.prems t that by (intro Cons.IH) auto
    then show ?thesis by (simp add: bind_lift Inr)
  qed
  moreover have "serving_ends F P m (asked g) (Inl bad_position)" if "(CMD_UPDATE_TASK, MTaskUpdateReq q) \<in> set (asked g)" "\<not> in_range q" for q
    using that unfolding serving_ends_def by auto
  ultimately have "answers R up store cs (serving_ends F P m) g (bind_prog (request_prog P a (c, msg))
      (\<lambda>rsp. bind_prog (lift_prog (outbound F P rsp)) (\<lambda>frame. bind_prog (serving_prog F P a msgs) (\<lambda>frames. f (frame # frames)))))"
    using Cons.prems(1,2) x by (intro answers_request [OF m(1) _ _ t]) auto
  then show ?case by (simp add: bind_prog_assoc answer_prog_def x)
qed simp

lemma pool_answers:
  fixes S :: "('addr, 'c) server" and m :: "(role_ptr, ('addr, 'c) server, 'f) managers"
  assumes F: "folly_io F" and S: "db_connected up S" "counts (db store S ''gid'') n" "0 \<le> n"
      "n + int (sum_list (map (length \<circ> snd) conns)) < 2 ^ 63" "roles_ok S"
    and m: "register_services R P = Inr m" and typed: "list_all (list_all (registered_msg m) \<circ> snd) conns"
    and run: "interleaves R (S, map (\<lambda>(a, msgs). serving_prog F P a msgs) conns) (S', ts)"
  shows "(\<exists>Y. thread_step R (S', ts) Y) \<or> list_all2 (\<lambda>(a, msgs). thread_ends (serving_ends F P m msgs)) conns ts"
proof -
  let ?gs = "map (\<lambda>(a, msgs). \<lparr>asked = msgs, known = {}, tickets = length msgs\<rparr>) conns"
  let ?good = "serving_ends F P m" and ?cs = "map snd conns"
  have "map tickets ?gs = map (length \<circ> snd) conns" by (simp add: comp_def case_prod_beta)
  then have ok: "stock_ok up store ?cs ?gs S"
    using S by (auto simp: stock_ok_def roles_ok_def live_def comp_def case_prod_beta)
  have one: "answers R up store ?cs ?good \<lparr>asked = msgs, known = {}, tickets = length msgs\<rparr>
      (serving_prog F P a msgs :: ('addr, 'c, iobuf list) thread)" if "list_all (registered_msg m) msgs" for a :: 'addr and msgs
    using answers_serving [OF F m that, where g = "\<lparr>asked = msgs, known = {}, tickets = length msgs\<rparr>" and f = Done]
    by (simp add: serving_ends_def)
  have "list_all2 (answers R up store ?cs ?good) ?gs
      (map (\<lambda>(a, msgs). serving_prog F P a msgs) conns :: ('addr, 'c, iobuf list) thread list)"
    using typed one by (auto simp: list_all2_conv_all_nth list_all_length case_prod_beta)
  from safe_pool [of R S _ S' ts "stock_ok up store ?cs", OF run ok this] obtain gs where
    gs: "stock_ok up store ?cs gs S'" "list_all2 (answers R up store ?cs ?good) gs ts" by blast
  have asked: "map asked gs = ?cs" using gs(1) by (simp add: stock_ok_def)
  have "list_all2 (\<lambda>g. thread_ends (?good (asked g))) gs ts" if "\<nexists>Y. thread_step R (S', ts) Y"
    using gs(2) stuck_thread [OF that] by (fastforce simp: list_all2_conv_all_nth thread_ends_def)
  then have "list_all2 (\<lambda>msgs. thread_ends (?good msgs)) ?cs ts" if "\<nexists>Y. thread_step R (S', ts) Y"
    using that unfolding asked [symmetric] list_all2_map1 by blast
  then show ?thesis unfolding list_all2_map1 case_prod_beta by blast
qed

end

section \<open>Every request has at most ten sections\<close>

lemma steps_le_mono: "steps_le n p \<Longrightarrow> n \<le> n' \<Longrightarrow> steps_le n' p"
proof (induction arbitrary: n' rule: steps_le.induct)
  case (steps_le_Cmd n k format args)
  then show ?case by (cases n') (auto intro!: steps_le.intros)
next
  case (steps_le_Local n h)
  then show ?case by (cases n') (auto intro!: steps_le.intros)
qed (auto intro: steps_le.intros)

text \<open>The managers, in front of a rest.\<close>

lemma steps_le_pull:
  assumes "\<And>x. steps_le n (f x)"
  shows "steps_le (Suc (Suc n)) (bind_prog (pull_role_prog P u) f)"
proof -
  have "steps_le n' (f x)" if "n \<le> n'" for n' x
    using steps_le_mono [OF assms that] .
  then show ?thesis
    unfolding pull_role_prog_def prog_norm by (auto intro!: steps_le_rules split: prod.splits option.splits)
qed

lemma steps_le_push: "(\<And>x. steps_le n (f x)) \<Longrightarrow> steps_le (Suc n) (bind_prog (push_role_prog P r) f)"
  unfolding push_role_prog_def prog_norm by (auto intro!: steps_le_rules)

lemma steps_le_pull_task: "(\<And>x. steps_le n (f x)) \<Longrightarrow> steps_le (Suc n) (bind_prog (pull_task_prog P gid T) f)"
  unfolding pull_task_prog_def prog_norm by (auto intro!: steps_le_rules split: option.splits)

lemma steps_le_push_task:
  assumes "\<And>x. steps_le n (f x)"
  shows "steps_le (Suc n) (bind_prog (push_task_prog P gid T) f)"
  unfolding push_task_prog_def prog_norm using assms steps_le_mono [OF assms, of "Suc n"]
  by (auto intro!: steps_le_rules split: option.splits)

lemma steps_le_lift: "steps_le 0 (lift_prog r)"
  by (cases r) (auto simp: lift_prog_def intro: steps_le.intros)

lemma steps_le_bind_lift: "(\<And>x. steps_le n (f x)) \<Longrightarrow> steps_le n (bind_prog (lift_prog r) f)"
  by (auto simp: bind_lift intro: steps_le.intros split: sum.splits)

lemmas steps_le_parts = steps_le_rules steps_le_pull steps_le_push steps_le_pull_task steps_le_push_task steps_le_bind_lift

lemma steps_le_request: "steps_le 10 (request_prog P a msg)"
proof -
  have login: "steps_le (Suc (Suc (Suc (Suc (Suc (Suc (Suc n))))))) (bind_prog (login_prog P q) (\<lambda>x. Done (h x)))"
    for n q and h :: "LoginRsp \<Rightarrow> CmdMessagePair"
    unfolding login_prog_def prog_norm prod.case by (auto intro!: steps_le_parts split: option.splits)
  show ?thesis
    unfolding request_prog_def pull_and_add_prog_def service_prog_def decorated_def register_progs query_prog_def update_prog_def update_player_def
      erase_prog_def eval_nat_numeral BitM.simps
    by (auto simp: prog_norm intro!: steps_le_parts login split: option.splits prod.splits)
qed

lemma steps_le_serving: "steps_le (10 * length msgs) (serving_prog F P a msgs :: ('addr, 'c, iobuf list) thread)"
proof (induction msgs)
  case (Cons msg msgs)
  have "steps_le (10 + 0) (answer_prog F P a msg :: ('addr, 'c, iobuf) thread)"
    unfolding answer_prog_def by (rule steps_le_bind [OF steps_le_request steps_le_lift])
  moreover have "steps_le (10 * length msgs + 0) 
      (bind_prog (serving_prog F P a msgs :: ('addr, 'c, iobuf list) thread) (\<lambda>frames. Done (frame # frames)))" for frame
    by (rule steps_le_bind [OF Cons.IH]) (rule steps_le.intros)
  ultimately have "steps_le (10 + 0 + (10 * length msgs + 0)) (serving_prog F P a (msg # msgs) :: ('addr, 'c, iobuf list) thread)"
    unfolding serving_prog.simps by (rule steps_le_bind)
  then show ?case by simp
qed (auto intro: steps_le.intros)

lemma serving_bound:
  assumes "(thread_step R ^^ k) (S, map (\<lambda>(a, msgs). serving_prog F P a msgs) conns) Y"
  shows "k \<le> 10 * sum_list (map (length \<circ> snd) conns)"
proof -
  have "list_all2 steps_le (map (\<lambda>c. 10 * length (snd c)) conns) (map (\<lambda>(a, msgs). serving_prog F P a msgs) conns)"
    by (auto simp: list_all2_conv_all_nth case_prod_beta steps_le_serving)
  from steps_le_pool [OF _ assms, of "map (\<lambda>c. 10 * length (snd c)) conns"] this show ?thesis
    by (simp add: sum_list_const_mult comp_def)
qed

section \<open>Property\<close>

text \<open>
  C15: every request is answered on the wire. Take any number of connections, each with any
  sequence of parsed messages of registered commands, whose sections interleave in any way,
  every response going out through the outbound handlers of the pipeline. No schedule takes
  more than ten steps per request. When none of the threads can go on, on a server whose
  database is up, whose player counter is a number the requests keep within 64 bits and whose
  role table is well formed, each connection has sent one frame per request, in their order, made of its length, the
  command id plus one and a response of the registered type (a response of four gigabytes
  aside, whose length wraps), or it has ended with an exception for one of two reasons: one of
  its requests is an update with a position no \<open>int32\<close> can hold, or the prepender refused a
  response of the registered type that does not fit a frame.
\<close>

theorem concurrent_requests_are_answered:
  fixes S :: "('addr, 'c) server" and m :: "(role_ptr, ('addr, 'c) server, 'f) managers"
  assumes "server_env R up store P wire_ok" and "folly_io F" and "db_connected up S" and "counts (db store S ''gid'') n" and "0 \<le> n"
    and "n + int (sum_list (map (length \<circ> snd) conns)) < 2 ^ 63" and "roles_ok S" and "register_services R P = Inr m"
    and "list_all (list_all (registered_msg m) \<circ> snd) conns"
  shows "(\<forall>k Y. (thread_step R ^^ k) (S, map (\<lambda>(a, msgs). serving_prog F P a msgs) conns) Y \<longrightarrow>
      k \<le> 10 * sum_list (map (length \<circ> snd) conns)) \<and>
    (\<forall>S' ts. interleaves R (S, map (\<lambda>(a, msgs). serving_prog F P a msgs) conns) (S', ts) \<longrightarrow>
      (\<exists>Y. thread_step R (S', ts) Y) \<or> list_all2 (\<lambda>(a, msgs). thread_ends (serving_ends F P m msgs)) conns ts)"
  using serving_bound [of _ R S F P conns] server_env.pool_answers [OF assms] by blast

text \<open>Bob registers and logs in while Eve registers: under the schedule that ends, three frames are sent.\<close>

lemma small_answer:
  assumes "typed_answer m (c, msg) rsp" and "reflection_data (snd m) c = Some d" and "response_proto d \<in> {TLoginRsp, TRegisterRsp}"
  shows "reply_fits protobuf_ref (snd rsp)"
  using assms by (cases "snd rsp") (auto simp: typed_answer_def)

lemma small_frame:
  assumes "sent_answer protobuf_ref m (c, msg) frame" and "reflection_data (snd m) c = Some d" and "response_proto d \<in> {TLoginRsp, TRegisterRsp}"
  shows "\<exists>rsp. type_of rsp = response_proto d \<and> concat frame = reply_bytes protobuf_ref c rsp"
proof -
  obtain rsp where rsp: "typed_answer m (c, msg) rsp"
      "concat frame = reply_bytes protobuf_ref c (snd rsp) \<or> 2 ^ 32 \<le> length (SerializeToString protobuf_ref (snd rsp)) + 2"
    using assms(1) unfolding sent_answer_def by auto
  with small_answer [OF rsp(1) assms(2,3)] assms(2) show ?thesis
    by (auto simp: reply_fits_def typed_answer_def)
qed

theorem concurrent_requests_are_answered_witness:
  "\<exists>S' f1 f2 f3 r1 r2 r3. interleaves redis_ref (server0,
       [serving_prog folly_ref protobuf_ref 1 [(CMD_REGISTER, MRegisterReq register_bob), (CMD_LOGIN, MLoginReq login_bob)],
        serving_prog folly_ref protobuf_ref 2 [(CMD_REGISTER, MRegisterReq register_eve)]])
      (S', [Done [f1, f2], Done [f3]]) \<and>
     type_of r1 = TRegisterRsp \<and> concat f1 = reply_bytes protobuf_ref CMD_REGISTER r1 \<and>
     type_of r2 = TLoginRsp \<and> concat f2 = reply_bytes protobuf_ref CMD_LOGIN r2 \<and>
     type_of r3 = TRegisterRsp \<and> concat f3 = reply_bytes protobuf_ref CMD_REGISTER r3"
proof -
  let ?bob = "[(CMD_REGISTER, MRegisterReq register_bob), (CMD_LOGIN, MLoginReq login_bob)]" and ?eve = "[(CMD_REGISTER, MRegisterReq register_eve)]"
  let ?conns = "[(1 :: nat, ?bob), (2, ?eve)]"
  obtain S' ts where run: "interleaves redis_ref (server0, map (\<lambda>(a, msgs). serving_prog folly_ref protobuf_ref a msgs) ?conns) (S', ts)"
      "\<nexists>Z. thread_step redis_ref (S', ts) Z"
    using pool_ends [of redis_ref] by (metis surj_pair)
  obtain m :: "(role_ptr, (nat, string \<Rightarrow> string option) server, nat) managers" where m: "register_services redis_ref protobuf_ref = Inr m"
    by (rule that [OF register_services_eq])
  then have types: "reflection_data (snd m) CMD_REGISTER = Some \<lparr>request_proto = TRegisterReq, response_proto = TRegisterRsp\<rparr>"
      "reflection_data (snd m) CMD_LOGIN = Some \<lparr>request_proto = TLoginReq, response_proto = TLoginRsp\<rparr>"
    by (auto simp: register_services_eq cmd_ids)
  have start: "counts (db (\<lambda>m. m) server0 ''gid'') 0" "roles_ok server0" "0 + int (sum_list (map (length \<circ> snd) ?conns)) < 2 ^ 63"
      "list_all (list_all (registered_msg m) \<circ> snd) ?conns"
    using types by (simp_all add: counts_def db_def server0_def roles_ok_def registered_msg_def)
  have "list_all2 (\<lambda>(a, msgs). thread_ends (serving_ends folly_ref protobuf_ref m msgs)) ?conns ts"
    using run(2) conjunct2 [OF concurrent_requests_are_answered [OF env_ref_laws folly_ref_laws(1) server0_connected start(1) order_refl start(3,2) m start(4)],
      rule_format, OF run(1)] by simp
  then obtain t1 t2 where ts: "ts = [t1, t2]" "thread_ends (serving_ends folly_ref protobuf_ref m ?bob) t1"
      "thread_ends (serving_ends folly_ref protobuf_ref m ?eve) t2"
    by (auto simp: list_all2_Cons1)
  have no_error: "\<not> serving_ends folly_ref protobuf_ref m msgs (Inl e)" if "msgs = ?bob \<or> msgs = ?eve" for msgs e
    using that small_answer [OF _ types(1)] small_answer [OF _ types(2)] by (auto simp: serving_ends_def)
  have frames: "\<exists>rsp. type_of rsp = TRegisterRsp \<and> concat f = reply_bytes protobuf_ref CMD_REGISTER rsp"
    if "sent_answer protobuf_ref m (CMD_REGISTER, q) f" for q f
    using small_frame [OF that types(1)] by simp
  from ts(2) no_error [of ?bob] obtain f1 f2 where 1: "t1 = Done [f1, f2]"
      "sent_answer protobuf_ref m (CMD_REGISTER, MRegisterReq register_bob) f1" "sent_answer protobuf_ref m (CMD_LOGIN, MLoginReq login_bob) f2"
    by (auto simp: thread_ends_def serving_ends_def list_all2_Cons1)
  from ts(3) no_error [of ?eve] obtain f3 where 2: "t2 = Done [f3]" "sent_answer protobuf_ref m (CMD_REGISTER, MRegisterReq register_eve) f3"
    by (auto simp: thread_ends_def serving_ends_def list_all2_Cons1)
  obtain r1 r2 r3 where "type_of r1 = TRegisterRsp" "concat f1 = reply_bytes protobuf_ref CMD_REGISTER r1"
      "type_of r2 = TLoginRsp" "concat f2 = reply_bytes protobuf_ref CMD_LOGIN r2"
      "type_of r3 = TRegisterRsp" "concat f3 = reply_bytes protobuf_ref CMD_REGISTER r3"
    using frames [OF 1(2)] frames [OF 2(2)] small_frame [OF 1(3) types(2)] by auto
  with run(1) ts(1) 1(1) 2(1) show ?thesis
    by (intro exI [of _ S'] exI [of _ f1] exI [of _ f2] exI [of _ f3] exI [of _ r1] exI [of _ r2] exI [of _ r3]) simp
qed

end
