(* ===== verification/Concurrent_Ids.thy ===== *)
theory Concurrent_Ids
  imports Concurrent_Answers
begin

text \<open>
  Player ids under concurrency: logins and registrations of any accounts, interleaved section
  by section. The counter gives every id once, and a login writes a role back that it read
  before; so no new collision of ids arises, although registrations of the same name can
  overwrite each other and a login can undo the registration of its own account.
\<close>

section \<open>Claims\<close>

text \<open>
  The ghost of a thread: the player ids it may store a role with, each for one account, the
  role objects only it uses, with their contents, and the ids it may still take.
\<close>

record claim =
  numbers :: "(i32 \<times> string) set"
  objects :: "role_ptr \<Rightarrow> RoleInfo option"
  turns :: nat

definition id_name :: "RoleInfo \<Rightarrow> i32 \<times> string" where
  "id_name r = (player_id (basic_info r), c_str (username (basic_info r)))"

definition mine :: "claim \<Rightarrow> (i32 \<times> string) set" where
  "mine g = numbers g \<union> id_name ` ran (objects g)"

definition claims ::
  "('c \<Rightarrow> string \<Rightarrow> string option) \<Rightarrow> protobuf \<Rightarrow> claim list \<Rightarrow> ('addr, 'c) server \<Rightarrow> (i32 \<times> string) set" where
  "claims store P gs S = {(player_id (basic_info r), k) | k r. role_view store P S k = Some r} \<union> (\<Union>g\<in>set gs. mine g)"

text \<open>The claims on ids outside a set of reserved ones.\<close>

definition tracked :: "i32 set \<Rightarrow> (i32 \<times> string) set \<Rightarrow> (i32 \<times> string) set" where
  "tracked X C = {x \<in> C. fst x \<notin> X}"

lemma tracked_mono: "C \<subseteq> C' \<Longrightarrow> tracked X C \<subseteq> tracked X C'"
  by (auto simp: tracked_def)

text \<open>
  An id that is not reserved is claimed for one account only, and none above the counter is
  claimed.
\<close>

definition claims_ok ::
  "i32 set \<Rightarrow> ('c \<Rightarrow> bool) \<Rightarrow> ('c \<Rightarrow> string \<Rightarrow> string option) \<Rightarrow> protobuf \<Rightarrow> (Message \<Rightarrow> bool) \<Rightarrow> claim list \<Rightarrow> ('addr, 'c) server \<Rightarrow> bool" where
  "claims_ok X up store P wire_ok gs S \<longleftrightarrow> db_connected up S \<and>
     (\<exists>n. 0 \<le> n \<and> counts (db store S ''gid'') n \<and> n + int (sum_list (map turns gs)) < 2 ^ 31 \<and>
        (\<forall>x\<in>tracked X (claims store P gs S). 0 < sint (fst x) \<and> sint (fst x) \<le> n)) \<and>
     single_valued (tracked X (claims store P gs S)) \<and>
     (\<forall>k r. role_view store P S k = Some r \<longrightarrow> name_ok wire_ok (username (basic_info r)) \<and> c_str (username (basic_info r)) = k) \<and>
     (\<forall>j<length gs. (\<forall>p r. objects (gs ! j) p = Some r \<longrightarrow>
          p < length (role_heap S) \<and> role_heap S ! p = r \<and> name_ok wire_ok (username (basic_info r))) \<and>
        (\<forall>l<length gs. j \<noteq> l \<longrightarrow> dom (objects (gs ! j)) \<inter> dom (objects (gs ! l)) = {}))"

abbreviation claiming ::
  "i32 set \<Rightarrow> 'c hiredis \<Rightarrow> ('c \<Rightarrow> bool) \<Rightarrow> ('c \<Rightarrow> string \<Rightarrow> string option) \<Rightarrow> protobuf \<Rightarrow> (Message \<Rightarrow> bool) \<Rightarrow> claim \<Rightarrow> ('addr, 'c, 'a) thread \<Rightarrow> bool" where
  "claiming X R up store P wire_ok \<equiv> safe R (claims_ok X up store P wire_ok) (\<lambda>_ _. True)"

lemma claims_okD:
  assumes "claims_ok X up store P wire_ok gs S"
  shows "db_connected up S" and "single_valued (tracked X (claims store P gs S))"
    and "\<exists>n. 0 \<le> n \<and> counts (db store S ''gid'') n \<and> n + int (sum_list (map turns gs)) < 2 ^ 31 \<and>
        (\<forall>x\<in>tracked X (claims store P gs S). 0 < sint (fst x) \<and> sint (fst x) \<le> n)"
    and "role_view store P S k = Some r \<Longrightarrow> name_ok wire_ok (username (basic_info r)) \<and> c_str (username (basic_info r)) = k"
    and "j < length gs \<Longrightarrow> objects (gs ! j) p = Some r \<Longrightarrow>
      p < length (role_heap S) \<and> role_heap S ! p = r \<and> name_ok wire_ok (username (basic_info r))"
    and "j < length gs \<Longrightarrow> l < length gs \<Longrightarrow> j \<noteq> l \<Longrightarrow> dom (objects (gs ! j)) \<inter> dom (objects (gs ! l)) = {}"
  using assms by (simp_all add: claims_ok_def)

text \<open>A section after which there are no more claims than before.\<close>

lemma claims_ok_update:
  assumes ok: "claims_ok X up store P wire_ok gs S" and i: "i < length gs" and "db_connected up S'"
    and gid: "db store S' ''gid'' = db store S ''gid''" "turns g = turns (gs ! i)"
    and claims: "claims store P (gs[i := g]) S' \<subseteq> claims store P gs S"
    and names: "\<And>k r. role_view store P S' k = Some r \<Longrightarrow> name_ok wire_ok (username (basic_info r)) \<and> c_str (username (basic_info r)) = k"
    and heap: "length (role_heap S) \<le> length (role_heap S')"
      "\<And>p. p < length (role_heap S) \<Longrightarrow> p \<notin> dom (objects (gs ! i)) \<Longrightarrow> role_heap S' ! p = role_heap S ! p"
    and objects: "\<And>p r. objects g p = Some r \<Longrightarrow>
        p < length (role_heap S') \<and> role_heap S' ! p = r \<and> name_ok wire_ok (username (basic_info r))"
      "\<And>p. p \<in> dom (objects g) \<Longrightarrow> p \<in> dom (objects (gs ! i)) \<or> length (role_heap S) \<le> p"
  shows "claims_ok X up store P wire_ok (gs[i := g]) S'"
proof -
  note obj = claims_okD(5) [OF ok] and apart = claims_okD(6) [OF ok]
  have new: "dom (objects g) \<inter> dom (objects (gs ! j)) = {}" if "j < length gs" "j \<noteq> i" for j
  proof -
    have "p < length (role_heap S)" if "p \<in> dom (objects (gs ! j))" for p
      using that obj [OF \<open>j < length gs\<close>] by blast
    then show ?thesis using apart [OF i that(1)] that(2) objects(2) by fastforce
  qed
  have turns: "sum_list (map turns (gs[i := g])) = sum_list (map turns gs)"
    using i gid(2) by (metis list_update_id map_update)
  have "(\<forall>p r. objects (gs[i := g] ! j) p = Some r \<longrightarrow>
          p < length (role_heap S') \<and> role_heap S' ! p = r \<and> name_ok wire_ok (username (basic_info r))) \<and>
        (\<forall>l<length (gs[i := g]). j \<noteq> l \<longrightarrow> dom (objects (gs[i := g] ! j)) \<inter> dom (objects (gs[i := g] ! l)) = {})"
    if j: "j < length (gs[i := g])" for j
  proof (cases "j = i")
    case True
    then show ?thesis using objects(1) new i by auto
  next
    case False
    have "p < length (role_heap S') \<and> role_heap S' ! p = r \<and> name_ok wire_ok (username (basic_info r))"
      if "objects (gs ! j) p = Some r" for p r
    proof -
      have "j < length gs" using j by simp
      then have "p < length (role_heap S)" "role_heap S ! p = r" "name_ok wire_ok (username (basic_info r))"
        using obj [of j p r] that by simp_all
      moreover have "p \<notin> dom (objects (gs ! i))" using apart [of j i] \<open>j < length gs\<close> i False that by blast
      ultimately show ?thesis using heap by simp
    qed
    moreover have "dom (objects (gs ! j)) \<inter> dom (objects (gs[i := g] ! l)) = {}" if "l < length gs" "j \<noteq> l" for l
      using new [of j] apart [of j l] j that False by (cases "l = i") auto
    ultimately show ?thesis using False by simp
  qed
  then have objs: "\<forall>j<length (gs[i := g]). (\<forall>p r. objects (gs[i := g] ! j) p = Some r \<longrightarrow>
          p < length (role_heap S') \<and> role_heap S' ! p = r \<and> name_ok wire_ok (username (basic_info r))) \<and>
        (\<forall>l<length (gs[i := g]). j \<noteq> l \<longrightarrow> dom (objects (gs[i := g] ! j)) \<inter> dom (objects (gs[i := g] ! l)) = {})"
    by blast
  obtain n where n: "0 \<le> n" "counts (db store S ''gid'') n" "n + int (sum_list (map turns gs)) < 2 ^ 31"
      "\<And>x. x \<in> tracked X (claims store P gs S) \<Longrightarrow> 0 < sint (fst x) \<and> sint (fst x) \<le> n"
    using claims_okD(3) [OF ok] by blast
  have bound: "\<forall>x\<in>tracked X (claims store P (gs[i := g]) S'). 0 < sint (fst x) \<and> sint (fst x) \<le> n"
    using n(4) tracked_mono [OF claims] by blast
  from single_valued_subset [OF tracked_mono [OF claims] claims_okD(2) [OF ok]]
  have sv: "single_valued (tracked X (claims store P (gs[i := g]) S'))" .
  show ?thesis
    unfolding claims_ok_def turns gid(1)
    using assms(3) n(1-3) bound sv names objs by (intro conjI exI [of _ n] allI impI) blast+
qed

text \<open>
  The player ids in a database that its counter did not hand out, or that two accounts have.
\<close>

definition stray_ids :: "accounts \<Rightarrow> i32 set" where
  "stray_ids A = {player_id (basic_info r) | k r. acc_role A k = Some r \<and>
     (sint (player_id (basic_info r)) \<le> 0 \<or> acc_gid A < sint (player_id (basic_info r)) \<or>
      (\<exists>k' r'. k' \<noteq> k \<and> acc_role A k' = Some r' \<and> player_id (basic_info r') = player_id (basic_info r)))}"

text \<open>A login or a registration whose name the wire format carries.\<close>

definition account_request :: "(Message \<Rightarrow> bool) \<Rightarrow> CmdMessagePair \<Rightarrow> bool" where
  "account_request wire_ok msg \<longleftrightarrow> (\<exists>q. msg = (CMD_LOGIN, MLoginReq q)) \<or>
     (\<exists>q. msg = (CMD_REGISTER, MRegisterReq q) \<and> name_ok wire_ok (rq_account q))"

section \<open>The sections of a login and a registration\<close>

lemma claims_subset:
  assumes "\<And>k r. role_view store P S' k = Some r \<Longrightarrow> (player_id (basic_info r), k) \<in> C" and "mine g \<subseteq> C"
    and "claims store P gs S \<subseteq> C"
  shows "claims store P (gs[i := g]) S' \<subseteq> C"
proof -
  have "mine h \<subseteq> C" if "h \<in> set (gs[i := g])" for h
    using set_update_subset_insert [of gs i g] that assms(2,3) unfolding claims_def by blast
  then show ?thesis using assms(1) unfolding claims_def by blast
qed

lemma stored_claimed: "role_view store P S k = Some r \<Longrightarrow> (player_id (basic_info r), k) \<in> claims store P gs S"
  unfolding claims_def by blast

lemma mine_claimed: "i < length gs \<Longrightarrow> mine (gs ! i) \<subseteq> claims store P gs S"
  unfolding claims_def using nth_mem by blast

context server_env
begin

lemma claiming_quiet:
  fixes k :: "redisReply \<Rightarrow> ('addr, 'c, 'a) thread"
  assumes "\<And>S :: ('addr, 'c) server. db_connected up S \<Longrightarrow> \<exists>reply S'. redis_cmd R format args S = (Inr reply, S') \<and> db_connected up S' \<and>
      db store S' ''gid'' = db store S ''gid'' \<and> role_view store P S' = role_view store P S \<and> same_roles S S' \<and>
      claiming X R up store P wire_ok g (k reply)"
  shows "claiming X R up store P wire_ok g (Cmd format args k)"
proof (rule safe_Cmd_ok)
  fix gs i and S :: "('addr, 'c) server"
  assume a: "claims_ok X up store P wire_ok gs S" "i < length gs" "gs ! i = g"
  obtain reply S' where S': "redis_cmd R format args S = (Inr reply, S')" "db_connected up S'" "db store S' ''gid'' = db store S ''gid''"
      "role_view store P S' = role_view store P S" "same_roles S S'" "claiming X R up store P wire_ok g (k reply)"
    using assms [OF claims_okD(1) [OF a(1)]] by blast
  have "claims_ok X up store P wire_ok (gs[i := g]) S'"
  proof (rule claims_ok_update [OF a(1,2) S'(2,3)])
    show "claims store P (gs[i := g]) S' \<subseteq> claims store P gs S"
      using mine_claimed [OF a(2)] a(3) by (intro claims_subset) (auto simp: S'(4) stored_claimed)
  qed (use a S' claims_okD(4,5) [OF a(1)] in \<open>auto simp: same_roles_def\<close>)
  with S'(1,6) show "\<exists>reply S' g'. redis_cmd R format args S = (Inr reply, S') \<and> claims_ok X up store P wire_ok (gs[i := g']) S' \<and>
      claiming X R up store P wire_ok g' (k reply)" by blast
qed

lemma claiming_get_password:
  assumes "\<And>v. claiming X R up store P wire_ok g (k (reply_get v))"
  shows "claiming X R up store P wire_ok g (Cmd ''get __password_%s'' [ArgS key] k)"
proof (rule claiming_quiet)
  fix S :: "('a, 'c) server" assume "db_connected up S"
  from redis_get [OF this, of "''__password_''" key] assms
  show "\<exists>reply S'. redis_cmd R ''get __password_%s'' [ArgS key] S = (Inr reply, S') \<and> db_connected up S' \<and>
      db store S' ''gid'' = db store S ''gid'' \<and> role_view store P S' = role_view store P S \<and> same_roles S S' \<and>
      claiming X R up store P wire_ok g (k reply)"
    by (auto simp: role_view_def fun_eq_iff)
qed

lemma claiming_set_password:
  assumes "claiming X R up store P wire_ok g (k reply_status)"
  shows "claiming X R up store P wire_ok g (Cmd ''set __password_%s %s'' [ArgS key, ArgS v] k)"
proof (rule claiming_quiet)
  fix S :: "('a, 'c) server" assume "db_connected up S"
  from redis_set_s [OF this, of "''__password_''" key v] assms
  show "\<exists>reply S'. redis_cmd R ''set __password_%s %s'' [ArgS key, ArgS v] S = (Inr reply, S') \<and> db_connected up S' \<and>
      db store S' ''gid'' = db store S ''gid'' \<and> role_view store P S' = role_view store P S \<and> same_roles S S' \<and>
      claiming X R up store P wire_ok g (k reply)"
    by (auto simp: role_view_def fun_eq_iff)
qed

text \<open>The id the counter gives is above all claimed ones.\<close>

lemma claiming_incr:
  assumes "turns g = Suc t"
    and "\<And>n. claiming X R up store P wire_ok (g\<lparr>turns := t, numbers := insert (word_of_int n, name) (numbers g)\<rparr>) (k (reply_integer n))"
  shows "claiming X R up store P wire_ok g (Cmd ''incr gid'' [] k)"
proof (rule safe_Cmd_ok)
  fix gs i S
  assume a: "claims_ok X up store P wire_ok gs S" "i < length gs" "gs ! i = g"
  obtain n where n: "0 \<le> n" "counts (db store S ''gid'') n" "n + int (sum_list (map turns gs)) < 2 ^ 31"
      "\<And>x. x \<in> tracked X (claims store P gs S) \<Longrightarrow> 0 < sint (fst x) \<and> sint (fst x) \<le> n"
    using claims_okD(3) [OF a(1)] by blast
  let ?g = "g\<lparr>turns := t, numbers := insert (word_of_int (n + 1), name) (numbers g)\<rparr>"
  have turns: "sum_list (map turns (gs[i := ?g])) + 1 = sum_list (map turns gs)"
    using sum_list_map_update [OF a(2), of turns ?g] a(3) assms(1) by simp
  then have small: "n + 1 < 2 ^ 31" "n + 1 < 2 ^ 63" using n(3) by simp_all
  obtain S' where S': "redis_cmd R ''incr gid'' [] S = (Inr (reply_integer (n + 1)), S')"
      "db_connected up S'" "db store S' = (db store S)(''gid'' \<mapsto> to_string (n + 1))" "same_roles S S'"
    using redis_incr [OF claims_okD(1) [OF a(1)], of "''gid''" n] n small by auto
  have view: "role_view store P S' = role_view store P S" using S'(3) by (auto simp: role_view_def fun_eq_iff)
  have new: "sint (word_of_int (n + 1) :: i32) = n + 1" using n(1) small by (intro sint_word_of_int_i32) simp_all
  have sub: "claims store P (gs[i := ?g]) S' \<subseteq> insert (word_of_int (n + 1), name) (claims store P gs S)"
  proof (rule claims_subset [where S = S])
    have "mine ?g = insert (word_of_int (n + 1), name) (mine (gs ! i))" using a(3) by (simp add: mine_def)
    then show "mine ?g \<subseteq> insert (word_of_int (n + 1), name) (claims store P gs S)"
      using mine_claimed [OF a(2), of store P S] by blast
    show "(player_id (basic_info r), k) \<in> insert (word_of_int (n + 1), name) (claims store P gs S)"
      if "role_view store P S' k = Some r" for k r using that view stored_claimed [of store P S k r gs] by simp
  qed blast
  then have sub: "tracked X (claims store P (gs[i := ?g]) S') \<subseteq> insert (word_of_int (n + 1), name) (tracked X (claims store P gs S))"
    by (auto simp: tracked_def)
  have "(word_of_int (n + 1), y) \<notin> tracked X (claims store P gs S)" for y
    using n(4) [of "(word_of_int (n + 1), y)"] new by auto
  then have "single_valued (insert (word_of_int (n + 1), name) (tracked X (claims store P gs S)))"
    using claims_okD(2) [OF a(1)] unfolding single_valued_def by blast
  from single_valued_subset [OF sub this] have sv: "single_valued (tracked X (claims store P (gs[i := ?g]) S'))" .
  have bound: "0 < sint (fst x) \<and> sint (fst x) \<le> n + 1" if "x \<in> tracked X (claims store P (gs[i := ?g]) S')" for x
  proof -
    from sub that have "x = (word_of_int (n + 1), name) \<or> x \<in> tracked X (claims store P gs S)" by blast
    then show ?thesis using n(1) n(4) [of x] new by auto
  qed
  have obj: "objects (gs[i := ?g] ! j) = objects (gs ! j)" if "j < length gs" for j
    using that a(3) by (cases "j = i") auto
  have heap: "role_heap S' = role_heap S" using S'(4) by (simp add: same_roles_def)
  have "claims_ok X up store P wire_ok (gs[i := ?g]) S'"
    unfolding claims_ok_def
  proof (intro conjI allI impI)
    show "\<exists>n. 0 \<le> n \<and> counts (db store S' ''gid'') n \<and> n + int (sum_list (map turns (gs[i := ?g]))) < 2 ^ 31 \<and>
        (\<forall>x\<in>tracked X (claims store P (gs[i := ?g]) S'). 0 < sint (fst x) \<and> sint (fst x) \<le> n)"
      using n(1,3) turns bound S'(3) by (intro exI [of _ "n + 1"]) (auto simp: counts_def)
    show "name_ok wire_ok (username (basic_info r))" "c_str (username (basic_info r)) = k"
      if "role_view store P S' k = Some r" for k r using claims_okD(4) [OF a(1), of k r] that view by simp_all
    fix j assume "j < length (gs[i := ?g])"
    then have j: "j < length gs" by simp
    show "p < length (role_heap S')" "role_heap S' ! p = r" "name_ok wire_ok (username (basic_info r))"
      if "objects (gs[i := ?g] ! j) p = Some r" for p r
      using claims_okD(5) [OF a(1) j, of p r] that obj [OF j] heap by simp_all
    show "dom (objects (gs[i := ?g] ! j)) \<inter> dom (objects (gs[i := ?g] ! l)) = {}" if "l < length (gs[i := ?g])" "j \<noteq> l" for l
      using claims_okD(6) [OF a(1) j, of l] that obj [OF j] obj [of l] by simp
  qed (rule S'(2) sv)+
  with S'(1) assms(2) [of "n + 1"] show "\<exists>reply S' g'. redis_cmd R ''incr gid'' [] S = (Inr reply, S') \<and>
      claims_ok X up store P wire_ok (gs[i := g']) S' \<and> claiming X R up store P wire_ok g' (k reply)" by blast
qed

text \<open>A role is stored with a claimed id under its own name.\<close>

lemma claiming_set_role:
  assumes "id_name r \<in> mine g" and "name_ok wire_ok (username (basic_info r))" and "key = c_str (username (basic_info r))"
    and "claiming X R up store P wire_ok g (k reply_status)"
  shows "claiming X R up store P wire_ok g (Cmd ''set __role_%s %b'' [ArgS key, ArgB (SerializeToString P (MRoleInfo r))] k)"
proof (rule safe_Cmd_ok)
  fix gs i S
  assume a: "claims_ok X up store P wire_ok gs S" "i < length gs" "gs ! i = g"
  let ?v = "SerializeToString P (MRoleInfo r)"
  obtain S' where S': "redis_cmd R ''set __role_%s %b'' [ArgS key, ArgB ?v] S = (Inr reply_status, S')"
      "db_connected up S'" "db store S' = (db store S)(''__role_'' @ key \<mapsto> ?v)" "same_roles S S'"
    using redis_set_b [OF claims_okD(1) [OF a(1)], of "''__role_''" key ?v] by auto
  have "wire_ok (MRoleInfo r)" using assms(2) by (simp add: name_ok_def)
  from role_view_pushed [OF this S'(3)] have view: "role_view store P S' = (role_view store P S)(key \<mapsto> r)" .
  have "claims_ok X up store P wire_ok (gs[i := g]) S'"
  proof (rule claims_ok_update [OF a(1,2) S'(2)])
    show "claims store P (gs[i := g]) S' \<subseteq> claims store P gs S"
    proof (rule claims_subset)
      have "(player_id (basic_info r), key) \<in> claims store P gs S"
        using assms(1,3) mine_claimed [OF a(2), of store P S] a(3) by (auto simp: id_name_def)
      then show "(player_id (basic_info r'), k') \<in> claims store P gs S" if "role_view store P S' k' = Some r'" for k' r'
        using that view stored_claimed [of store P S k' r' gs] by (cases "k' = key") auto
    qed (use mine_claimed [OF a(2)] a(3) in auto)
    show "name_ok wire_ok (username (basic_info r')) \<and> c_str (username (basic_info r')) = k'"
      if "role_view store P S' k' = Some r'" for k' r'
      using that view assms(2,3) claims_okD(4) [OF a(1), of k' r'] by (cases "k' = key") auto
  qed (use a S' claims_okD(5) [OF a(1)] in \<open>auto simp: same_roles_def\<close>)
  with S'(1) assms(4) show "\<exists>reply S' g'. redis_cmd R ''set __role_%s %b'' [ArgS key, ArgB ?v] S = (Inr reply, S') \<and>
      claims_ok X up store P wire_ok (gs[i := g']) S' \<and> claiming X R up store P wire_ok g' (k reply)" by blast
qed

text \<open>A role that is read from the store claims its id for the account it was read from.\<close>

lemma claiming_get_role:
  assumes none: "\<And>v. (case v of None \<Rightarrow> None | Some s \<Rightarrow> (case ParseFromArray P TRoleInfo s of (ok, m) \<Rightarrow>
        if ok then as_RoleInfo m else None)) = None \<Longrightarrow> claiming X R up store P wire_ok g (k (reply_get v))"
    and some: "\<And>s r. ParseFromArray P TRoleInfo s = (True, MRoleInfo r) \<Longrightarrow> name_ok wire_ok (username (basic_info r)) \<Longrightarrow>
      claiming X R up store P wire_ok (g\<lparr>numbers := insert (id_name r) (numbers g)\<rparr>) (k (reply_get (Some s)))"
  shows "claiming X R up store P wire_ok g (Cmd ''get __role_%s'' [ArgS key] k)"
proof (rule safe_Cmd_ok)
  fix gs i S
  assume a: "claims_ok X up store P wire_ok gs S" "i < length gs" "gs ! i = g"
  let ?v = "db store S (''__role_'' @ key)"
  obtain S' where S': "redis_cmd R ''get __role_%s'' [ArgS key] S = (Inr (reply_get ?v), S')"
      "db_connected up S'" "db store S' = db store S" "same_roles S S'"
    using redis_get [OF claims_okD(1) [OF a(1)], of "''__role_''" key] by auto
  have view: "role_view store P S' = role_view store P S" using S'(3) by (auto simp: role_view_def fun_eq_iff)
  have ok: "claims_ok X up store P wire_ok (gs[i := g']) S'" if "mine g' \<subseteq> claims store P gs S" "turns g' = turns g" "objects g' = objects g" for g'
  proof (rule claims_ok_update [OF a(1,2) S'(2)])
    show "claims store P (gs[i := g']) S' \<subseteq> claims store P gs S"
      using that(1) by (rule claims_subset [rotated]) (auto simp: view stored_claimed)
  qed (use a that S' view claims_okD(4,5) [OF a(1)] in \<open>auto simp: same_roles_def\<close>)
  have "\<exists>g'. claims_ok X up store P wire_ok (gs[i := g']) S' \<and> claiming X R up store P wire_ok g' (k (reply_get ?v))"
  proof (cases "role_view store P S key")
    case None
    then show ?thesis
      using ok [of g] none [of ?v] mine_claimed [OF a(2), of store P S] a(3) by (auto simp: role_view_def)
  next
    case (Some r)
    then obtain s where s: "?v = Some s" "ParseFromArray P TRoleInfo s = (True, MRoleInfo r)"
      by (auto simp: role_view_def as_RoleInfo_def split: option.splits prod.splits if_splits Message.splits)
    have r: "name_ok wire_ok (username (basic_info r))" "c_str (username (basic_info r)) = key"
      using claims_okD(4) [OF a(1) Some] by simp_all
    let ?g = "g\<lparr>numbers := insert (id_name r) (numbers g)\<rparr>"
    have "mine ?g \<subseteq> claims store P gs S"
      using mine_claimed [OF a(2), of store P S] a(3) stored_claimed [OF Some, of gs] r(2) by (auto simp: mine_def id_name_def)
    with ok [of ?g] some [OF s(2) r(1)] s(1) show ?thesis by auto
  qed
  with S'(1) show "\<exists>reply S' g'. redis_cmd R ''get __role_%s'' [ArgS key] S = (Inr reply, S') \<and>
      claims_ok X up store P wire_ok (gs[i := g']) S' \<and> claiming X R up store P wire_ok g' (k reply)" by blast
qed

lemma claiming_make:
  assumes "id_name r \<in> numbers g" and "name_ok wire_ok (username (basic_info r))"
    and "\<And>p. claiming X R up store P wire_ok (g\<lparr>objects := (objects g)(p \<mapsto> r)\<rparr>) (f p)"
  shows "claiming X R up store P wire_ok g (bind_prog (atomic (make_shared r)) f)"
proof (rule safe_section_ok)
  fix gs i S
  assume a: "claims_ok X up store P wire_ok gs S" "i < length gs" "gs ! i = g"
  let ?p = "length (role_heap S)" and ?S = "S\<lparr>role_heap := role_heap S @ [r]\<rparr>"
  let ?g = "g\<lparr>objects := (objects g)(?p \<mapsto> r)\<rparr>"
  have view: "role_view store P ?S = role_view store P S" by (simp add: role_view_def fun_eq_iff)
  have obj: "p < ?p \<and> role_heap S ! p = r' \<and> name_ok wire_ok (username (basic_info r'))" if "objects g p = Some r'" for p r'
    using claims_okD(5) [OF a(1,2)] that a(3) by blast
  have "claims_ok X up store P wire_ok (gs[i := ?g]) ?S"
  proof (rule claims_ok_update [OF a(1,2)])
    show "claims store P (gs[i := ?g]) ?S \<subseteq> claims store P gs S"
    proof (rule claims_subset)
      have "mine ?g \<subseteq> mine (gs ! i)" using assms(1) a(3) by (auto simp: mine_def ran_def split: if_splits)
      then show "mine ?g \<subseteq> claims store P gs S" using mine_claimed [OF a(2), of store P S] by blast
    qed (auto simp: view stored_claimed)
    show "p < length (role_heap ?S) \<and> role_heap ?S ! p = r' \<and> name_ok wire_ok (username (basic_info r'))"
      if "objects ?g p = Some r'" for p r'
      using that obj [of p r'] assms(2) by (cases "p = ?p") (auto simp: nth_append)
  qed (use a view claims_okD(1,4) [OF a(1)] in \<open>auto simp: nth_append\<close>)
  with assms(3) show "\<exists>y S' g'. make_shared r S = (Inr y, S') \<and> claims_ok X up store P wire_ok (gs[i := g']) S' \<and>
      claiming X R up store P wire_ok g' (f y)" by (auto simp: make_shared_def)
qed

lemma claiming_read:
  assumes "objects g p = Some r" and "claiming X R up store P wire_ok g (f r)"
  shows "claiming X R up store P wire_ok g (bind_prog (atomic (read_role p)) f)"
proof (rule safe_section_ok)
  fix gs i S
  assume a: "claims_ok X up store P wire_ok gs S" "i < length gs" "gs ! i = g"
  have "read_role p S = (Inr r, S)" using claims_okD(5) [OF a(1,2), of p r] assms(1) a(3) by (simp add: read_role_def)
  with a assms(2) show "\<exists>y S' g'. read_role p S = (Inr y, S') \<and> claims_ok X up store P wire_ok (gs[i := g']) S' \<and>
      claiming X R up store P wire_ok g' (f y)" by (intro exI [of _ r] exI [of _ S] exI [of _ g]) auto
qed

lemma claiming_write:
  assumes "objects g p = Some r" and "id_name (h r) = id_name r" and "username (basic_info (h r)) = username (basic_info r)"
    and "claiming X R up store P wire_ok (g\<lparr>objects := (objects g)(p \<mapsto> h r)\<rparr>) (f ())"
  shows "claiming X R up store P wire_ok g (bind_prog (atomic (write_role p h)) f)"
proof (rule safe_section_ok)
  fix gs i S
  assume a: "claims_ok X up store P wire_ok gs S" "i < length gs" "gs ! i = g"
  have obj: "q < length (role_heap S) \<and> role_heap S ! q = r' \<and> name_ok wire_ok (username (basic_info r'))" if "objects g q = Some r'" for q r'
    using claims_okD(5) [OF a(1,2)] that a(3) by blast
  let ?S = "S\<lparr>role_heap := (role_heap S)[p := h r]\<rparr>" and ?g = "g\<lparr>objects := (objects g)(p \<mapsto> h r)\<rparr>"
  have view: "role_view store P ?S = role_view store P S" by (simp add: role_view_def fun_eq_iff)
  have "claims_ok X up store P wire_ok (gs[i := ?g]) ?S"
  proof (rule claims_ok_update [OF a(1,2)])
    show "claims store P (gs[i := ?g]) ?S \<subseteq> claims store P gs S"
    proof (rule claims_subset)
      have "mine ?g \<subseteq> mine (gs ! i)" using assms(1,2) a(3) by (auto simp: mine_def ran_def image_iff split: if_splits)
      then show "mine ?g \<subseteq> claims store P gs S" using mine_claimed [OF a(2), of store P S] by blast
    qed (auto simp: view stored_claimed)
    show "role_heap ?S ! q = role_heap S ! q" if "q \<notin> dom (objects (gs ! i))" for q
      using that assms(1) a(3) by (cases "q = p") auto
    show "q < length (role_heap ?S) \<and> role_heap ?S ! q = r' \<and> name_ok wire_ok (username (basic_info r'))"
      if "objects ?g q = Some r'" for q r'
      using that obj [of q r'] obj [OF assms(1)] assms(3) by (cases "q = p") auto
  qed (use a view assms(1) claims_okD(1,4) [OF a(1)] in auto)
  moreover have "write_role p h S = (Inr (), ?S)" using obj [OF assms(1)] by (simp add: write_role_def)
  ultimately show "\<exists>y S' g'. write_role p h S = (Inr y, S') \<and> claims_ok X up store P wire_ok (gs[i := g']) S' \<and>
      claiming X R up store P wire_ok g' (f y)" using assms(4) by auto
qed

lemma claiming_add:
  fixes a :: 'addr
  assumes "\<And>b. claiming X R up store P wire_ok g (f b)"
  shows "claiming X R up store P wire_ok g (bind_prog (atomic (\<lambda>S. map_prod Inr id (AddRole a p S))) f)"
proof (rule safe_section_ok)
  fix gs i and S :: "('addr, 'c) server"
  assume ok: "claims_ok X up store P wire_ok gs S" "i < length gs" "gs ! i = g"
  let ?S = "snd (AddRole a p S)"
  have S: "db store ?S = db store S" "db_connected up ?S = db_connected up S" "role_heap ?S = role_heap S"
    by (simp_all add: AddRole_def db_def db_connected_def split: option.splits)
  have view: "role_view store P ?S = role_view store P S" by (simp add: role_view_def fun_eq_iff S)
  have "claims_ok X up store P wire_ok (gs[i := g]) ?S"
  proof (rule claims_ok_update [OF ok(1,2)])
    show "claims store P (gs[i := g]) ?S \<subseteq> claims store P gs S"
      using mine_claimed [OF ok(2)] ok(3) by (intro claims_subset) (auto simp: view stored_claimed)
  qed (use ok S view claims_okD(1,4,5) [OF ok(1)] in auto)
  with assms show "\<exists>y S' g'. map_prod Inr id (AddRole a p S) = (Inr y, S') \<and> claims_ok X up store P wire_ok (gs[i := g']) S' \<and>
      claiming X R up store P wire_ok g' (f y)" by (cases "AddRole a p S") auto
qed

section \<open>Logins and registrations\<close>

lemmas claiming_sections = claiming_get_password claiming_set_password claiming_add

lemma claiming_pull:
  assumes "claiming X R up store P wire_ok g (f None)"
    and "\<And>p r. name_ok wire_ok (username (basic_info r)) \<Longrightarrow>
      claiming X R up store P wire_ok (g\<lparr>numbers := insert (id_name r) (numbers g), objects := (objects g)(p \<mapsto> r)\<rparr>) (f (Some p))"
  shows "claiming X R up store P wire_ok g (bind_prog (pull_role_prog P u) f)"
  unfolding pull_role_prog_def prog_norm
proof (rule claiming_get_role)
  fix s r
  assume s: "ParseFromArray P TRoleInfo s = (True, MRoleInfo r)" "name_ok wire_ok (username (basic_info r))"
  have "claiming X R up store P wire_ok (g\<lparr>numbers := insert (id_name r) (numbers g)\<rparr>) (bind_prog (atomic (make_shared r)) (\<lambda>p. f (Some p)))"
    by (rule claiming_make) (use assms(2) [OF s(2)] s(2) in simp_all)
  then show "claiming X R up store P wire_ok (g\<lparr>numbers := insert (id_name r) (numbers g)\<rparr>)
      (if rtype (reply_get (Some s)) \<noteq> REDIS_REPLY_STRING then f None
       else case ParseFromArray P TRoleInfo (str (reply_get (Some s))) of (ok, m) \<Rightarrow>
         if \<not> ok then f None else (case as_RoleInfo m of None \<Rightarrow> Abort BadCast
           | Some r \<Rightarrow> bind_prog (atomic (make_shared r)) (\<lambda>p. f (Some p))))"
    using s(1) by (simp add: replies as_RoleInfo_def)
qed (use assms(1) in \<open>auto simp: replies split: option.splits prod.splits\<close>)

lemma id_name_visited [simp]: "id_name (visited r) = id_name r"
  by (simp add: id_name_def)

text \<open>Marking a role as visited and writing it back.\<close>

lemma claiming_visit:
  assumes "objects g p = Some r" and "name_ok wire_ok (username (basic_info r))" and "\<And>g'. turns g' = turns g \<Longrightarrow> claiming X R up store P wire_ok g' f"
  shows "claiming X R up store P wire_ok g
    (bind_prog (atomic (write_role p visited)) (\<lambda>_. bind_prog (atomic (read_role p)) (\<lambda>r. bind_prog (push_role_prog P r) (\<lambda>_. f))))"
proof (rule claiming_write [OF assms(1)])
  show "claiming X R up store P wire_ok (g\<lparr>objects := (objects g)(p \<mapsto> visited r)\<rparr>)
      (bind_prog (atomic (read_role p)) (\<lambda>r. bind_prog (push_role_prog P r) (\<lambda>_. f)))"
  proof (rule claiming_read [of _ _ "visited r"])
    have "visited r \<in> ran ((objects g)(p \<mapsto> visited r))" by (auto simp: ran_def)
    then show "claiming X R up store P wire_ok (g\<lparr>objects := (objects g)(p \<mapsto> visited r)\<rparr>) (bind_prog (push_role_prog P (visited r)) (\<lambda>_. f))"
      unfolding push_role_prog_def prog_norm using assms(2,3)
      by (intro claiming_set_role) (auto simp: mine_def simp del: id_name_visited)
  qed simp
qed simp_all

lemma claiming_login:
  assumes "\<And>g' x. turns g' = turns g \<Longrightarrow> claiming X R up store P wire_ok g' (f x)"
  shows "claiming X R up store P wire_ok g (bind_prog (login_prog P req) f)"
proof -
  have logged: "claiming X R up store P wire_ok (g\<lparr>numbers := N, objects := (objects g)(p \<mapsto> r)\<rparr>)
      (bind_prog (atomic (read_role p)) (\<lambda>r. if \<not> is_returning_visitor (basic_info r)
         then bind_prog (atomic (write_role p visited)) (\<lambda>_. bind_prog (atomic (read_role p)) (\<lambda>r. bind_prog (push_role_prog P r) (\<lambda>_. f x)))
         else f y))" if "name_ok wire_ok (username (basic_info r))" for p r N x y
    by (rule claiming_read [of _ _ r]) (use assms that in \<open>auto intro!: claiming_visit [of _ _ r]\<close>)
  show ?thesis
    unfolding login_prog_def prog_norm prod.case visited_def [symmetric]
    using assms logged by (auto intro!: claiming_sections claiming_pull split: option.splits)
qed

lemma claiming_register:
  assumes "turns g = Suc t" and "name_ok wire_ok (rq_account req)"
    and "\<And>g' x. t \<le> turns g' \<Longrightarrow> claiming X R up store P wire_ok g' (f x)"
  shows "claiming X R up store P wire_ok g (bind_prog (register_prog P req) f)"
proof -
  have "claiming X R up store P wire_ok (g\<lparr>turns := t, numbers := insert (word_of_int n, c_str (rq_account req)) (numbers g)\<rparr>)
      (Cmd ''set __role_%s %b'' [ArgS (c_str (rq_account req)), ArgB (SerializeToString P (MRoleInfo (new_role (word_of_int n) (rq_account req))))]
        (\<lambda>reply. if rtype reply = REDIS_REPLY_STATUS then f x else f y))" for n x y
    by (rule claiming_set_role) (use assms(2,3) in \<open>auto simp: mine_def id_name_def\<close>)
  then show ?thesis
    unfolding register_progs prog_norm new_role_eq
    using assms(1,3) by (auto intro!: claiming_sections claiming_incr [OF assms(1), where name = "c_str (rq_account req)"])
qed

lemma claiming_request:
  assumes "account_request wire_ok msg" and t: "turns g = Suc t"
    and "\<And>g' x. t \<le> turns g' \<Longrightarrow> claiming X R up store P wire_ok g' (f x)"
  shows "claiming X R up store P wire_ok g (bind_prog (request_prog P a msg) f)"
proof -
  from assms(1) consider q where "msg = (CMD_LOGIN, MLoginReq q)"
    | q where "msg = (CMD_REGISTER, MRegisterReq q)" "name_ok wire_ok (rq_account q)"
    by (auto simp: account_request_def)
  then show ?thesis
  proof cases
    case (1 q)
    then show ?thesis
      unfolding request_prog_def pull_and_add_prog_def using assms(3) t
      by (auto simp: prog_norm as_LoginReq_def intro!: claiming_pull claiming_add claiming_login split: option.splits)
  next
    case (2 q)
    then show ?thesis
      unfolding request_prog_def using assms(3)
      by (auto simp: prog_norm as_RegisterReq_def cmd_ids intro!: claiming_register [OF t])
  qed
qed

lemma claiming_connection:
  assumes "list_all (account_request wire_ok) msgs" and "length msgs \<le> turns g"
    and "\<And>g' x. claiming X R up store P wire_ok g' (f x)"
  shows "claiming X R up store P wire_ok g (bind_prog (connection_prog P a msgs) f)"
  using assms
proof (induction msgs arbitrary: g f)
  case (Cons msg msgs)
  obtain t where t: "turns g = Suc t" using Cons.prems(2) by (cases "turns g") auto
  have "claiming X R up store P wire_ok g' (bind_prog (connection_prog P a msgs) (\<lambda>rsps. f (y # rsps)))" if "t \<le> turns g'" for g' y
    using Cons.prems t that by (intro Cons.IH) auto
  with Cons.prems(1) show ?case by (auto simp: bind_prog_assoc intro!: claiming_request [OF _ t])
qed simp

lemma pool_ids:
  fixes S S' :: "('addr, 'c) server"
  assumes rel: "account_rel up store P S A" and A: "accounts_ok wire_ok A"
    and reqs: "list_all (list_all (account_request wire_ok) \<circ> snd) conns"
    and gid: "acc_gid A + int (sum_list (map (length \<circ> snd) conns)) < 2 ^ 31"
    and run: "interleaves R (S, map (\<lambda>(a, msgs). connection_prog P a msgs) conns) (S', ts)"
    and views: "role_view store P S' k = Some r" "role_view store P S' k' = Some r'"
      "player_id (basic_info r) = player_id (basic_info r')"
  shows "k = k' \<or> player_id (basic_info r) \<in> stray_ids A"
proof -
  let ?gs = "map (\<lambda>c. \<lparr>numbers = {}, objects = Map.empty, turns = length (snd c)\<rparr>) conns" and ?X = "stray_ids A"
  have "sum_list (map turns ?gs) = sum_list (map (length \<circ> snd) conns)" by (simp add: comp_def)
  moreover have C: "claims store P ?gs S = {(player_id (basic_info r), k) | k r. acc_role A k = Some r}"
    using rel by (auto simp: claims_def mine_def account_rel_def)
  moreover have "single_valued (tracked ?X (claims store P ?gs S))"
    unfolding C by (auto simp: single_valued_def tracked_def stray_ids_def)
  moreover have "\<forall>x\<in>tracked ?X (claims store P ?gs S). 0 < sint (fst x) \<and> sint (fst x) \<le> acc_gid A"
    unfolding C by (auto simp: tracked_def stray_ids_def not_le [symmetric])
  ultimately have ok: "claims_ok ?X up store P wire_ok ?gs S"
    using rel A gid unfolding claims_ok_def by (auto simp: account_rel_def accounts_ok_def intro!: exI [of _ "acc_gid A"])
  have one: "claiming ?X R up store P wire_ok \<lparr>numbers = {}, objects = Map.empty, turns = length msgs\<rparr>
      (connection_prog P a msgs :: ('addr, 'c, CmdMessagePair list) thread)" if "list_all (account_request wire_ok) msgs" for a :: 'addr and msgs
    using claiming_connection [OF that, where g = "\<lparr>numbers = {}, objects = Map.empty, turns = length msgs\<rparr>" and f = Done] by simp
  have "list_all2 (claiming ?X R up store P wire_ok) ?gs
      (map (\<lambda>(a, msgs). connection_prog P a msgs) conns :: ('addr, 'c, CmdMessagePair list) thread list)"
    using reqs one by (auto simp: list_all2_conv_all_nth list_all_length case_prod_beta)
  from safe_pool [of R S _ S' ts "claims_ok ?X up store P wire_ok", OF run ok this] obtain gs where
    gs: "claims_ok ?X up store P wire_ok gs S'" by blast
  show ?thesis
    using claims_okD(2) [OF gs] stored_claimed [OF views(1), of gs] stored_claimed [OF views(2), of gs] views(3)
    unfolding single_valued_def tracked_def by auto
qed

end

section \<open>Property\<close>

text \<open>
  C13: the server never gives one player id to two accounts. Some ids may be stray before the
  schedule starts: stored with a role although the counter has not given them out (as 31 is for
  the account \<open>hello\<close> while the counter is below 31), or stored for two accounts. However the
  sections of any number of connections interleave, each with any sequence of logins and
  registrations, those of the same account included, and wherever that is stopped, two account
  names with the same player id in the database have a stray id; so without stray ids the ids
  are unique. The database is up and its player counter is a number that the requests
  together do not take beyond \<open>int32\<close>, every stored role carries the name it is stored under, and the names have roles the wire format can carry.
\<close>

theorem concurrent_ids_are_unique:
  assumes "server_env R up store P wire_ok" and "account_rel up store P S A" and "accounts_ok wire_ok A"
    and "list_all (list_all (account_request wire_ok) \<circ> snd) conns"
    and "acc_gid A + int (sum_list (map (length \<circ> snd) conns)) < 2 ^ 31"
    and "interleaves R (S, map (\<lambda>(a, msgs). connection_prog P a msgs) conns) (S', ts)"
    and "role_view store P S' k = Some r" and "role_view store P S' k' = Some r'"
    and "player_id (basic_info r) = player_id (basic_info r')"
  shows "k = k' \<or> player_id (basic_info r) \<in> stray_ids A"
  by (rule server_env.pool_ids [OF assms])

text \<open>
  The database \<open>main\<close> leaves, with the account \<open>hello\<close>, the id 31 and a counter at 0. Two
  clients register Bob and then log him in, and one registers Eve; all run to the end.
\<close>

definition account_conns :: "(nat \<times> CmdMessagePair list) list" where
  "account_conns = [(1, [(CMD_REGISTER, MRegisterReq register_bob), (CMD_LOGIN, MLoginReq login_bob)]),
     (2, [(CMD_REGISTER, MRegisterReq register_bob), (CMD_LOGIN, MLoginReq login_bob)]), (3, [(CMD_REGISTER, MRegisterReq register_eve)])]"

definition server_hello :: "(nat, string \<Rightarrow> string option) server" where
  "server_hello = server0\<lparr>redis_ptr := Some [''__password_hello'' \<mapsto> ''world'',
     ''__role_hello'' \<mapsto> SerializeToString protobuf_ref (MRoleInfo hello_role)]\<rparr>"

definition accounts_hello :: accounts where
  "accounts_hello = \<lparr>acc_password = [''hello'' \<mapsto> ''world''], acc_role = [''hello'' \<mapsto> hello_role], acc_gid = 0\<rparr>"

lemma hello_fields: "player_id (basic_info hello_role) = 31" "username (basic_info hello_role) = ''hello''"
  by (simp_all add: hello_role_def mutable_progress_def mutable_basic_info_def basic_info_def)

lemma wire_ok_hello: "wire_ok_ref (MRoleInfo hello_role)"
  by (simp add: hello_role_def mutable_progress_def mutable_basic_info_def basic_info_def)

lemma rel_hello: "account_rel (\<lambda>_. True) (\<lambda>m. m) protobuf_ref server_hello accounts_hello"
proof -
  have "ParseFromArray protobuf_ref TRoleInfo (SerializeToString protobuf_ref (MRoleInfo hello_role)) = (True, MRoleInfo hello_role)"
    by (rule pref.roundtrip_role [OF wire_ok_hello])
  then show ?thesis
    by (auto simp: account_rel_def accounts_hello_def server_hello_def role_view_def counts_def db_def server0_def db_connected_def
        as_RoleInfo_def fun_eq_iff)
qed

lemma stray_hello: "stray_ids accounts_hello = {31}"
  by (auto simp: stray_ids_def accounts_hello_def hello_fields)

theorem concurrent_ids_are_unique_witness:
  "\<exists>S' ts. interleaves redis_ref (server_hello, map (\<lambda>(a, msgs). connection_prog protobuf_ref a msgs) account_conns) (S', ts) \<and>
     (\<nexists>Z. thread_step redis_ref (S', ts) Z) \<and>
     (\<forall>k k' r r'. role_view (\<lambda>m. m) protobuf_ref S' k = Some r \<longrightarrow> role_view (\<lambda>m. m) protobuf_ref S' k' = Some r' \<longrightarrow>
        player_id (basic_info r) = player_id (basic_info r') \<longrightarrow> k = k' \<or> player_id (basic_info r) = 31)"
proof -
  obtain S' ts where run: "interleaves redis_ref (server_hello, map (\<lambda>(a, msgs). connection_prog protobuf_ref a msgs) account_conns) (S', ts)"
      "\<nexists>Z. thread_step redis_ref (S', ts) Z"
    using pool_ends [of redis_ref] by (metis surj_pair)
  have "accounts_ok wire_ok_ref accounts_hello"
    by (auto simp: accounts_ok_def accounts_hello_def hello_fields c_str_def intro: name_ok_ref)
  moreover have "acc_gid accounts_hello + int (sum_list (map (length \<circ> snd) account_conns)) < 2 ^ 31"
      "list_all (list_all (account_request wire_ok_ref) \<circ> snd) account_conns"
    by (simp_all add: accounts_hello_def account_examples account_request_def account_conns_def)
  ultimately have "k = k' \<or> player_id (basic_info r) \<in> stray_ids accounts_hello"
    if "role_view (\<lambda>m. m) protobuf_ref S' k = Some r" "role_view (\<lambda>m. m) protobuf_ref S' k' = Some r'"
      "player_id (basic_info r) = player_id (basic_info r')" for k k' r r'
    using concurrent_ids_are_unique [OF env_ref_laws rel_hello _ _ _ run(1) that] by blast
  then show ?thesis
    unfolding stray_hello by (intro exI [of _ S'] exI [of _ ts] conjI) (use run in auto)
qed

end
