(* ===== verification/Concurrent_Accounts.thy ===== *)
theory Concurrent_Accounts
  imports Requests "HOL-Library.Multiset"
begin

text \<open>
  Registrations at the same time. Their interleaved programs implement an abstract machine
  whose steps are the four redis commands. Registrations of different names behave as if
  they ran one after the other, in the order in which they took their player ids; for the
  same name they do not, since the check for an existing account and the storing of the
  password are two commands.
\<close>

section \<open>The abstract machine of concurrent registrations\<close>

text \<open>Where a registration is: before each of its four commands, or answered.\<close>

datatype phase =
    Asking RegisterReq
  | Naming RegisterReq
  | Numbering RegisterReq
  | Storing RegisterReq i32
  | Answered RegisterRsp

fun phase_prog :: "protobuf \<Rightarrow> phase \<Rightarrow> ('addr, 'c, RegisterRsp) thread" where
  "phase_prog P (Asking q) = register_prog P q"
| "phase_prog P (Naming q) = register_password P q"
| "phase_prog P (Numbering q) = register_incr P q"
| "phase_prog P (Storing q gid) = register_role P q gid"
| "phase_prog P (Answered rsp) = Done rsp"

fun phase_step :: "phase \<Rightarrow> accounts \<Rightarrow> phase \<times> accounts" where
  "phase_step (Asking q) A =
     (if acc_password A (c_str (rq_account q)) = None then Naming q
      else Answered (register_rsp q ACCOUNT_ALREADY_EXIST), A)"
| "phase_step (Naming q) A =
     (Numbering q, A\<lparr>acc_password := (acc_password A)(c_str (rq_account q) \<mapsto> c_str (rq_password q))\<rparr>)"
| "phase_step (Numbering q) A = (Storing q (word_of_int (acc_gid A + 1)), A\<lparr>acc_gid := acc_gid A + 1\<rparr>)"
| "phase_step (Storing q gid) A =
     (Answered (register_rsp q REGISTER_SUCCEED),
      A\<lparr>acc_role := (acc_role A)(c_str (rq_account q) \<mapsto> new_role gid (rq_account q))\<rparr>)"
| "phase_step (Answered rsp) A = (Answered rsp, A)"

fun phase_ok :: "(Message \<Rightarrow> bool) \<Rightarrow> phase \<Rightarrow> bool" where
  "phase_ok wire_ok (Asking q) \<longleftrightarrow> name_ok wire_ok (rq_account q)"
| "phase_ok wire_ok (Naming q) \<longleftrightarrow> name_ok wire_ok (rq_account q)"
| "phase_ok wire_ok (Numbering q) \<longleftrightarrow> name_ok wire_ok (rq_account q)"
| "phase_ok wire_ok (Storing q gid) \<longleftrightarrow> name_ok wire_ok (rq_account q)"
| "phase_ok wire_ok (Answered rsp) \<longleftrightarrow> True"

text \<open>The ids a registration can still take.\<close>

fun pending_ids :: "phase \<Rightarrow> nat" where
  "pending_ids (Asking q) = 1"
| "pending_ids (Naming q) = 1"
| "pending_ids (Numbering q) = 1"
| "pending_ids (Storing q gid) = 0"
| "pending_ids (Answered rsp) = 0"

definition ids_left :: "phase list \<Rightarrow> nat" where
  "ids_left ps = sum_list (map pending_ids ps)"

inductive registering :: "accounts \<times> phase list \<Rightarrow> accounts \<times> phase list \<Rightarrow> bool" where
  "i < length ps \<Longrightarrow> phase_step (ps ! i) A = (p', A') \<Longrightarrow> registering (A, ps) (A', ps[i := p'])"

section \<open>The interleaved programs implement it\<close>

lemma register_done_eq: "register_done q ret = Done (register_rsp q ret)"
  by (simp add: register_done_def register_rsp_def)

context server_env
begin

lemma phase_refines:
  assumes rel: "account_rel up store P S A" and ok: "phase_ok wire_ok p" and gid: "acc_gid A + int (pending_ids p) < 2 ^ 63"
    and moves: "\<forall>rsp. p \<noteq> Answered rsp"
  shows "\<exists>S'. prog_step R (phase_prog P p) S = Some (phase_prog P (fst (phase_step p A)), S') \<and>
    account_rel up store P S' (snd (phase_step p A))"
proof (cases p)
  case (Asking q)
  let ?k = "c_str (rq_account q)"
  have c: "db_connected up S" using rel by (simp add: account_rel_def)
  obtain S1 where "redis_cmd R ''get __password_%s'' [ArgS ?k] S = (Inr (reply_get (acc_password A ?k)), S1)"
      "db_connected up S1" "db store S1 = db store S"
    using redis_get [OF c, of "''__password_''" ?k] rel by (auto simp: account_rel_def)
  with Asking account_relI [OF rel, of S1] show ?thesis
    by (auto simp: register_prog_def register_done_eq reply_get_def split: option.splits)
next
  case (Naming q)
  let ?k = "c_str (rq_account q)" and ?pw = "c_str (rq_password q)"
  have c: "db_connected up S" using rel by (simp add: account_rel_def)
  obtain S1 where S1: "redis_cmd R ''set __password_%s %s'' [ArgS ?k, ArgS ?pw] S = (Inr reply_status, S1)"
      "db_connected up S1" "db store S1 = (db store S)(''__password_'' @ ?k \<mapsto> ?pw)"
    using redis_set_s [OF c, of "''__password_''" ?k ?pw] by auto
  moreover from this have "role_view store P S1 = role_view store P S"
    by (auto simp: role_view_def fun_eq_iff)
  ultimately have "account_rel up store P S1 (snd (phase_step p A))"
    using Naming rel by (auto simp: account_rel_def fun_eq_iff)
  with S1 Naming show ?thesis by (auto simp: register_password_def)
next
  case (Numbering q)
  have c: "db_connected up S" using rel by (simp add: account_rel_def)
  obtain S1 where S1: "redis_cmd R ''incr gid'' [] S = (Inr (reply_integer (acc_gid A + 1)), S1)"
      "db_connected up S1" "db store S1 = (db store S)(''gid'' \<mapsto> to_string (acc_gid A + 1))"
    using redis_incr [OF c, of "''gid''" "acc_gid A"] rel gid Numbering by (auto simp: account_rel_def)
  moreover from this have "role_view store P S1 = role_view store P S"
    by (auto simp: role_view_def fun_eq_iff)
  ultimately have "account_rel up store P S1 (snd (phase_step p A))"
    using Numbering rel by (auto simp: account_rel_def fun_eq_iff counts_def)
  with S1 Numbering show ?thesis by (auto simp: register_incr_def)
next
  case (Storing q g)
  let ?k = "c_str (rq_account q)" and ?r = "new_role g (rq_account q)"
  have c: "db_connected up S" using rel by (simp add: account_rel_def)
  obtain S1 where S1: "redis_cmd R ''set __role_%s %b'' [ArgS ?k, ArgB (SerializeToString P (MRoleInfo ?r))] S
        = (Inr reply_status, S1)" "db_connected up S1"
      "db store S1 = (db store S)(''__role_'' @ ?k \<mapsto> SerializeToString P (MRoleInfo ?r))"
    using redis_set_b [OF c, of "''__role_''" ?k "SerializeToString P (MRoleInfo ?r)"] by auto
  have "wire_ok (MRoleInfo ?r)" using ok Storing by (simp add: name_ok_def)
  from role_view_pushed [OF this S1(3)] have "role_view store P S1 = (role_view store P S)(?k \<mapsto> ?r)" .
  from account_rel_push [OF rel S1(2,3) this] S1(1) Storing show ?thesis
    by (auto simp: register_role_def register_done_eq new_role_eq Let_def)
next
  case (Answered rsp)
  then show ?thesis using moves by simp
qed

end

lemma phase_step_ids:
  "acc_gid (snd (phase_step p A)) + int (pending_ids (fst (phase_step p A))) \<le> acc_gid A + int (pending_ids p)"
  by (cases p) simp_all

lemma phase_step_ok: "phase_ok wire_ok p \<Longrightarrow> phase_ok wire_ok (fst (phase_step p A))"
  by (cases p) simp_all

lemma pending_ids_left: "i < length ps \<Longrightarrow> pending_ids (ps ! i) \<le> ids_left ps"
  unfolding ids_left_def using elem_le_sum_list [of i "map pending_ids ps"] by simp

lemma ids_left_update:
  "i < length ps \<Longrightarrow> ids_left (ps[i := p]) + pending_ids (ps ! i) = ids_left ps + pending_ids p"
  unfolding ids_left_def by (rule sum_list_map_update)

lemma registering_ids:
  "registering (A, ps) (A', ps') \<Longrightarrow> acc_gid A' + int (ids_left ps') \<le> acc_gid A + int (ids_left ps)"
proof (elim registering.cases, clarsimp)
  fix i p'
  assume i: "i < length ps" and step: "phase_step (ps ! i) A = (p', A')"
  show "acc_gid A' + int (ids_left (ps[i := p'])) \<le> acc_gid A + int (ids_left ps)"
    using phase_step_ids [of "ps ! i" A] ids_left_update [OF i, of p'] step by simp
qed

context server_env
begin

text \<open>A section of a thread is a step of the abstract machine.\<close>

lemma phase_moves: "prog_step R (phase_prog P p) S = Some x \<Longrightarrow> \<forall>rsp. p \<noteq> Answered rsp"
  by (cases p) simp_all

lemma thread_step_refines:
  assumes rel: "account_rel up store P S A" and ok: "list_all (phase_ok wire_ok) ps"
    and gid: "acc_gid A + int (ids_left ps) < 2 ^ 63" and step: "thread_step R (S, map (phase_prog P) ps) (S', ts)"
  shows "\<exists>A' ps'. ts = map (phase_prog P) ps' \<and> registering (A, ps) (A', ps') \<and> account_rel up store P S' A' \<and>
    list_all (phase_ok wire_ok) ps'"
proof -
  from step obtain i p where i: "i < length ps" and p: "prog_step R (phase_prog P (ps ! i)) S = Some (p, S')"
      and ts: "ts = (map (phase_prog P) ps)[i := p]"
    by (auto elim!: thread_stepE)
  let ?p = "fst (phase_step (ps ! i) A)" and ?A = "snd (phase_step (ps ! i) A)"
  have "phase_ok wire_ok (ps ! i)" "acc_gid A + int (pending_ids (ps ! i)) < 2 ^ 63"
    using ok i gid pending_ids_left [OF i] by (auto simp: list_all_length)
  from phase_refines [OF rel this phase_moves [OF p]] p have "p = phase_prog P ?p" "account_rel up store P S' ?A" by auto
  moreover have "registering (A, ps) (?A, ps[i := ?p])" by (rule registering.intros [OF i]) simp
  moreover have "list_all (phase_ok wire_ok) (ps[i := ?p])"
    using ok i phase_step_ok by (auto simp: list_all_length nth_list_update)
  ultimately show ?thesis using ts by (intro exI [of _ ?A] exI [of _ "ps[i := ?p]"]) (simp add: map_update)
qed

lemma interleaves_refine:
  assumes rel: "account_rel up store P S A" and ok: "list_all (phase_ok wire_ok) ps"
    and gid: "acc_gid A + int (ids_left ps) < 2 ^ 63" and run: "interleaves R (S, map (phase_prog P) ps) (S', ts)"
  shows "\<exists>A' ps'. ts = map (phase_prog P) ps' \<and> rtranclp registering (A, ps) (A', ps') \<and> account_rel up store P S' A'"
proof -
  have "\<exists>A' ps'. snd X = map (phase_prog P) ps' \<and> rtranclp registering (A, ps) (A', ps') \<and> account_rel up store P (fst X) A' \<and>
      list_all (phase_ok wire_ok) ps' \<and> acc_gid A' + int (ids_left ps') < 2 ^ 63"
    if "interleaves R (S, map (phase_prog P) ps) X" for X
    using that
  proof (induction rule: rtranclp_induct)
    case base
    show ?case using rel ok gid by (intro exI [of _ A] exI [of _ ps]) simp
  next
    case (step Y Z)
    then obtain A1 ps1 where Y: "snd Y = map (phase_prog P) ps1" "rtranclp registering (A, ps) (A1, ps1)"
        "account_rel up store P (fst Y) A1" "list_all (phase_ok wire_ok) ps1" "acc_gid A1 + int (ids_left ps1) < 2 ^ 63"
      by blast
    from step.hyps(2) Y(1) have "thread_step R (fst Y, map (phase_prog P) ps1) (fst Z, snd Z)" by (cases Y) simp
    from thread_step_refines [OF Y(3-5) this] obtain A2 ps2 where Z: "snd Z = map (phase_prog P) ps2"
        "registering (A1, ps1) (A2, ps2)" "account_rel up store P (fst Z) A2" "list_all (phase_ok wire_ok) ps2" by blast
    have "rtranclp registering (A, ps) (A2, ps2)" using Y(2) Z(2) by (rule rtranclp.rtrancl_into_rtrancl)
    with Z registering_ids [OF Z(2)] Y(5) show ?case by (intro exI [of _ A2] exI [of _ ps2]) simp
  qed
  from this [OF run] show ?thesis by auto
qed

end

section \<open>Registrations of different names\<close>

text \<open>
  The accounts after the registrations \<open>ds\<close>, by their index, one after the other. A state of
  the machine stands for them, where \<open>ds\<close> are the registrations that took an id, in this order:
  it differs from them only in the password of a registration that is about to take its id
  and in the role of one that has not stored it yet.
\<close>

abbreviation reg_key :: "RegisterReq \<Rightarrow> string" where
  "reg_key q \<equiv> c_str (rq_account q)"

definition one_by_one :: "RegisterReq list \<Rightarrow> accounts \<Rightarrow> nat list \<Rightarrow> accounts" where
  "one_by_one qs A ds = snd (spec_calls (map (\<lambda>i. Register (qs ! i)) ds) A)"

fun phase_lin :: "accounts \<Rightarrow> accounts \<Rightarrow> RegisterReq \<Rightarrow> bool \<Rightarrow> phase \<Rightarrow> bool" where
  "phase_lin A D q numbered (Asking q') \<longleftrightarrow> q' = q \<and> \<not> numbered"
| "phase_lin A D q numbered (Naming q') \<longleftrightarrow> q' = q \<and> \<not> numbered \<and> acc_password A (reg_key q) = None"
| "phase_lin A D q numbered (Numbering q') \<longleftrightarrow> q' = q \<and> \<not> numbered \<and> acc_password A (reg_key q) = None"
| "phase_lin A D q numbered (Storing q' g) \<longleftrightarrow> q' = q \<and> numbered \<and> acc_role D (reg_key q) = Some (new_role g (rq_account q))"
| "phase_lin A D q numbered (Answered rsp) \<longleftrightarrow>
     rsp = register_rsp q (if numbered then REGISTER_SUCCEED else ACCOUNT_ALREADY_EXIST) \<and>
     (numbered \<or> acc_password A (reg_key q) \<noteq> None)"

fun password_of :: "phase \<Rightarrow> string option \<Rightarrow> string option" where
  "password_of (Numbering q) v = Some (c_str (rq_password q))"
| "password_of _ v = v"

fun role_of :: "phase \<Rightarrow> RoleInfo option \<Rightarrow> RoleInfo option \<Rightarrow> RoleInfo option" where
  "role_of (Storing q g) old new = old"
| "role_of _ old new = new"

definition lin :: "RegisterReq list \<Rightarrow> accounts \<Rightarrow> nat list \<Rightarrow> accounts \<times> phase list \<Rightarrow> bool" where
  "lin qs A ds X \<longleftrightarrow> (case X of (A', ps) \<Rightarrow> let D = one_by_one qs A ds in
     length ps = length qs \<and> distinct ds \<and> set ds \<subseteq> {..<length qs} \<and> (\<forall>i\<in>set ds. acc_password A (reg_key (qs ! i)) = None) \<and>
     acc_gid A' = acc_gid D \<and>
     (\<forall>i<length qs. phase_lin A D (qs ! i) (i \<in> set ds) (ps ! i) \<and>
        acc_password A' (reg_key (qs ! i)) = password_of (ps ! i) (acc_password D (reg_key (qs ! i))) \<and>
        acc_role A' (reg_key (qs ! i)) = role_of (ps ! i) (acc_role A (reg_key (qs ! i))) (acc_role D (reg_key (qs ! i)))) \<and>
     (\<forall>k. k \<notin> reg_key ` set qs \<longrightarrow> acc_password A' k = acc_password D k \<and> acc_role A' k = acc_role D k))"

lemma spec_calls_snoc: "snd (spec_calls (ops @ [op]) A) = snd (spec_call op (snd (spec_calls ops A)))"
  by (induction ops arbitrary: A) (simp_all add: case_prod_beta Let_def)

lemma one_by_one_snoc: "one_by_one qs A (ds @ [i]) = snd (register_spec (qs ! i) (one_by_one qs A ds))"
  by (simp add: one_by_one_def spec_calls_snoc spec_call_def)

lemma one_by_one_other:
  "\<forall>i\<in>set ds. reg_key (qs ! i) \<noteq> k \<Longrightarrow>
   acc_password (one_by_one qs A ds) k = acc_password A k \<and> acc_role (one_by_one qs A ds) k = acc_role A k"
proof (induction ds rule: rev_induct)
  case (snoc i ds)
  then show ?case by (auto simp: one_by_one_snoc register_spec_def Let_def split: option.splits)
qed (simp add: one_by_one_def)

lemma one_by_one_free:
  assumes "inj_on (reg_key \<circ> (!) qs) {..<length qs}" and "set ds \<subseteq> {..<length qs}" and "i < length qs" and "i \<notin> set ds"
  shows "acc_password (one_by_one qs A ds) (reg_key (qs ! i)) = acc_password A (reg_key (qs ! i))"
    and "acc_role (one_by_one qs A ds) (reg_key (qs ! i)) = acc_role A (reg_key (qs ! i))"
proof -
  have "\<forall>j\<in>set ds. reg_key (qs ! j) \<noteq> reg_key (qs ! i)"
    using assms by (metis comp_apply inj_on_eq_iff lessThan_iff subsetD)
  from one_by_one_other [OF this] show "acc_password (one_by_one qs A ds) (reg_key (qs ! i)) = acc_password A (reg_key (qs ! i))"
    and "acc_role (one_by_one qs A ds) (reg_key (qs ! i)) = acc_role A (reg_key (qs ! i))" by simp_all
qed

text \<open>A step of one registration touches the entries of its own name only.\<close>

lemma phase_lin_other:
  "acc_role D' (reg_key q) = acc_role D (reg_key q) \<Longrightarrow> phase_lin A D' q b p = phase_lin A D q b p"
  by (cases p) simp_all

lemma lin_update:
  assumes inj: "inj_on (reg_key \<circ> (!) qs) {..<length qs}" and "lin qs A ds (A1, ps)" and i: "i < length qs"
    and other: "\<And>k. k \<noteq> reg_key (qs ! i) \<Longrightarrow> acc_password A2 k = acc_password A1 k \<and> acc_role A2 k = acc_role A1 k"
    and ds': "ds' = ds \<or> ds' = ds @ [i] \<and> i \<notin> set ds \<and> acc_password A (reg_key (qs ! i)) = None"
    and gid: "acc_gid A2 = acc_gid (one_by_one qs A ds')" and p': "phase_lin A (one_by_one qs A ds') (qs ! i) (i \<in> set ds') p'"
    and pw: "acc_password A2 (reg_key (qs ! i)) = password_of p' (acc_password (one_by_one qs A ds') (reg_key (qs ! i)))"
    and role: "acc_role A2 (reg_key (qs ! i)) =
      role_of p' (acc_role A (reg_key (qs ! i))) (acc_role (one_by_one qs A ds') (reg_key (qs ! i)))"
  shows "lin qs A ds' (A2, ps[i := p'])"
proof -
  note L = assms(2) [unfolded lin_def Let_def prod.case]
  let ?D = "one_by_one qs A ds" and ?D' = "one_by_one qs A ds'"
  have D: "acc_password ?D' k = acc_password ?D k \<and> acc_role ?D' k = acc_role ?D k" if "k \<noteq> reg_key (qs ! i)" for k
    using ds' that by (auto simp: one_by_one_snoc register_spec_def Let_def split: option.splits)
  have key: "reg_key (qs ! j) \<noteq> reg_key (qs ! i)" if "j < length qs" "j \<noteq> i" for j
    using inj that i by (metis comp_apply inj_on_eq_iff lessThan_iff)
  have mem: "j \<in> set ds' \<longleftrightarrow> j \<in> set ds" if "j \<noteq> i" for j using ds' that by auto
  have "phase_lin A ?D' (qs ! j) (j \<in> set ds') (ps[i := p'] ! j) \<and>
      acc_password A2 (reg_key (qs ! j)) = password_of (ps[i := p'] ! j) (acc_password ?D' (reg_key (qs ! j))) \<and>
      acc_role A2 (reg_key (qs ! j)) = role_of (ps[i := p'] ! j) (acc_role A (reg_key (qs ! j))) (acc_role ?D' (reg_key (qs ! j)))"
    if j: "j < length qs" for j
  proof (cases "j = i")
    case True
    then show ?thesis using p' pw role L i by simp
  next
    case False
    have "phase_lin A ?D (qs ! j) (j \<in> set ds) (ps ! j)" using L j by blast
    then have "phase_lin A ?D' (qs ! j) (j \<in> set ds') (ps ! j)"
      using phase_lin_other [of ?D' "qs ! j" ?D A "j \<in> set ds" "ps ! j"] D [OF key [OF j False]] mem [OF False] by simp
    then show ?thesis using L j False D [OF key [OF j False]] other [OF key [OF j False]] by simp
  qed
  moreover have "acc_password A2 k = acc_password ?D' k \<and> acc_role A2 k = acc_role ?D' k" if k: "k \<notin> reg_key ` set qs" for k
  proof -
    have "k \<noteq> reg_key (qs ! i)" using k i by auto
    then show ?thesis using L k D [of k] other [of k] by simp
  qed
  moreover have "distinct ds'" "set ds' \<subseteq> {..<length qs}" "\<forall>j\<in>set ds'. acc_password A (reg_key (qs ! j)) = None"
    using L ds' i by auto
  ultimately show ?thesis using L gid unfolding lin_def Let_def prod.case by simp
qed

lemma lin_step:
  assumes inj: "inj_on (reg_key \<circ> (!) qs) {..<length qs}" and L: "lin qs A ds (A1, ps)" and step: "registering (A1, ps) (A2, ps2)"
  shows "\<exists>ds'. lin qs A ds' (A2, ps2)"
  using step
proof cases
  case (1 i p')
  note L' = L [unfolded lin_def Let_def prod.case]
  have i: "i < length qs" using 1(2) L' by simp
  let ?q = "qs ! i" and ?D = "one_by_one qs A ds" and ?k = "reg_key (qs ! i)"
  have here: "phase_lin A ?D ?q (i \<in> set ds) (ps ! i)" "acc_password A1 ?k = password_of (ps ! i) (acc_password ?D ?k)"
      "acc_role A1 ?k = role_of (ps ! i) (acc_role A ?k) (acc_role ?D ?k)" "acc_gid A1 = acc_gid ?D"
    using L' i by blast+
  have free: "acc_password ?D ?k = acc_password A ?k" "acc_role ?D ?k = acc_role A ?k" if "i \<notin> set ds"
    using one_by_one_free [OF inj _ i that] L' by blast+
  have stay: "\<exists>ds'. lin qs A ds' (A2, ps2)"
    if "\<And>k. k \<noteq> ?k \<Longrightarrow> acc_password A2 k = acc_password A1 k \<and> acc_role A2 k = acc_role A1 k" "acc_gid A2 = acc_gid A1"
      "phase_lin A ?D ?q (i \<in> set ds) p'" "acc_password A2 ?k = password_of p' (acc_password ?D ?k)"
      "acc_role A2 ?k = role_of p' (acc_role A ?k) (acc_role ?D ?k)"
    using lin_update [OF inj L i that(1) disjI1 [OF refl] _ that(3-5)] that(2) here(4) 1(1) by auto
  show ?thesis
  proof (cases "ps ! i")
    case (Asking q)
    with here free 1(3) show ?thesis by (intro stay) (auto split: if_splits)
  next
    case (Naming q)
    with here free 1(3) show ?thesis by (intro stay) auto
  next
    case (Numbering q)
    have q: "q = ?q" "i \<notin> set ds" "acc_password A ?k = None" using here(1) Numbering by auto
    have p': "p' = Storing ?q (word_of_int (acc_gid ?D + 1))" "A2 = A1\<lparr>acc_gid := acc_gid A1 + 1\<rparr>"
      using 1(3) Numbering q(1) here(4) by auto
    have D': "one_by_one qs A (ds @ [i]) = \<lparr>acc_password = (acc_password ?D)(?k \<mapsto> c_str (rq_password ?q)),
        acc_role = (acc_role ?D)(?k \<mapsto> new_role (word_of_int (acc_gid ?D + 1)) (rq_account ?q)), acc_gid = acc_gid ?D + 1\<rparr>"
      using free(1) [OF q(2)] q(3) by (simp add: one_by_one_snoc register_spec_def Let_def)
    have "lin qs A (ds @ [i]) (A2, ps[i := p'])"
      by (rule lin_update [OF inj L i]) (use q p' D' here free [OF q(2)] Numbering in simp_all)
    then show ?thesis using 1(1) by blast
  next
    case (Storing q g)
    with here 1(3) show ?thesis by (intro stay) auto
  next
    case (Answered rsp)
    with 1(1,3) have "ps2 = ps" "A2 = A1" by (auto simp: list_update_same_conv 1(2))
    with L show ?thesis by auto
  qed
qed

lemma lin_reach:
  assumes "inj_on (reg_key \<circ> (!) qs) {..<length qs}" and "rtranclp registering (A, map Asking qs) X"
  shows "\<exists>ds. lin qs A ds X"
  using assms(2)
proof (induction rule: rtranclp_induct)
  case base
  have "lin qs A [] (A, map Asking qs)" by (simp add: lin_def one_by_one_def)
  then show ?case ..
next
  case (step Y Z)
  then show ?case using lin_step [OF assms(1), of A _ "fst Y" "snd Y" "fst Z" "snd Z"] by auto
qed

text \<open>At the end the names that were free are registered, and the others were taken before.\<close>

lemma spec_calls_append:
  "spec_calls (xs @ ys) A =
     (fst (spec_calls xs A) @ fst (spec_calls ys (snd (spec_calls xs A))), snd (spec_calls ys (snd (spec_calls xs A))))"
  by (induction xs arbitrary: A) (simp_all add: case_prod_beta Let_def)

lemma one_by_one_succeed:
  assumes "inj_on (reg_key \<circ> (!) qs) {..<length qs}" and "distinct ds" and "set ds \<subseteq> {..<length qs}"
    and "\<forall>i\<in>set ds. acc_password A (reg_key (qs ! i)) = None"
  shows "fst (spec_calls (map (\<lambda>i. Register (qs ! i)) ds) A) =
    map (\<lambda>i. MRegisterRsp (register_rsp (qs ! i) REGISTER_SUCCEED)) ds"
  using assms(2-4)
proof (induction ds rule: rev_induct)
  case (snoc i ds)
  then have "acc_password (one_by_one qs A ds) (reg_key (qs ! i)) = None"
    using one_by_one_free(1) [OF assms(1), of ds i] by simp
  with snoc show ?case
    by (simp add: spec_calls_append spec_call_def one_by_one_def register_spec_def Let_def case_prod_beta)
qed simp

lemma taken_names_stay:
  "\<forall>i\<in>set es. acc_password D (reg_key (qs ! i)) \<noteq> None \<Longrightarrow>
   spec_calls (map (\<lambda>i. Register (qs ! i)) es) D = (map (\<lambda>i. MRegisterRsp (register_rsp (qs ! i) ACCOUNT_ALREADY_EXIST)) es, D)"
  by (induction es) (auto simp: spec_call_def register_spec_def Let_def)

lemma lin_end:
  assumes inj: "inj_on (reg_key \<circ> (!) qs) {..<length qs}" and L: "lin qs A ds (A', map Answered rsps)"
  shows "\<exists>js. mset js = mset [0..<length qs] \<and>
    spec_calls (map (\<lambda>i. Register (qs ! i)) js) A = (map (\<lambda>i. MRegisterRsp (rsps ! i)) js, A')"
proof -
  note L' = L [unfolded lin_def Let_def prod.case]
  let ?es = "filter (\<lambda>i. i \<notin> set ds) [0..<length qs]" and ?D = "one_by_one qs A ds"
  have len: "length rsps = length qs" and at: "phase_lin A ?D (qs ! i) (i \<in> set ds) (Answered (rsps ! i))"
      "acc_password A' (reg_key (qs ! i)) = acc_password ?D (reg_key (qs ! i))"
      "acc_role A' (reg_key (qs ! i)) = acc_role ?D (reg_key (qs ! i))" if "i < length qs" for i
    using L' that by auto
  have same: "acc_password A' k = acc_password ?D k \<and> acc_role A' k = acc_role ?D k" for k
  proof (cases "k \<in> reg_key ` set qs")
    case True
    then obtain i where "i < length qs" "k = reg_key (qs ! i)" by (auto simp: in_set_conv_nth)
    with at(2,3) show ?thesis by simp
  next
    case False
    with L' show ?thesis by blast
  qed
  have "acc_password A' = acc_password ?D" "acc_role A' = acc_role ?D" using same by (simp_all add: fun_eq_iff)
  moreover have "acc_gid A' = acc_gid ?D" using L' by blast
  ultimately have "A' = ?D" by simp
  have "acc_password ?D (reg_key (qs ! i)) \<noteq> None" if "i \<in> set ?es" for i
    using at(1) [of i] one_by_one_free(1) [OF inj, of ds i A] that L' by auto
  then have es: "spec_calls (map (\<lambda>i. Register (qs ! i)) ?es) ?D = (map (\<lambda>i. MRegisterRsp (register_rsp (qs ! i) ACCOUNT_ALREADY_EXIST)) ?es, ?D)"
    by (intro taken_names_stay) blast
  have "mset (ds @ ?es) = mset [0..<length qs]"
    using L' by (intro set_eq_iff_mset_eq_distinct [THEN iffD1]) auto
  moreover have "spec_calls (map (\<lambda>i. Register (qs ! i)) (ds @ ?es)) A = (map (\<lambda>i. MRegisterRsp (rsps ! i)) (ds @ ?es), A')"
  proof -
    have "map (\<lambda>i. MRegisterRsp (register_rsp (qs ! i) REGISTER_SUCCEED)) ds = map (\<lambda>i. MRegisterRsp (rsps ! i)) ds"
      using at(1) L' by (auto simp: subset_iff)
    moreover have "map (\<lambda>i. MRegisterRsp (register_rsp (qs ! i) ACCOUNT_ALREADY_EXIST)) ?es = map (\<lambda>i. MRegisterRsp (rsps ! i)) ?es"
      using at(1) by auto
    ultimately show ?thesis
      using one_by_one_succeed [OF inj, of ds A] L' es \<open>A' = ?D\<close> by (simp add: spec_calls_append one_by_one_def)
  qed
  ultimately show ?thesis by blast
qed

section \<open>Schedules\<close>

text \<open>The abstract machine along a schedule, the list of the threads that move.\<close>

fun run_schedule :: "nat list \<Rightarrow> accounts \<times> phase list \<Rightarrow> accounts \<times> phase list" where
  "run_schedule [] X = X"
| "run_schedule (i # is) (A, ps) =
     (case phase_step (ps ! i) A of (p, A') \<Rightarrow> run_schedule is (A', ps[i := p]))"

text \<open>A schedule that only moves threads that are not answered yet.\<close>

fun admissible :: "nat list \<Rightarrow> accounts \<times> phase list \<Rightarrow> bool" where
  "admissible [] X \<longleftrightarrow> True"
| "admissible (i # is) (A, ps) \<longleftrightarrow> i < length ps \<and> (\<forall>rsp. ps ! i \<noteq> Answered rsp) \<and>
     (case phase_step (ps ! i) A of (p, A') \<Rightarrow> admissible is (A', ps[i := p]))"

context server_env
begin

lemma schedule_realised:
  "account_rel up store P S A \<Longrightarrow> list_all (phase_ok wire_ok) ps \<Longrightarrow> acc_gid A + int (ids_left ps) < 2 ^ 63 \<Longrightarrow>
   admissible is (A, ps) \<Longrightarrow>
   \<exists>S'. interleaves R (S, map (phase_prog P) ps) (S', map (phase_prog P) (snd (run_schedule is (A, ps)))) \<and>
     account_rel up store P S' (fst (run_schedule is (A, ps)))"
proof (induction "is" arbitrary: S A ps)
  case Nil
  then show ?case by auto
next
  case (Cons i "is")
  let ?p = "fst (phase_step (ps ! i) A)" and ?A = "snd (phase_step (ps ! i) A)"
  have i: "i < length ps" and un: "\<forall>rsp. ps ! i \<noteq> Answered rsp" and adm: "admissible is (?A, ps[i := ?p])"
    using Cons.prems(4) by (auto simp: case_prod_beta)
  have "phase_ok wire_ok (ps ! i)" "acc_gid A + int (pending_ids (ps ! i)) < 2 ^ 63"
    using Cons.prems(2,3) i pending_ids_left [OF i] by (auto simp: list_all_length)
  from phase_refines [OF Cons.prems(1) this un] obtain S1 where S1:
      "prog_step R (phase_prog P (ps ! i)) S = Some (phase_prog P ?p, S1)" "account_rel up store P S1 ?A" by blast
  have 1: "thread_step R (S, map (phase_prog P) ps) (S1, map (phase_prog P) (ps[i := ?p]))"
    using thread_moves [of i "map (phase_prog P) ps" R S "phase_prog P ?p" S1] i S1(1) by (simp add: map_update)
  have "list_all (phase_ok wire_ok) (ps[i := ?p])"
    using Cons.prems(2) i phase_step_ok by (auto simp: list_all_length nth_list_update)
  moreover have "acc_gid ?A + int (ids_left (ps[i := ?p])) < 2 ^ 63"
    using registering_ids [OF registering.intros [OF i, of A ?p ?A]] Cons.prems(3) by simp
  ultimately obtain S' where
      "interleaves R (S1, map (phase_prog P) (ps[i := ?p])) (S', map (phase_prog P) (snd (run_schedule is (?A, ps[i := ?p]))))"
      "account_rel up store P S' (fst (run_schedule is (?A, ps[i := ?p])))"
    using Cons.IH [OF S1(2) _ _ adm] by blast
  with 1 show ?case
    by (intro exI [of _ S']) (simp add: case_prod_beta converse_rtranclp_into_rtranclp)
qed

text \<open>Both threads ask before either of them stores a password.\<close>

lemma registration_race:
  assumes rel: "account_rel up store P S A" and free: "acc_password A (c_str (rq_account q1)) = None"
    and same: "rq_account q2 = rq_account q1" and name: "name_ok wire_ok (rq_account q1)" and gid: "acc_gid A + 2 < 2 ^ 63"
  shows "\<exists>S'. interleaves R (S, [register_prog P q1, register_prog P q2])
      (S', [Done (register_rsp q1 REGISTER_SUCCEED), Done (register_rsp q2 REGISTER_SUCCEED)]) \<and>
    db store S' (''__password_'' @ c_str (rq_account q1)) = Some (c_str (rq_password q2))"
proof -
  let ?ps = "[Asking q1, Asking q2]" and ?is = "[0, 1, 0, 0, 0, 1, 1, 1]"
  have "admissible ?is (A, ?ps)" using free same by simp
  moreover have "list_all (phase_ok wire_ok) ?ps" "acc_gid A + int (ids_left ?ps) < 2 ^ 63"
    using name same gid by (simp_all add: ids_left_def)
  ultimately obtain S' where S': "interleaves R (S, map (phase_prog P) ?ps) (S', map (phase_prog P) (snd (run_schedule ?is (A, ?ps))))"
      "account_rel up store P S' (fst (run_schedule ?is (A, ?ps)))"
    using schedule_realised [OF rel] by blast
  have "snd (run_schedule ?is (A, ?ps)) = [Answered (register_rsp q1 REGISTER_SUCCEED), Answered (register_rsp q2 REGISTER_SUCCEED)]"
      "acc_password (fst (run_schedule ?is (A, ?ps))) (c_str (rq_account q1)) = Some (c_str (rq_password q2))"
    using free same by simp_all
  with S' show ?thesis by (auto simp: account_rel_def)
qed

end

context server_env
begin

lemma one_after_the_other:
  assumes rel: "account_rel up store P S A" and free: "acc_password A (c_str (rq_account q1)) = None"
    and same: "rq_account q2 = rq_account q1" and name: "name_ok wire_ok (rq_account q1)" and gid: "acc_gid A + 2 < 2 ^ 63"
  shows "\<exists>S'. bind_act (exec R (register_prog P q1)) (\<lambda>r1. bind_act (exec R (register_prog P q2)) (\<lambda>r2. ret_act (r1, r2))) S =
    (Inr (register_rsp q1 REGISTER_SUCCEED, register_rsp q2 ACCOUNT_ALREADY_EXIST), S')"
proof -
  have spec: "fst (register_spec q1 A) = register_rsp q1 REGISTER_SUCCEED" "acc_gid (snd (register_spec q1 A)) = acc_gid A + 1"
      "fst (register_spec q2 (snd (register_spec q1 A))) = register_rsp q2 ACCOUNT_ALREADY_EXIST"
    using free same by (simp_all add: register_spec_def Let_def)
  obtain S1 where S1: "exec R (register_prog P q1) S = (Inr (register_rsp q1 REGISTER_SUCCEED), S1)"
      "account_rel up store P S1 (snd (register_spec q1 A))"
    using register_refines [OF rel name, of "()"] gid spec(1) by (auto simp: exec_register [of _ _ _ "()"])
  obtain S2 where "exec R (register_prog P q2) S1 = (Inr (register_rsp q2 ACCOUNT_ALREADY_EXIST), S2)"
    using register_refines [OF S1(2), of q2 "()"] name same gid spec(2,3) by (auto simp: exec_register [of _ _ _ "()"])
  with S1(1) show ?thesis by simp
qed

end

lemma phase_prog_Done: "phase_prog P p = Done rsp \<longleftrightarrow> p = Answered rsp"
  by (cases p) (simp_all add: register_prog_def register_password_def register_incr_def register_role_def Let_def)

context server_env
begin

lemma registrations_linearize:
  fixes S :: "('addr, 'c) server"
  assumes rel: "account_rel up store P S A" and dist: "distinct (map (\<lambda>q. c_str (rq_account q)) qs)"
    and names: "list_all (\<lambda>q. name_ok wire_ok (rq_account q)) qs" and gid: "acc_gid A + int (length qs) < 2 ^ 63"
    and run: "interleaves R (S, map (register_prog P) qs) (S', map Done rsps)"
  shows "\<exists>js A'. mset js = mset [0..<length qs] \<and> account_rel up store P S' A' \<and>
    spec_calls (map (\<lambda>i. Register (qs ! i)) js) A = (map (\<lambda>i. MRegisterRsp (rsps ! i)) js, A')"
proof -
  let ?ps = "map Asking qs"
  have "ids_left ?ps = length qs" by (induction qs) (simp_all add: ids_left_def)
  with gid have g: "acc_gid A + int (ids_left ?ps) < 2 ^ 63" by simp
  have ok: "list_all (phase_ok wire_ok) ?ps" using names by (simp add: list_all_iff)
  have "interleaves R (S, map (phase_prog P) ?ps) (S', map Done rsps)" using run by (simp add: comp_def)
  from interleaves_refine [OF rel ok g this] obtain A' ps where
      A': "map (Done :: RegisterRsp \<Rightarrow> ('addr, 'c, RegisterRsp) thread) rsps = map (phase_prog P) ps"
      "rtranclp registering (A, ?ps) (A', ps)" "account_rel up store P S' A'" by blast
  have "ps = map Answered rsps"
  proof (rule nth_equalityI)
    show "length ps = length (map Answered rsps)" using map_eq_imp_length_eq [OF A'(1)] by simp
    show "ps ! i = map Answered rsps ! i" if "i < length ps" for i
      using that A'(1) map_eq_imp_length_eq [OF A'(1)] phase_prog_Done by (metis nth_map)
  qed
  moreover have inj: "inj_on (reg_key \<circ> (!) qs) {..<length qs}"
    using dist by (auto simp: inj_on_def distinct_conv_nth)
  ultimately obtain ds where "lin qs A ds (A', map Answered rsps)" using lin_reach [OF inj A'(2)] by auto
  from lin_end [OF inj this] A'(3) show ?thesis by blast
qed

end

section \<open>Properties\<close>

text \<open>
  C16: concurrent registrations of different names are linearizable. However the commands of
  any number of registrations with pairwise different account names interleave, when all of
  them are answered there is an order of the requests in which the sequential account
  database gives every request exactly the answer it got, and the accounts it then has are
  those in the redis store.
\<close>

theorem concurrent_registrations_linearize:
  assumes "server_env R up store P wire_ok" and "account_rel up store P S A"
    and "distinct (map (\<lambda>q. c_str (rq_account q)) qs)" and "list_all (\<lambda>q. name_ok wire_ok (rq_account q)) qs"
    and "acc_gid A + int (length qs) < 2 ^ 63" and "interleaves R (S, map (register_prog P) qs) (S', map Done rsps)"
  shows "\<exists>js A'. mset js = mset [0..<length qs] \<and> account_rel up store P S' A' \<and>
    spec_calls (map (\<lambda>i. Register (qs ! i)) js) A = (map (\<lambda>i. MRegisterRsp (rsps ! i)) js, A')"
  by (rule server_env.registrations_linearize [OF assms])

text \<open>Eve's registration overtakes Bob's.\<close>

theorem concurrent_registrations_linearize_witness:
  "\<exists>S' js A'. interleaves redis_ref (server0, [register_prog protobuf_ref register_bob, register_prog protobuf_ref register_eve])
      (S', [Done (register_rsp register_bob REGISTER_SUCCEED), Done (register_rsp register_eve REGISTER_SUCCEED)]) \<and>
    mset js = {#0, 1#} \<and> account_rel (\<lambda>_. True) (\<lambda>m. m) protobuf_ref S' A' \<and>
    snd (spec_calls (map (\<lambda>i. Register ([register_bob, register_eve] ! i)) js) accounts0) = A'"
proof -
  let ?qs = "[register_bob, register_eve]" and ?is = "[0, 1, 1, 1, 0, 0, 1, 0]"
  let ?rsps = "[register_rsp register_bob REGISTER_SUCCEED, register_rsp register_eve REGISTER_SUCCEED]"
  have "admissible ?is (accounts0, map Asking ?qs)" "list_all (phase_ok wire_ok_ref) (map Asking ?qs)"
      "acc_gid accounts0 + int (ids_left (map Asking ?qs)) < 2 ^ 63"
      "snd (run_schedule ?is (accounts0, map Asking ?qs)) = map Answered ?rsps"
    by (simp_all add: account_examples ids_left_def c_str_def)
  then obtain S' where run: "interleaves redis_ref (server0, map (register_prog protobuf_ref) ?qs) (S', map Done ?rsps)"
    using env_ref.schedule_realised [OF account_rel0, of "map Asking ?qs" ?is] by auto
  have "distinct (map (\<lambda>q. c_str (rq_account q)) ?qs)" "list_all (\<lambda>q. name_ok wire_ok_ref (rq_account q)) ?qs"
      "acc_gid accounts0 + int (length ?qs) < 2 ^ 63"
    by (simp_all add: account_examples c_str_def)
  from concurrent_registrations_linearize [OF env_ref_laws account_rel0 this run] obtain js A' where
    "mset js = mset [0..<length ?qs]" "account_rel (\<lambda>_. True) (\<lambda>m. m) protobuf_ref S' A'"
    "spec_calls (map (\<lambda>i. Register (?qs ! i)) js) accounts0 = (map (\<lambda>i. MRegisterRsp (?rsps ! i)) js, A')" by blast
  with run show ?thesis by (intro exI [of _ S'] exI [of _ js] exI [of _ A']) simp
qed

text \<open>
  C19: an account can be registered twice at the same time. Two registrations of a free name
  that run one after the other end with success and \<open>ACCOUNT_ALREADY_EXIST\<close>, but there is a
  schedule of their commands in which both report success; the password stored then is that
  of the second, so the first client holds a confirmed account it cannot log in to.
\<close>

theorem concurrent_registrations_both_succeed:
  assumes "server_env R up store P wire_ok" and "account_rel up store P S A"
    and "acc_password A (c_str (rq_account q1)) = None" and "rq_account q2 = rq_account q1"
    and "name_ok wire_ok (rq_account q1)" and "acc_gid A + 2 < 2 ^ 63"
  shows "(\<exists>S'. bind_act (exec R (register_prog P q1)) (\<lambda>r1. bind_act (exec R (register_prog P q2)) (\<lambda>r2. ret_act (r1, r2))) S =
      (Inr (register_rsp q1 REGISTER_SUCCEED, register_rsp q2 ACCOUNT_ALREADY_EXIST), S')) \<and>
    (\<exists>S'. interleaves R (S, [register_prog P q1, register_prog P q2])
        (S', [Done (register_rsp q1 REGISTER_SUCCEED), Done (register_rsp q2 REGISTER_SUCCEED)]) \<and>
      db store S' (''__password_'' @ c_str (rq_account q1)) = Some (c_str (rq_password q2)))"
  using server_env.one_after_the_other [OF assms] server_env.registration_race [OF assms] by blast

theorem concurrent_registrations_both_succeed_witness:
  "\<exists>S'. interleaves redis_ref (server0, [register_prog protobuf_ref register_bob,
        register_prog protobuf_ref (register_bob\<lparr>rq_password := ''other''\<rparr>)])
      (S', [Done (register_rsp register_bob REGISTER_SUCCEED),
        Done (register_rsp (register_bob\<lparr>rq_password := ''other''\<rparr>) REGISTER_SUCCEED)]) \<and>
    db (\<lambda>m. m) S' ''__password_bob'' = Some ''other''"
proof -
  have "acc_password accounts0 (c_str (rq_account register_bob)) = None" "name_ok wire_ok_ref (rq_account register_bob)"
      "acc_gid accounts0 + 2 < 2 ^ 63" "c_str (rq_account register_bob) = ''bob''" "c_str ''other'' = ''other''"
    by (simp_all add: account_examples c_str_def)
  with concurrent_registrations_both_succeed [OF env_ref_laws account_rel0, of register_bob
      "register_bob\<lparr>rq_password := ''other''\<rparr>"] show ?thesis by simp
qed

end
