(* ===== verification/Concurrent_Tasks.thy ===== *)
theory Concurrent_Tasks
  imports Requests
begin

text \<open>
  Updates of task progress at the same time. An update reads the stored progress and writes
  it back with two redis commands, so of two updates of one player the first can be lost.
\<close>

section \<open>An update as two commands\<close>

text \<open>
  The update of the player \<open>gid\<close> on a copy of the shared task manager, which is empty: what
  it sends once it has the stored progress.
\<close>

definition update_write :: "protobuf \<Rightarrow> i32 \<Rightarrow> TaskUpdateReq \<Rightarrow> DBTaskInfo \<Rightarrow> ('addr, 'c, TaskUpdateRsp) thread" where
  "update_write P gid request task_info =
     (case i32_of_double (tu_position_x request) of
        Inl e \<Rightarrow> Abort e
      | Inr x \<Rightarrow> (case i32_of_double (tu_position_y request) of
          Inl e \<Rightarrow> Abort e
        | Inr y \<Rightarrow>
            Cmd ''set __taskinfo_%s %b'' [ArgS (c_str (to_string (sint gid))),
              ArgB (SerializeToString P (MDBTaskInfo
                \<lparr>tasks = finish_tasks (finished_task_ids request) (tasks task_info),
                 db_position_x = x, db_position_y = y\<rparr>))] (\<lambda>reply.
              Done (task_update_rsp request TASK_SUCCEED))))"

lemma update_player_empty:
  "update_player P new_TaskDataManager gid request =
     Cmd ''get __taskinfo_%s'' [ArgS (c_str (to_string (sint gid)))] (\<lambda>reply.
       if rtype reply = REDIS_REPLY_NIL then update_write P gid request empty_DBTaskInfo
       else (case as_DBTaskInfo (snd (ParseFromArray P TDBTaskInfo (str reply))) of
           None \<Rightarrow> Abort BadCast
         | Some task_info \<Rightarrow> update_write P gid request task_info))"
  by (auto simp: update_player_def pull_task_prog_def push_task_prog_def TaskInfoExist_def GetTaskInfo_def SetTaskInfo_def
      new_TaskDataManager_def update_write_def lift_prog_def send_def prog_norm fun_eq_iff if_distrib cong: if_cong
      split: option.splits sum.splits)

section \<open>Concurrent updates of task progress\<close>

text \<open>The entry an update writes back when it has read the stored progress.\<close>

definition read_tasks :: "('c \<Rightarrow> string \<Rightarrow> string option) \<Rightarrow> protobuf \<Rightarrow> ('addr, 'c) server \<Rightarrow> i32 \<Rightarrow> DBTaskInfo" where
  "read_tasks store P S gid =
     (case db store S (task_key gid) of
        None \<Rightarrow> empty_DBTaskInfo
      | Some s \<Rightarrow> (case snd (ParseFromArray P TDBTaskInfo s) of MDBTaskInfo t \<Rightarrow> t | _ \<Rightarrow> empty_DBTaskInfo))"

context server_env
begin

lemma update_read:
  "(if rtype (reply_get (db store S (task_key gid))) = REDIS_REPLY_NIL then update_write P gid req empty_DBTaskInfo
      else (case as_DBTaskInfo (snd (ParseFromArray P TDBTaskInfo (str (reply_get (db store S (task_key gid)))))) of
         None \<Rightarrow> Abort BadCast | Some task_info \<Rightarrow> update_write P gid req task_info))
      = update_write P gid req (read_tasks store P S gid)"
proof (cases "db store S (task_key gid)")
  case (Some s)
  obtain t where "snd (ParseFromArray P TDBTaskInfo s) = MDBTaskInfo t" using parse_DBTaskInfo by blast
  with Some show ?thesis by (simp add: read_tasks_def reply_get_def reply_string_def as_DBTaskInfo_def)
qed (simp add: read_tasks_def reply_get_def)

lemma update_get:
  assumes "db_connected up S" and "i < length ts" and "ts ! i = update_player P new_TaskDataManager gid req"
  shows "\<exists>S'. thread_step R (S, ts) (S', ts[i := update_write P gid req (read_tasks store P S gid)]) \<and>
    db_connected up S' \<and> db store S' = db store S"
proof -
  obtain S1 where S1: "redis_cmd R ''get __taskinfo_%s'' [ArgS (c_str (to_string (sint gid)))] S
      = (Inr (reply_get (db store S (task_key gid))), S1)" "db_connected up S1" "db store S1 = db store S"
    using redis_get [OF assms(1), of "''__taskinfo_''" "c_str (to_string (sint gid))"] by (auto simp: task_key_def)
  note step = thread_reply [OF assms(2) assms(3) [unfolded update_player_empty] S1(1)]
  show ?thesis by (rule exI [of _ S1]) (use step [unfolded update_read] S1(2,3) in simp)
qed

lemma update_set:
  assumes "db_connected up S" and "i < length ts" and "ts ! i = update_write P gid req t"
    and "i32_of_double (tu_position_x req) = Inr x" "i32_of_double (tu_position_y req) = Inr y"
  shows "\<exists>S'. thread_step R (S, ts) (S', ts[i := Done (task_update_rsp req TASK_SUCCEED)]) \<and> db_connected up S' \<and>
    db store S' = (db store S)(task_key gid \<mapsto> SerializeToString P (MDBTaskInfo
      \<lparr>tasks = finish_tasks (finished_task_ids req) (tasks t), db_position_x = x, db_position_y = y\<rparr>))"
proof -
  let ?v = "SerializeToString P (MDBTaskInfo
      \<lparr>tasks = finish_tasks (finished_task_ids req) (tasks t), db_position_x = x, db_position_y = y\<rparr>)"
  obtain S1 where S1: "redis_cmd R ''set __taskinfo_%s %b'' [ArgS (c_str (to_string (sint gid))), ArgB ?v] S = (Inr reply_status, S1)"
      "db_connected up S1" "db store S1 = (db store S)(task_key gid \<mapsto> ?v)"
    using redis_set_b [OF assms(1), of "''__taskinfo_''" "c_str (to_string (sint gid))" ?v] by (auto simp: task_key_def)
  have "ts ! i = Cmd ''set __taskinfo_%s %b'' [ArgS (c_str (to_string (sint gid))), ArgB ?v]
      (\<lambda>reply. Done (task_update_rsp req TASK_SUCCEED))"
    using assms(3-5) by (simp add: update_write_def)
  from thread_reply [OF assms(2) this S1(1)] S1(2,3) show ?thesis by auto
qed

lemma read_tasks_progress:
  "distinct (map fst (tasks (read_tasks store P S gid))) \<and>
   map_of (tasks (read_tasks store P S gid)) = (case task_view store P S gid of None \<Rightarrow> Map.empty | Some (m, _) \<Rightarrow> m)"
proof (cases "db store S (task_key gid)")
  case None
  then show ?thesis by (simp add: read_tasks_def task_view_def empty_DBTaskInfo_def)
next
  case (Some s)
  obtain t where "snd (ParseFromArray P TDBTaskInfo s) = MDBTaskInfo t" "distinct (map fst (tasks t))"
    using parse_DBTaskInfo by blast
  with Some show ?thesis by (simp add: read_tasks_def task_view_def as_DBTaskInfo_def progress_of_def)
qed

lemma update_race:
  assumes c: "db_connected up S"
    and xy1: "i32_of_double (tu_position_x q1) = Inr x1" "i32_of_double (tu_position_y q1) = Inr y1"
    and xy2: "i32_of_double (tu_position_x q2) = Inr x2" "i32_of_double (tu_position_y q2) = Inr y2"
    and cap: "task_capacity wire_ok n"
      "card (dom (fst (update_progress (finished_task_ids q2) x2 y2 (task_view store P S gid)))) \<le> n"
  shows "\<exists>S'. interleaves R (S, [update_player P new_TaskDataManager gid q1, update_player P new_TaskDataManager gid q2])
      (S', [Done (task_update_rsp q1 TASK_SUCCEED), Done (task_update_rsp q2 TASK_SUCCEED)]) \<and>
    task_view store P S' gid = Some (update_progress (finished_task_ids q2) x2 y2 (task_view store P S gid))"
proof -
  let ?t = "read_tasks store P S gid"
  let ?new = "\<lparr>tasks = finish_tasks (finished_task_ids q2) (tasks ?t), db_position_x = x2, db_position_y = y2\<rparr>"
  obtain S1 where S1: "thread_step R (S, [update_player P new_TaskDataManager gid q1, update_player P new_TaskDataManager gid q2])
      (S1, [update_write P gid q1 ?t, update_player P new_TaskDataManager gid q2])" "db_connected up S1" "db store S1 = db store S"
    using update_get [OF c, of 0 "[update_player P new_TaskDataManager gid q1, update_player P new_TaskDataManager gid q2]" gid q1] by auto
  have "read_tasks store P S1 gid = ?t" using S1(3) by (simp add: read_tasks_def)
  then obtain S2 where S2: "thread_step R (S1, [update_write P gid q1 ?t, update_player P new_TaskDataManager gid q2])
      (S2, [update_write P gid q1 ?t, update_write P gid q2 ?t])" "db_connected up S2" "db store S2 = db store S"
    using update_get [OF S1(2), of 1 "[update_write P gid q1 ?t, update_player P new_TaskDataManager gid q2]" gid q2] S1(3) by auto
  obtain S3 where S3: "thread_step R (S2, [update_write P gid q1 ?t, update_write P gid q2 ?t])
      (S3, [Done (task_update_rsp q1 TASK_SUCCEED), update_write P gid q2 ?t])" "db_connected up S3"
    using update_set [OF S2(2), of 0 "[update_write P gid q1 ?t, update_write P gid q2 ?t]" gid q1 ?t x1 y1] xy1 by auto
  obtain S4 where S4: "thread_step R (S3, [Done (task_update_rsp q1 TASK_SUCCEED), update_write P gid q2 ?t])
      (S4, [Done (task_update_rsp q1 TASK_SUCCEED), Done (task_update_rsp q2 TASK_SUCCEED)])"
      "db store S4 = (db store S3)(task_key gid \<mapsto> SerializeToString P (MDBTaskInfo ?new))"
    using update_set [OF S3(2), of 1 "[Done (task_update_rsp q1 TASK_SUCCEED), update_write P gid q2 ?t]" gid q2 ?t x2 y2] xy2
    by auto
  have p: "progress_of ?new = update_progress (finished_task_ids q2) x2 y2 (task_view store P S gid)"
    using read_tasks_progress [of S gid] by (simp add: progress_of_def update_progress_def map_of_finish_tasks)
  have "task_storable wire_ok gid ?new"
    using cap read_tasks_progress [of S gid] length_distinct_map_of [of "tasks ?new"] arg_cong [OF p, of fst]
    by (simp add: task_storable_def task_capacity_def progress_of_def)
  from task_view_pushed [OF this S4(2)] p have "task_view store P S4 gid = Some (update_progress (finished_task_ids q2) x2 y2
      (task_view store P S gid))" by simp
  with S1(1) S2(1) S3(1) S4(1) show ?thesis by (meson converse_rtranclp_into_rtranclp rtranclp.rtrancl_refl)
qed

end

section \<open>Property\<close>

definition update_one :: TaskUpdateReq where
  "update_one = \<lparr>tu_rpcid = 1, finished_task_ids = [1], tu_position_x = Finite 3, tu_position_y = Finite 4\<rparr>"

definition update_two :: TaskUpdateReq where
  "update_two = \<lparr>tu_rpcid = 2, finished_task_ids = [2], tu_position_x = Finite 5, tu_position_y = Finite 6\<rparr>"

text \<open>
  C20: a concurrent update of task progress is lost. There is a schedule of two updates by the
  same player in which both are answered with success, but the stored progress is what the
  second update alone would have made of the progress before: the tasks finished in the first
  one are not finished.
\<close>

theorem concurrent_update_is_lost:
  assumes "server_env R up store P wire_ok" and "db_connected up S"
    and "i32_of_double (tu_position_x q1) = Inr x1" and "i32_of_double (tu_position_y q1) = Inr y1"
    and "i32_of_double (tu_position_x q2) = Inr x2" and "i32_of_double (tu_position_y q2) = Inr y2"
    and "task_capacity wire_ok n"
    and "card (dom (fst (update_progress (finished_task_ids q2) x2 y2 (task_view store P S gid)))) \<le> n"
  shows "\<exists>S'. interleaves R (S, [update_player P new_TaskDataManager gid q1, update_player P new_TaskDataManager gid q2])
      (S', [Done (task_update_rsp q1 TASK_SUCCEED), Done (task_update_rsp q2 TASK_SUCCEED)]) \<and>
    task_view store P S' gid = Some (update_progress (finished_task_ids q2) x2 y2 (task_view store P S gid))"
  by (rule server_env.update_race [OF assms])

lemma update_positions:
  "i32_of_double (tu_position_x update_one) = Inr 3" "i32_of_double (tu_position_y update_one) = Inr 4"
  "i32_of_double (tu_position_x update_two) = Inr 5" "i32_of_double (tu_position_y update_two) = Inr 6"
  by (simp_all add: update_one_def update_two_def truncate_rat_def Let_def)

lemma no_task_stored: "task_view (\<lambda>m. m) protobuf_ref server0 = (\<lambda>gid. None)"
  by (simp add: task_view_def db_def server0_def fun_eq_iff)

text \<open>The player of the empty role finishes the tasks 1 and 2; only task 2 is stored.\<close>

theorem concurrent_update_is_lost_witness:
  "\<exists>S'. interleaves redis_ref (server0, [update_player protobuf_ref new_TaskDataManager 0 update_one, update_player protobuf_ref new_TaskDataManager 0 update_two])
      (S', [Done (task_update_rsp update_one TASK_SUCCEED), Done (task_update_rsp update_two TASK_SUCCEED)]) \<and>
    task_view (\<lambda>m. m) protobuf_ref S' 0 = Some ([2 \<mapsto> FINISH], 5, 6)"
proof -
  have new: "update_progress (finished_task_ids update_two) 5 6 (task_view (\<lambda>m. m) protobuf_ref server0 0) = ([2 \<mapsto> FINISH], 5, 6)"
    by (auto simp: no_task_stored update_progress_def update_two_def fun_eq_iff)
  then show ?thesis
    using concurrent_update_is_lost [OF env_ref_laws server0_connected update_positions, of 100 0] by (simp add: task_capacity_def)
qed

end
