(* ===== verification/Task_Sessions.thy ===== *)
theory Task_Sessions
  imports Concurrent_Tasks Concurrent_Requests
begin

text \<open>
  Players who are logged in and work on their tasks at the same time. Each connection sends
  queries and updates in any order; as long as the players are different, every schedule gives
  each of them the answers of a server of its own.
\<close>

section \<open>A session of one player\<close>

text \<open>
  The specification: the progress of the player, what a request makes of it and which
  answers it may have. A query may list the finished tasks in any order.
\<close>

definition task_request :: "CmdMessagePair \<Rightarrow> bool" where
  "task_request x \<longleftrightarrow> (\<exists>q. x = (CMD_QUERY_TASK, MTaskQueryReq q)) \<or> (\<exists>q. x = (CMD_UPDATE_TASK, MTaskUpdateReq q) \<and> in_range q)"

definition task_next :: "CmdMessagePair \<Rightarrow> progress option \<Rightarrow> progress option" where
  "task_next x V = (case snd x of
     MTaskUpdateReq q \<Rightarrow> Some (update_progress (finished_task_ids q) (pos (tu_position_x q)) (pos (tu_position_y q)) V)
   | _ \<Rightarrow> V)"

definition query_answer :: "TaskQueryReq \<Rightarrow> progress option \<Rightarrow> TaskQueryRsp \<Rightarrow> bool" where
  "query_answer q V rsp = (case V of
     None \<Rightarrow> rsp = task_query_rsp q TASK_UNKOWN_EORROR [] (Finite 0) (Finite 0)
   | Some (m, x, y) \<Rightarrow> \<exists>ids. distinct ids \<and> set ids = {i. m i = Some FINISH} \<and>
       rsp = task_query_rsp q TASK_SUCCEED ids (double_of_i32 x) (double_of_i32 y))"

definition task_answer :: "progress option \<Rightarrow> CmdMessagePair \<Rightarrow> CmdMessagePair \<Rightarrow> bool" where
  "task_answer V x y \<longleftrightarrow> fst y = fst x \<and> (case snd x of
     MTaskUpdateReq q \<Rightarrow> snd y = MTaskUpdateRsp (task_update_rsp q TASK_SUCCEED)
   | MTaskQueryReq q \<Rightarrow> \<exists>rsp. snd y = MTaskQueryRsp rsp \<and> query_answer q V rsp
   | _ \<Rightarrow> False)"

fun task_session :: "progress option \<Rightarrow> CmdMessagePair list \<Rightarrow> CmdMessagePair list \<Rightarrow> bool" where
  "task_session V [] rsps \<longleftrightarrow> rsps = []"
| "task_session V (x # msgs) rsps \<longleftrightarrow>
     (case rsps of [] \<Rightarrow> False | y # ys \<Rightarrow> task_answer V x y \<and> task_session (task_next x V) msgs ys)"

text \<open>The tasks in the progress, and the ones a request may add.\<close>

definition task_count :: "progress option \<Rightarrow> nat" where
  "task_count V = (case V of None \<Rightarrow> 0 | Some (m, _) \<Rightarrow> card (dom m))"

definition adds_tasks :: "CmdMessagePair \<Rightarrow> nat" where
  "adds_tasks x = (case snd x of MTaskUpdateReq q \<Rightarrow> length (finished_task_ids q) | _ \<Rightarrow> 0)"

lemma task_count_next: "task_count (task_next x V) \<le> task_count V + adds_tasks x"
  using card_update_progress [of _ _ _ V]
  by (auto simp: task_count_def task_next_def adds_tasks_def case_prod_beta split: Message.splits)

section \<open>Threads of different players\<close>

text \<open>The player of a logged-in connection.\<close>

definition player_of :: "('addr, 'c) server \<Rightarrow> 'addr \<Rightarrow> i32" where
  "player_of S a = player S (the (roles S a))"

definition logged_in :: "('addr, 'c) server \<Rightarrow> 'addr \<Rightarrow> bool" where
  "logged_in S a \<longleftrightarrow> (\<exists>p. roles S a = Some p \<and> p < length (role_heap S))"

text \<open>
  The ghost of a thread: its player, the progress and the requests it started with, and the
  progress it has now, which is the one in the database.
\<close>

record task_job =
  job_player :: i32
  job_start :: "progress option"
  job_msgs :: "CmdMessagePair list"
  job_progress :: "progress option"

definition job_of :: "task_job \<Rightarrow> i32 \<times> progress option \<times> CmdMessagePair list" where
  "job_of g = (job_player g, job_start g, job_msgs g)"

definition jobs_ok ::
  "('c \<Rightarrow> bool) \<Rightarrow> ('c \<Rightarrow> string \<Rightarrow> string option) \<Rightarrow> protobuf \<Rightarrow> ('addr, 'c) server
     \<Rightarrow> (i32 \<times> progress option \<times> CmdMessagePair list) list \<Rightarrow> task_job list \<Rightarrow> ('addr, 'c) server \<Rightarrow> bool" where
  "jobs_ok up store P S0 js gs S \<longleftrightarrow> db_connected up S \<and> same_roles S0 S \<and> map job_of gs = js \<and>
     (\<forall>g\<in>set gs. task_view store P S (job_player g) = job_progress g) \<and>
     (\<forall>k. k \<notin> fst ` set js \<longrightarrow> task_view store P S k = task_view store P S0 k)"

definition job_done :: "task_job \<Rightarrow> error + CmdMessagePair list \<Rightarrow> bool" where
  "job_done g r \<longleftrightarrow> (\<exists>rsps. r = Inr rsps \<and> task_session (job_start g) (job_msgs g) rsps \<and>
     job_progress g = fold task_next (job_msgs g) (job_start g))"

abbreviation working ::
  "'c hiredis \<Rightarrow> ('c \<Rightarrow> bool) \<Rightarrow> ('c \<Rightarrow> string \<Rightarrow> string option) \<Rightarrow> protobuf \<Rightarrow> ('addr, 'c) server
     \<Rightarrow> (i32 \<times> progress option \<times> CmdMessagePair list) list \<Rightarrow> task_job \<Rightarrow> ('addr, 'c, CmdMessagePair list) thread \<Rightarrow> bool" where
  "working R up store P S0 js \<equiv> safe R (jobs_ok up store P S0 js) job_done"

lemma jobs_okD:
  assumes "jobs_ok up store P S0 js gs S"
  shows "db_connected up S" and "same_roles S0 S" and "map job_of gs = js"
    and "i < length gs \<Longrightarrow> task_view store P S (job_player (gs ! i)) = job_progress (gs ! i)"
    and "k \<notin> fst ` set js \<Longrightarrow> task_view store P S k = task_view store P S0 k"
  using assms by (simp_all add: jobs_ok_def)

lemma jobs_ok_quiet:
  assumes "jobs_ok up store P S0 js gs S" and "db_connected up S'" and "db store S' = db store S" and "same_roles S S'"
  shows "jobs_ok up store P S0 js gs S'"
proof -
  have "task_view store P S' = task_view store P S" using assms(3) by (simp add: task_view_def fun_eq_iff)
  moreover have "same_roles S0 S'" using jobs_okD(2) [OF assms(1)] assms(4) by (simp add: same_roles_def)
  ultimately show ?thesis using assms(1,2) by (simp add: jobs_ok_def)
qed

lemma jobs_ok_written:
  assumes ok: "jobs_ok up store P S0 js gs S" and js: "distinct (map fst js)" and i: "i < length gs"
    and S': "db_connected up S'" "same_roles S S'" "task_view store P S' = (task_view store P S)(job_player (gs ! i) \<mapsto> v)"
  shows "jobs_ok up store P S0 js (gs[i := (gs ! i)\<lparr>job_progress := Some v\<rparr>]) S'"
proof -
  let ?g = "(gs ! i)\<lparr>job_progress := Some v\<rparr>"
  have len: "length gs = length js" using arg_cong [OF jobs_okD(3) [OF ok], of length] by simp
  have players: "map fst js = map job_player gs" by (simp add: jobs_okD(3) [OF ok, symmetric] job_of_def comp_def)
  have "map job_of (gs[i := ?g]) = (map job_of gs)[i := job_of (gs ! i)]" by (simp add: map_update job_of_def)
  also have "\<dots> = (map job_of gs)[i := map job_of gs ! i]" using i by simp
  also have "\<dots> = js" unfolding list_update_id by (rule jobs_okD(3) [OF ok])
  finally have "map job_of (gs[i := ?g]) = js" .
  moreover have "task_view store P S' (job_player (gs[i := ?g] ! j)) = job_progress (gs[i := ?g] ! j)" if j: "j < length gs" for j
  proof (cases "j = i")
    case False
    then have "job_player (gs ! j) \<noteq> job_player (gs ! i)"
      using js i j unfolding players by (simp add: distinct_conv_nth)
    with False jobs_okD(4) [OF ok j] show ?thesis by (simp add: S'(3))
  qed (use i S'(3) in simp)
  moreover have "task_view store P S' k = task_view store P S0 k" if k: "k \<notin> fst ` set js" for k
  proof -
    have "job_player (gs ! i) \<in> fst ` set js" using i by (metis length_map list.set_map nth_map nth_mem players)
    with k have "k \<noteq> job_player (gs ! i)" by blast
    with jobs_okD(5) [OF ok k] show ?thesis by (simp add: S'(3))
  qed
  moreover have "same_roles S0 S'" using jobs_okD(2) [OF ok] S'(2) by (simp add: same_roles_def)
  ultimately show ?thesis using S'(1) unfolding jobs_ok_def by (auto simp: in_set_conv_nth)
qed

lemma working_local:
  assumes "\<And>S. same_roles S0 S \<Longrightarrow> m S = (Inr x, S)" and "working R up store P S0 js g (f x)"
  shows "working R up store P S0 js g (bind_prog (atomic m) f)"
proof (rule safe_section_ok)
  fix gs i S
  assume a: "jobs_ok up store P S0 js gs S" "i < length gs" "gs ! i = g"
  have "gs[i := g] = gs" using a(3) by auto
  with assms(1) [OF jobs_okD(2) [OF a(1)]] assms(2) a(1)
  show "\<exists>y S' g'. m S = (Inr y, S') \<and> jobs_ok up store P S0 js (gs[i := g']) S' \<and> working R up store P S0 js g' (f y)"
    by (intro exI [of _ x] exI [of _ S] exI [of _ g]) simp
qed

context server_env
begin

lemma working_get:
  fixes k :: "redisReply \<Rightarrow> ('addr, 'c, CmdMessagePair list) thread"
  assumes gid: "gid = job_player g" and none: "job_progress g = None \<Longrightarrow> working R up store P S0 js g (k reply_nil)"
    and some: "\<And>s t. snd (ParseFromArray P TDBTaskInfo s) = MDBTaskInfo t \<Longrightarrow> distinct (map fst (tasks t)) \<Longrightarrow>
      job_progress g = Some (progress_of t) \<Longrightarrow> working R up store P S0 js g (k (reply_string s))"
  shows "working R up store P S0 js g (Cmd ''get __taskinfo_%s'' [ArgS (c_str (to_string (sint gid)))] k)"
proof (rule safe_Cmd_ok)
  fix gs i and S :: "('addr, 'c) server"
  assume a: "jobs_ok up store P S0 js gs S" "i < length gs" "gs ! i = g"
  let ?v = "db store S (task_key gid)"
  obtain S1 where S1: "redis_cmd R ''get __taskinfo_%s'' [ArgS (c_str (to_string (sint gid)))] S = (Inr (reply_get ?v), S1)"
      "db_connected up S1" "db store S1 = db store S" "same_roles S S1"
    using redis_get [OF jobs_okD(1) [OF a(1)], of "''__taskinfo_''" "c_str (to_string (sint gid))"] by (auto simp: task_key_def)
  have view: "task_view store P S gid = job_progress g" using jobs_okD(4) [OF a(1,2)] a(3) gid by simp
  have "working R up store P S0 js g (k (reply_get ?v))"
  proof (cases ?v)
    case None
    with view none show ?thesis by (simp add: task_view_def reply_get_def)
  next
    case (Some s)
    obtain t where t: "snd (ParseFromArray P TDBTaskInfo s) = MDBTaskInfo t" "distinct (map fst (tasks t))"
      using parse_DBTaskInfo by blast
    then have "job_progress g = Some (progress_of t)" using view Some by (simp add: task_view_def as_DBTaskInfo_def)
    with some [OF t] Some show ?thesis by (simp add: reply_get_def)
  qed
  moreover have "gs[i := g] = gs" using a(3) by auto
  ultimately show "\<exists>reply S' g'. redis_cmd R ''get __taskinfo_%s'' [ArgS (c_str (to_string (sint gid)))] S = (Inr reply, S') \<and>
      jobs_ok up store P S0 js (gs[i := g']) S' \<and> working R up store P S0 js g' (k reply)"
    using S1(1) jobs_ok_quiet [OF a(1) S1(2-4)]
    by (intro exI [of _ "reply_get ?v"] exI [of _ S1] exI [of _ g]) simp
qed

lemma working_set:
  fixes k :: "redisReply \<Rightarrow> ('addr, 'c, CmdMessagePair list) thread"
  assumes js: "distinct (map fst js)" and gid: "gid = job_player g" and wire: "task_storable wire_ok gid t"
    and k: "working R up store P S0 js (g\<lparr>job_progress := Some (progress_of t)\<rparr>) (k reply_status)"
  shows "working R up store P S0 js g
    (Cmd ''set __taskinfo_%s %b'' [ArgS (c_str (to_string (sint gid))), ArgB (SerializeToString P (MDBTaskInfo t))] k)"
proof (rule safe_Cmd_ok)
  fix gs i and S :: "('addr, 'c) server"
  assume a: "jobs_ok up store P S0 js gs S" "i < length gs" "gs ! i = g"
  let ?v = "SerializeToString P (MDBTaskInfo t)"
  obtain S1 where S1: "redis_cmd R ''set __taskinfo_%s %b'' [ArgS (c_str (to_string (sint gid))), ArgB ?v] S = (Inr reply_status, S1)"
      "db_connected up S1" "db store S1 = (db store S)(task_key gid \<mapsto> ?v)" "same_roles S S1"
    using redis_set_b [OF jobs_okD(1) [OF a(1)], of "''__taskinfo_''" "c_str (to_string (sint gid))" ?v] by (auto simp: task_key_def)
  have "task_view store P S1 = (task_view store P S)(job_player (gs ! i) \<mapsto> progress_of t)"
    using task_view_pushed [OF wire S1(3)] a(3) gid by simp
  from jobs_ok_written [OF a(1) js a(2) S1(2,4) this] a(3) S1(1) k
  show "\<exists>reply S' g'. redis_cmd R ''set __taskinfo_%s %b'' [ArgS (c_str (to_string (sint gid))), ArgB ?v] S = (Inr reply, S') \<and>
      jobs_ok up store P S0 js (gs[i := g']) S' \<and> working R up store P S0 js g' (k reply)"
    by (intro exI [of _ reply_status] exI [of _ S1] exI [of _ "g\<lparr>job_progress := Some (progress_of t)\<rparr>"]) simp
qed

section \<open>Queries and updates\<close>

lemma working_update:
  assumes js: "distinct (map fst js)" and gid: "gid = job_player g" and q: "in_range q"
    and cap: "task_capacity wire_ok n" "task_count (job_progress g) + length (finished_task_ids q) \<le> n"
    and f: "working R up store P S0 js (g\<lparr>job_progress := task_next (c, MTaskUpdateReq q) (job_progress g)\<rparr>) (f (task_update_rsp q TASK_SUCCEED))"
  shows "working R up store P S0 js g (bind_prog (update_player P new_TaskDataManager gid q) f)"
proof -
  have stored: "working R up store P S0 js g (bind_prog (update_write P gid q t) f)"
    if t: "distinct (map fst (tasks t))" "map_of (tasks t) = (case job_progress g of None \<Rightarrow> Map.empty | Some (m, _) \<Rightarrow> m)" for t
  proof -
    let ?new = "\<lparr>tasks = finish_tasks (finished_task_ids q) (tasks t),
        db_position_x = pos (tu_position_x q), db_position_y = pos (tu_position_y q)\<rparr>"
    have p: "progress_of ?new = update_progress (finished_task_ids q) (pos (tu_position_x q)) (pos (tu_position_y q)) (job_progress g)"
      using t by (simp add: progress_of_def update_progress_def map_of_finish_tasks)
    have "card (dom (fst (progress_of ?new))) \<le> n"
      unfolding p using cap(2) card_update_progress [of "finished_task_ids q" "pos (tu_position_x q)" "pos (tu_position_y q)" "job_progress g"]
      by (simp add: task_count_def)
    then have "length (tasks ?new) \<le> n"
      using t(1) length_distinct_map_of [of "tasks ?new"] by (simp add: progress_of_def)
    then have wire: "task_storable wire_ok gid ?new"
      using cap(1) t(1) by (simp add: task_storable_def task_capacity_def)
    have "bind_prog (update_write P gid q t) f = Cmd ''set __taskinfo_%s %b''
        [ArgS (c_str (to_string (sint gid))), ArgB (SerializeToString P (MDBTaskInfo ?new))] (\<lambda>reply. f (task_update_rsp q TASK_SUCCEED))"
      using q by (simp add: update_write_def in_range_def)
    moreover have "Some (progress_of ?new) = task_next (c, MTaskUpdateReq q) (job_progress g)" by (simp add: p task_next_def)
    ultimately show ?thesis using working_set [OF js gid wire] f by simp
  qed
  show ?thesis
    unfolding update_player_empty bind_prog.simps
  proof (rule working_get [OF gid])
    fix s t
    assume "snd (ParseFromArray P TDBTaskInfo s) = MDBTaskInfo t" "distinct (map fst (tasks t))" "job_progress g = Some (progress_of t)"
    with stored [of t] show "working R up store P S0 js g
        (bind_prog (if rtype (reply_string s) = REDIS_REPLY_NIL then update_write P gid q empty_DBTaskInfo
          else case as_DBTaskInfo (snd (ParseFromArray P TDBTaskInfo (str (reply_string s)))) of
              None \<Rightarrow> Abort BadCast | Some t \<Rightarrow> update_write P gid q t) f)"
      by (simp add: reply_string_def as_DBTaskInfo_def progress_of_def)
  qed (use stored [of empty_DBTaskInfo] in \<open>simp add: empty_DBTaskInfo_def\<close>)
qed

lemma working_query:
  assumes gid: "gid = job_player g" and read: "\<And>S. same_roles S0 S \<Longrightarrow> read_role p S = (Inr r, S)" "player_id (basic_info r) = gid"
    and f: "\<And>rsp. query_answer q (job_progress g) rsp \<Longrightarrow> working R up store P S0 js g (f rsp)"
  shows "working R up store P S0 js g (bind_prog (query_prog P new_TaskDataManager p q) f)"
proof -
  have found: "working R up store P S0 js g (f (task_query_rsp q TASK_SUCCEED (map fst (filter (\<lambda>item. snd item = FINISH) (tasks t)))
      (double_of_i32 (db_position_x t)) (double_of_i32 (db_position_y t))))"
    if t: "distinct (map fst (tasks t))" "job_progress g = Some (progress_of t)" for t
  proof (rule f)
    show "query_answer q (job_progress g) (task_query_rsp q TASK_SUCCEED (map fst (filter (\<lambda>item. snd item = FINISH) (tasks t)))
        (double_of_i32 (db_position_x t)) (double_of_i32 (db_position_y t)))"
      using t(2) set_done_tasks [OF t(1)] distinct_map_filter [OF t(1), of "\<lambda>item. snd item = FINISH"]
      by (auto simp: query_answer_def progress_of_def)
  qed
  have none: "working R up store P S0 js g (f (task_query_rsp q TASK_UNKOWN_EORROR [] (Finite 0) (Finite 0)))" if "job_progress g = None"
    using f that by (simp add: query_answer_def)
  have body: "working R up store P S0 js g (bind_prog (bind_prog (pull_task_prog P gid new_TaskDataManager) (\<lambda>(ok, T).
      if \<not> ok then Done (task_query_rsp q TASK_UNKOWN_EORROR [] (Finite 0) (Finite 0))
      else Done (task_query_rsp q TASK_SUCCEED (map fst (filter (\<lambda>item. snd item = FINISH) (tasks (fst (GetTaskInfo gid T)))))
        (double_of_i32 (db_position_x (fst (GetTaskInfo gid T)))) (double_of_i32 (db_position_y (fst (GetTaskInfo gid T))))))) f)"
    unfolding pull_task_prog_def prog_norm
    by (rule working_get [OF gid])
      (use found none in \<open>auto simp: reply_string_def as_DBTaskInfo_def new_TaskDataManager_def GetTaskInfo_def\<close>)
  show ?thesis
    unfolding query_prog_def Let_def bind_prog_assoc
    by (rule working_local [OF read(1)], assumption, unfold read(2), rule body [unfolded bind_prog_assoc])
qed

lemma working_request:
  assumes js: "distinct (map fst js)" and a: "logged_in S0 a" "player_of S0 a = job_player g" and T: "task_manager S0 = new_TaskDataManager"
    and x: "task_request x" and cap: "task_capacity wire_ok n" "task_count (job_progress g) + adds_tasks x \<le> n"
    and f: "\<And>y. task_answer (job_progress g) x y \<Longrightarrow> working R up store P S0 js (g\<lparr>job_progress := task_next x (job_progress g)\<rparr>) (f y)"
  shows "working R up store P S0 js g (bind_prog (request_prog P a x) f)"
proof -
  obtain p where p: "roles S0 a = Some p" "p < length (role_heap S0)" using a(1) by (auto simp: logged_in_def)
  let ?r = "role_heap S0 ! p"
  have gid: "player_id (basic_info ?r) = job_player g" using a(2) p(1) by (simp add: player_of_def player_def)
  have role: "(\<lambda>S. (Inr (GetRole a S), S)) S = (Inr (Some p), S)" if "same_roles S0 S" for S
    using that p(1) by (simp add: same_roles_def GetRole_def)
  have copy: "copy_task_manager S = (Inr new_TaskDataManager, S)" if "same_roles S0 S" for S
    using that T by (simp add: same_roles_def copy_task_manager_def)
  have read: "read_role p S = (Inr ?r, S)" if "same_roles S0 S" for S
    using that p(2) by (simp add: same_roles_def read_role_def)
  from x consider (query) q where "x = (CMD_QUERY_TASK, MTaskQueryReq q)"
    | (update) q where "x = (CMD_UPDATE_TASK, MTaskUpdateReq q)" "in_range q" by (auto simp: task_request_def)
  then show ?thesis
  proof cases
    case query
    have body: "working R up store P S0 js g (bind_prog (query_prog P new_TaskDataManager p q) (\<lambda>rsp. f (CMD_QUERY_TASK, MTaskQueryRsp rsp)))"
    proof (rule working_query [OF refl read gid])
      show "working R up store P S0 js g (f (CMD_QUERY_TASK, MTaskQueryRsp rsp))" if "query_answer q (job_progress g) rsp" for rsp
        using f [of "(CMD_QUERY_TASK, MTaskQueryRsp rsp)"] that by (simp add: query task_answer_def task_next_def)
    qed
    show ?thesis
      unfolding request_prog_def service_prog_def decorated_def query
      by (simp add: cmd_ids bind_prog_assoc as_TaskQueryReq_def, rule working_local [OF role], assumption, simp add: bind_prog_assoc,
        rule working_local [OF copy], assumption) (use body in \<open>simp add: cmd_ids bind_prog_assoc\<close>)
  next
    case (update q)
    have "working R up store P S0 js g (bind_prog (update_player P new_TaskDataManager (job_player g) q) (\<lambda>rsp. f (CMD_UPDATE_TASK, MTaskUpdateRsp rsp)))"
    proof (rule working_update [OF js refl update(2) cap(1)])
      show "task_count (job_progress g) + length (finished_task_ids q) \<le> n" using cap(2) by (simp add: update(1) adds_tasks_def)
      show "working R up store P S0 js (g\<lparr>job_progress := task_next (CMD_UPDATE_TASK, MTaskUpdateReq q) (job_progress g)\<rparr>)
          (f (CMD_UPDATE_TASK, MTaskUpdateRsp (task_update_rsp q TASK_SUCCEED)))"
        using f [of "(CMD_UPDATE_TASK, MTaskUpdateRsp (task_update_rsp q TASK_SUCCEED))"] by (simp add: update(1) task_answer_def)
    qed
    then have body: "working R up store P S0 js g (bind_prog (update_prog P new_TaskDataManager p q) (\<lambda>rsp. f (CMD_UPDATE_TASK, MTaskUpdateRsp rsp)))"
      unfolding update_prog_def bind_prog_assoc by (intro working_local [OF read]) (simp_all add: gid)
    show ?thesis
      unfolding request_prog_def service_prog_def decorated_def update(1)
      by (simp add: cmd_ids bind_prog_assoc as_TaskUpdateReq_def, rule working_local [OF role], assumption, simp add: bind_prog_assoc,
        rule working_local [OF copy], assumption) (use body in \<open>simp add: cmd_ids bind_prog_assoc\<close>)
  qed
qed

lemma working_connection:
  assumes js: "distinct (map fst js)" and a: "logged_in S0 a" "player_of S0 a = job_player g" and T: "task_manager S0 = new_TaskDataManager"
    and cap: "task_capacity wire_ok n" and msgs: "list_all task_request msgs" "task_count (job_progress g) + sum_list (map adds_tasks msgs) \<le> n"
    and f: "\<And>rsps. task_session (job_progress g) msgs rsps \<Longrightarrow>
      working R up store P S0 js (g\<lparr>job_progress := fold task_next msgs (job_progress g)\<rparr>) (f rsps)"
  shows "working R up store P S0 js g (bind_prog (connection_prog P a msgs) f)"
  using a(2) msgs f
proof (induction msgs arbitrary: g f)
  case Nil
  then show ?case by simp
next
  case (Cons x msgs)
  let ?g = "g\<lparr>job_progress := task_next x (job_progress g)\<rparr>"
  have "working R up store P S0 js ?g (bind_prog (connection_prog P a msgs) (\<lambda>rsps. f (y # rsps)))"
    if "task_answer (job_progress g) x y" for y
  proof (rule Cons.IH)
    show "task_count (job_progress ?g) + sum_list (map adds_tasks msgs) \<le> n"
      using Cons.prems(3) task_count_next [of x "job_progress g"] by simp
    show "working R up store P S0 js (?g\<lparr>job_progress := fold task_next msgs (job_progress ?g)\<rparr>) (f (y # rsps))"
      if "task_session (job_progress ?g) msgs rsps" for rsps
      using Cons.prems(4) [of "y # rsps"] that \<open>task_answer (job_progress g) x y\<close> by simp
  qed (use Cons.prems(1,2) in simp_all)
  then show ?case
    unfolding connection_prog.simps bind_prog_assoc bind_prog.simps
    using Cons.prems(1,2,3) by (intro working_request [OF js a(1) _ T _ cap]) simp_all
qed

lemma task_pool:
  fixes S S' :: "('addr, 'c) server"
  assumes c: "db_connected up S" and T: "task_manager S = new_TaskDataManager"
    and conns: "list_all (\<lambda>(a, msgs). logged_in S a \<and> list_all task_request msgs \<and>
      task_count (task_view store P S (player_of S a)) + sum_list (map adds_tasks msgs) \<le> n) conns"
    and dist: "distinct (map (player_of S \<circ> fst) conns)" and cap: "task_capacity wire_ok n"
    and run: "interleaves R (S, map (\<lambda>(a, msgs). connection_prog P a msgs) conns) (S', ts)"
    and stuck: "\<nexists>Y. thread_step R (S', ts) Y"
  shows "\<exists>rspss. ts = map Done rspss \<and>
    list_all2 (\<lambda>(a, msgs) rsps. task_session (task_view store P S (player_of S a)) msgs rsps \<and>
      task_view store P S' (player_of S a) = fold task_next msgs (task_view store P S (player_of S a))) conns rspss \<and>
    (\<forall>k. k \<notin> player_of S ` fst ` set conns \<longrightarrow> task_view store P S' k = task_view store P S k)"
proof -
  let ?V = "\<lambda>a. task_view store P S (player_of S a)"
  let ?g = "\<lambda>a msgs. \<lparr>job_player = player_of S a, job_start = ?V a, job_msgs = msgs, job_progress = ?V a\<rparr>"
  let ?gs = "map (\<lambda>c. ?g (fst c) (snd c)) conns"
  let ?js = "map job_of ?gs"
  have players: "map fst ?js = map (player_of S \<circ> fst) conns" by (simp add: comp_def job_of_def)
  have js: "distinct (map fst ?js)" unfolding players by (rule dist)
  have ok: "jobs_ok up store P S ?js ?gs S" using c by (auto simp: jobs_ok_def same_roles_def)
  have one: "working R up store P S ?js (?g a msgs) (connection_prog P a msgs)"
    if "logged_in S a" "list_all task_request msgs" "task_count (?V a) + sum_list (map adds_tasks msgs) \<le> n" for a msgs
    using working_connection [OF js that(1) _ T cap that(2), where g = "?g a msgs" and f = Done] that(3)
    by (simp add: job_done_def)
  have "list_all2 (working R up store P S ?js) ?gs
      (map (\<lambda>(a, msgs). connection_prog P a msgs) conns :: ('addr, 'c, CmdMessagePair list) thread list)"
    using conns one by (auto simp: list_all2_conv_all_nth list_all_length case_prod_beta)
  from safe_pool [of R S _ S' ts "jobs_ok up store P S ?js", OF run ok this] obtain gs where
    gs: "jobs_ok up store P S ?js gs S'" "list_all2 (working R up store P S ?js) gs ts" by blast
  have len: "length gs = length conns" "length ts = length conns"
    using arg_cong [OF jobs_okD(3) [OF gs(1)], of length] list_all2_lengthD [OF gs(2)] by simp_all
  let ?rspss = "map (\<lambda>t. case t of Done x \<Rightarrow> x | _ \<Rightarrow> []) ts"
  have each: "ts ! i = Done (?rspss ! i) \<and> task_session (?V (fst (conns ! i))) (snd (conns ! i)) (?rspss ! i) \<and>
      task_view store P S' (player_of S (fst (conns ! i))) = fold task_next (snd (conns ! i)) (?V (fst (conns ! i)))"
    if i: "i < length conns" for i
  proof -
    have w: "working R up store P S ?js (gs ! i) (ts ! i)" using list_all2_nthD [OF gs(2), of i] i len by simp
    have "job_of (gs ! i) = job_of (?g (fst (conns ! i)) (snd (conns ! i)))"
      using arg_cong [OF jobs_okD(3) [OF gs(1)], of "\<lambda>xs. xs ! i"] i len by simp
    then have j: "job_player (gs ! i) = player_of S (fst (conns ! i))" "job_start (gs ! i) = ?V (fst (conns ! i))"
        "job_msgs (gs ! i) = snd (conns ! i)" by (simp_all add: job_of_def)
    from stuck_thread [OF stuck, of i] i len w obtain rsps where "ts ! i = Done rsps" "job_done (gs ! i) (Inr rsps)"
      by (auto simp: job_done_def)
    then show ?thesis using jobs_okD(4) [OF gs(1), of i] i len j by (simp add: job_done_def)
  qed
  have "ts = map Done ?rspss" using each len by (intro nth_equalityI) auto
  moreover have "list_all2 (\<lambda>(a, msgs) rsps. task_session (?V a) msgs rsps \<and>
      task_view store P S' (player_of S a) = fold task_next msgs (?V a)) conns ?rspss"
    using each len by (auto simp: list_all2_conv_all_nth case_prod_beta)
  moreover have "task_view store P S' k = task_view store P S k" if "k \<notin> player_of S ` fst ` set conns" for k
    using jobs_okD(5) [OF gs(1), of k] that by (auto simp: job_of_def image_iff)
  ultimately show ?thesis by blast
qed

end

section \<open>Property\<close>

text \<open>
  C17: the task sessions of different players are independent. When clients who are logged in
  as different players send any sequences of queries and updates over their connections, then
  under every schedule, once no thread can go on, each client has got exactly the answers the
  sequence of its own requests gives on the progress it started with (a query lists exactly
  the tasks it has finished by then), that progress is stored, and the progress of all other
  players is unchanged.
\<close>

theorem concurrent_task_sessions_are_independent:
  fixes S S' :: "('addr, 'c) server"
  assumes "server_env R up store P wire_ok" and "db_connected up S" and "task_manager S = new_TaskDataManager"
    and "list_all (\<lambda>(a, msgs). logged_in S a \<and> list_all task_request msgs \<and>
      task_count (task_view store P S (player_of S a)) + sum_list (map adds_tasks msgs) \<le> n) conns"
    and "distinct (map (player_of S \<circ> fst) conns)" and "task_capacity wire_ok n"
    and "interleaves R (S, map (\<lambda>(a, msgs). connection_prog P a msgs) conns) (S', ts)" and "\<nexists>Y. thread_step R (S', ts) Y"
  shows "\<exists>rspss. ts = map Done rspss \<and>
    list_all2 (\<lambda>(a, msgs) rsps. task_session (task_view store P S (player_of S a)) msgs rsps \<and>
      task_view store P S' (player_of S a) = fold task_next msgs (task_view store P S (player_of S a))) conns rspss \<and>
    (\<forall>k. k \<notin> player_of S ` fst ` set conns \<longrightarrow> task_view store P S' k = task_view store P S k)"
  by (rule server_env.task_pool [OF assms])

text \<open>The player 7 finishes task 1 and asks for it while the player 8 finishes task 2.\<close>

definition task_conns :: "(nat \<times> CmdMessagePair list) list" where
  "task_conns = [(1, [(CMD_UPDATE_TASK, MTaskUpdateReq update_one), (CMD_QUERY_TASK, MTaskQueryReq \<lparr>tq_rpcid = 5\<rparr>)]),
     (2, [(CMD_UPDATE_TASK, MTaskUpdateReq update_two)])]"

theorem concurrent_task_sessions_are_independent_witness:
  "\<exists>S'. interleaves redis_ref (server_bound, map (\<lambda>(a, msgs). connection_prog protobuf_ref a msgs) task_conns)
      (S', [Done [(CMD_UPDATE_TASK, MTaskUpdateRsp (task_update_rsp update_one TASK_SUCCEED)),
          (CMD_QUERY_TASK, MTaskQueryRsp (task_query_rsp \<lparr>tq_rpcid = 5\<rparr> TASK_SUCCEED [1] (double_of_i32 3) (double_of_i32 4)))],
        Done [(CMD_UPDATE_TASK, MTaskUpdateRsp (task_update_rsp update_two TASK_SUCCEED))]]) \<and>
    task_view (\<lambda>m. m) protobuf_ref S' 7 = Some ([1 \<mapsto> FINISH], 3, 4) \<and> task_view (\<lambda>m. m) protobuf_ref S' 8 = Some ([2 \<mapsto> FINISH], 5, 6)"
proof -
  obtain S' ts where run: "interleaves redis_ref (server_bound, map (\<lambda>(a, msgs). connection_prog protobuf_ref a msgs) task_conns) (S', ts)"
      "\<nexists>Z. thread_step redis_ref (S', ts) Z"
    using pool_ends [of redis_ref] by (metis surj_pair)
  have players: "player_of server_bound 1 = 7" "player_of server_bound (Suc 0) = 7" "player_of server_bound 2 = 8"
      "logged_in server_bound 1" "logged_in server_bound 2"
    using server_two_simps(3,4,5) by (simp_all add: player_of_def logged_in_def server_bound_def player_def)
  have start: "db_connected (\<lambda>_. True) server_bound" "task_manager server_bound = new_TaskDataManager"
    using server_two_simps(1,2) by (simp_all add: server_bound_def db_connected_def)
  have none: "task_view (\<lambda>m. m) protobuf_ref server_bound gid = None" for gid
    by (simp add: task_view_def db_def server_bound_def server_two_def server0_def)
  have ranges: "in_range update_one" "in_range update_two" "pos (tu_position_x update_one) = 3" "pos (tu_position_y update_one) = 4"
      "pos (tu_position_x update_two) = 5" "pos (tu_position_y update_two) = 6"
    using update_positions by (simp_all add: in_range_def pos_def update_one_def update_two_def)
  have one: "update_progress (finished_task_ids update_one) 3 4 None = ([1 \<mapsto> FINISH], 3, 4)"
      "update_progress (finished_task_ids update_two) 5 6 None = ([2 \<mapsto> FINISH], 5, 6)"
    by (auto simp: update_progress_def update_one_def update_two_def fun_eq_iff)
  have "list_all (\<lambda>(a, msgs). logged_in server_bound a \<and> list_all task_request msgs \<and>
      task_count (task_view (\<lambda>m. m) protobuf_ref server_bound (player_of server_bound a)) + sum_list (map adds_tasks msgs) \<le> 100) task_conns"
      "distinct (map (player_of server_bound \<circ> fst) task_conns)"
    using players ranges by (simp_all add: task_conns_def task_request_def none task_count_def adds_tasks_def update_one_def update_two_def)
  from concurrent_task_sessions_are_independent [OF env_ref_laws start this task_capacity_ref run]
  obtain rsp1 rsp2 where "ts = map Done [rsp1, rsp2]"
      "task_session None (snd (task_conns ! 0)) rsp1" "task_session None (snd (task_conns ! 1)) rsp2"
      "task_view (\<lambda>m. m) protobuf_ref S' 7 = Some ([1 \<mapsto> FINISH], 3, 4)"
      "task_view (\<lambda>m. m) protobuf_ref S' 8 = Some ([2 \<mapsto> FINISH], 5, 6)"
    by (auto simp: task_conns_def list_all2_Cons1 none players task_next_def ranges one)
  moreover from this(3) have "rsp2 = [(CMD_UPDATE_TASK, MTaskUpdateRsp (task_update_rsp update_two TASK_SUCCEED))]"
    by (cases rsp2) (auto simp: task_conns_def task_answer_def prod_eq_iff split: list.splits)
  moreover have "rsp1 = [(CMD_UPDATE_TASK, MTaskUpdateRsp (task_update_rsp update_one TASK_SUCCEED)),
      (CMD_QUERY_TASK, MTaskQueryRsp (task_query_rsp \<lparr>tq_rpcid = 5\<rparr> TASK_SUCCEED [1] (double_of_i32 3) (double_of_i32 4)))]"
  proof -
    have "ids = [1]" if "distinct ids" "set ids = {i. [1 \<mapsto> FINISH] i = Some FINISH}" for ids :: "i32 list"
    proof -
      have "set ids = {1}" using that(2) by auto
      with that(1) show ?thesis by (cases ids; cases "tl ids") auto
    qed
    then show ?thesis
      using \<open>task_session None (snd (task_conns ! 0)) rsp1\<close> ranges one
      by (cases rsp1; cases "tl rsp1")
        (auto simp: task_conns_def task_answer_def task_next_def query_answer_def prod_eq_iff split: list.splits)
  qed
  ultimately show ?thesis using run(1) by (intro exI [of _ S']) simp
qed

end
