(* ===== verification/Spec2Isabelle.thy ===== *)
theory Spec2Isabelle
  imports Robustness Doc_Examples Chunked_Decoding Connections Service_Errors
    Concurrent_Ids Concurrent_Accounts Task_Sessions
begin

text \<open>
  \<^bold>\<open>littleB\<close> is a C++ server framework on wangle and folly with one server built on it, the
  minigame server. A client sends frames (two bytes length, two bytes command id, a protobuf
  message, little-endian); a pipeline of handlers per connection cuts the stream into frames,
  reads the command id, parses the message, attaches the role of the client and runs the
  service registered for the command; the response takes the way back. Services keep
  accounts, roles and task progress in redis. This development models the whole path from the
  bytes on the socket to the keys in redis and back.

  \<^bold>\<open>Parts, theories and sources\<close> (paths under \<open>src/\<close>).

  \<^item> \<open>LB_Prelude\<close>: errors a C++ call can end with, state-and-error computations (\<open>action\<close>),
    what a computation keeps (\<open>keeps\<close>), C strings, decimal numbers, byte orders.
  \<^item> \<open>Folly_IO\<close>: the operations of \<open>folly::IOBuf\<close>, \<open>IOBufQueue\<close> and cursors as the fields of
    the record \<open>folly\<close>, with their documented laws as the locale \<open>folly_io\<close>; folly is a
    submodule, so it is an argument of every handler model. A chain of buffers is a list of
    strings, because the sources use operations that see the first buffer only.
  \<^item> \<open>Frame_Decoder\<close>: \<open>libsrc/handlers/LengthFieldBasedFrameDecoder\<close> at its machine widths
    (\<open>new_LengthFieldBasedFrameDecoder\<close>, \<open>decode\<close>, \<open>getUnadjustedFrameLength\<close>) and the
    behaviour its class comment documents (\<open>decode_spec\<close>). \<open>Frame_Prepender\<close>:
    \<open>libsrc/handlers/LengthFieldPrepender\<close>. \<open>Frame_Codec\<close>: the two together, as an
    interpretation of the locale \<open>frame_codec\<close>. \<open>Doc_Examples\<close>: the worked examples of both
    class comments. \<open>Chunked_Decoding\<close>: the decoder on a stream that arrives in pieces
    (\<open>decode_all\<close> calls \<open>decode\<close> until it stops, \<open>feed\<close> does so for every piece), with the
    locale \<open>incremental_decoder\<close>.
  \<^item> \<open>Opcode_Handler\<close>: \<open>libsrc/handlers/opcode_inject_handler\<close> and \<open>libsrc/common_def.h\<close>.
  \<^item> \<open>Messages\<close>: the schemas of \<open>libsrc/proto\<close> and \<open>minigame_server/proto\<close> as records, the
    polymorphic message as a datatype, the conversions between \<open>double\<close> and \<open>int32\<close>, and the
    generated code as the record \<open>protobuf\<close> with the locale \<open>protobuf_wire\<close>. \<open>Messages_Ref\<close>: an
    executable wire format that satisfies the laws.
  \<^item> \<open>Redis\<close>: \<open>libsrc/sync_redis_wrapper\<close> over the record \<open>hiredis\<close>; the locale \<open>redis_server\<close>
    says what get, set and incr do on a server that is up; an in-memory instance.
  \<^item> \<open>Tables\<close>: the two contracts of the managers, a table insertion never overwrites
    (\<open>insert_table\<close>) and a table kept in the database (\<open>persistent_table\<close>).
  \<^item> \<open>Server_State\<close>: the state the objects of \<open>main\<close> share (connection, role table, heap of
    role objects behind the shared pointers, task manager), the environment \<open>server_env\<close> of
    redis and protobuf, and invariants of that state (\<open>server_inv\<close>).
  \<^item> \<open>Role_Manager\<close>: \<open>libsrc/data_manager/roleinfo_manager\<close>. \<open>Task_Manager\<close>:
    \<open>minigame_server/data_manager/task_data_manager\<close>. \<open>Command_Registry\<close>:
    \<open>libsrc/data_manager/command_manager\<close>, \<open>pb_reflection_manager\<close>, the interfaces of
    \<open>libsrc/service_interface.h\<close> as records of types, casts and \<open>operator()\<close>, and the
    templates of \<open>libsrc/register_helper.h\<close> over them. \<open>Service_Classes\<close>: the five service
    classes as instances of the interface.
  \<^item> \<open>Login_Services\<close>: \<open>libsrc/login_service\<close>, with the abstract account database
    \<open>accounts\<close> it implements. \<open>Task_Services\<close>: \<open>minigame_server/service\<close>, which implements a
    map from player ids to progress.
  \<^item> \<open>Handlers\<close>: \<open>libsrc/handlers/cmd_message_serialize_handler\<close>, \<open>role_inject_handler\<close> and
    \<open>command_dispatcher\<close>. A handler is a function of its \<open>Context\<close>, the continuations wangle
    gives it; what reaches the ends of the pipeline is the \<open>trace\<close> of the connection. The
    future of an asynchronous service (\<open>Future\<close>) is ready, failed or pending when the
    distributor attaches its continuation: ready ones are answered at once, pending ones by
    \<open>future_ready\<close>.
  \<^item> \<open>Server\<close>: \<open>minigame_server/minigame_sever_main.cpp\<close>: \<open>newPipeline\<close> of the factory ties
    the contexts together in the order of the source, \<open>register_services\<close>,
    \<open>prepareAndCheck\<close>, \<open>prototest\<close> and \<open>main_boot\<close> are what \<open>main\<close> does before it listens,
    \<open>main_server\<close> hands the factory to the bootstrap, and \<open>serve\<close> drives the decoder over the
    input queue of a connection.
  \<^item> \<open>Robustness\<close>: which errors a frame can end with. \<open>Wire_Session\<close>: conversations in bytes.
    \<open>Response_Types\<close>: the types of what the server sends.
  \<^item> \<open>Connections\<close>: the running server as a transition system (\<open>run_step\<close>: a client connects,
    bytes arrive, a future completes, a client goes away), reachability and its invariants.
  \<^item> \<open>Threads\<close>: the bootstrap runs its pipelines on a pool of IO threads. A thread is a program
    (\<open>prog\<close>) of atomic sections, each a redis command, as the mutex of the wrapper makes it, or
    an access to the shared objects, as the mutex of the role table makes \<open>AddRole\<close>; \<open>thread_step\<close>
    interleaves a pool of them. \<open>safe\<close> is the proof principle for pools: a ghost value per
    thread and a relation between the ghosts and the shared state that every section keeps.
    \<open>Service_Programs\<close>: managers and services as such programs. \<open>Requests\<close>: what the pipeline does
    with a parsed message, from \<open>RoleInjectHandler::read\<close> to the response, as one program (\<open>request_prog\<close>),
    and with the outbound handlers behind it (\<open>answer_prog\<close>); a connection is the sequence of
    such programs for the messages it sends, ending with the responses (\<open>connection_prog\<close>)
    or with the frames that are written (\<open>serving_prog\<close>).
  \<^item> \<open>Concurrent_Requests\<close>, \<open>Concurrent_Answers\<close>, \<open>Concurrent_Ids\<close>: pools of connections with any
    sequences of requests; the ghosts are the role objects a thread may use, the counter
    values it may still take, and the player ids it has drawn. \<open>Concurrent_Accounts\<close>: registrations, over the abstract
    machine they implement (\<open>phase_step\<close>). \<open>Concurrent_Tasks\<close>: task updates of one player.
    \<open>Task_Sessions\<close>: connections of different players that query and update, against the
    specification of one player's session (\<open>task_session\<close>).
  \<^item> \<open>Service_Errors\<close>: the services when redis refuses a command or an entry is damaged.

  \<^bold>\<open>What is shown.\<close> The frame decoder implements its documentation for every supported
  configuration as long as the length fits 64 bits, makes progress, bounds its frames and never revises a decision when more
  bytes arrive; the prepender implements its documentation and the decoder undoes it, also on
  streams cut anywhere; both do what the examples in their comments show, except for 3-byte
  length fields; feeding the decoder a stream in pieces is equivalent to decoding it at
  once; the limits of both are exhibited. The managers keep the pointers of
  the role table valid and unshared, keep the two command tables in step and keep what is
  pushed. The account services implement the abstract account database for every sequence of
  requests, so a registered account stays usable and unique player ids stay unique; the task services
  return exactly what was updated. The pipeline drops unknown commands, answers every
  synchronous command once, and an asynchronous one when its future is ready; no frame
  reaches an assertion, a bad cast or a null pointer, and the exceptions a frame can end with
  are listed; conversations in bytes
  implement the account database; every response has the type registered for its command. In
  every state the running server reaches, over any sequence of events of any number of
  connections, the shared objects satisfy their invariants.
  The program of a request is equivalent to the path of its frame through the pipeline when
  it runs alone, so what is shown of pools of programs is about the same code: under every
  schedule of any number of connections no connection touches the role of another one, every
  request takes at most ten sections and is answered by a frame under its command and with
  its type of response, and concurrent logins and registrations give two accounts one
  player id only where an id was stored that the counter had not given out;
  registrations of different names are linearizable, and players who work on their tasks at
  the same time each get the answers of a server of their own. Theorems also pin down behaviour that is hardly intended:
  a login with a wrong password binds the account's role to the client, an address once bound
  stays bound, erasing a role leaves the stored one, the id of the built-in account is given
  out twice, buffers behind the first one of a frame are ignored, an oversized frame that arrives in
  pieces loses the framing, a frame without a command id throws out of the pipeline, an 8-byte length
  field can wrap, two concurrent registrations of one account both succeed, a
  concurrent update of task progress is lost, a registration that fails half-way blocks its
  account, damaged progress is used without a word, deep negative length
  adjustments reject every frame, and the longest frame the prepender writes is refused by
  the decoder.

  \<^bold>\<open>Assumptions.\<close> The laws of folly, redis and protobuf are locale assumptions that are
  discharged for executable instances (\<open>folly_ref\<close>, \<open>redis_ref\<close>, \<open>protobuf_ref\<close>), which the
  witnesses use. Numbers keep their C++ width; the bounds in hypotheses are the widths of the
  counter (\<open>2 ^ 63\<close> in redis, \<open>2 ^ 31\<close> in a role) and of the length field. There is no fuel:
  loops over lists are structural, \<open>decode_all\<close> recurses on a measure every call decreases,
  driving the decoder in a pipeline is an inductive relation whose steps shorten the input,
  and the program of a thread is a well-founded tree.

  \<^bold>\<open>Not modelled.\<close> What a data race does in C++: \<open>GetRole\<close> reads the role table without the
  mutex an insertion takes; it is a single section of the thread model, which is the behaviour
  of a run in which the two do not overlap (role objects are not shared between connections, so
  no other access races). Threads and the transition system of \<open>Connections\<close> are separate models: there an
  event is handled to its end before the next one, here the requests are already parsed.
  What wangle does with an exception that leaves a handler: no handler catches any,
  so the transition system has no step after one. wangle and folly themselves, sockets,
  logging, freeing of memory, the unsafe \<open>snprintf\<close> in \<open>RedisCommand\<close>, and the test programs
  and example headers. What the map of the sources does not cover of the modelled files is
  licence headers, includes, comments and the declarations of members that are modelled
  where they are defined.
\<close>

section \<open>Properties across components\<close>

text \<open>
  C1: the server is an account database on the wire. On a booted server, for every
  conversation of register and login requests, each sent as the bytes of one frame in one
  buffer, the pipeline answers each request with exactly one frame, in order; the bytes are
  those of the abstract account database's responses under the request's command id plus
  one, and the database holds the abstract accounts afterwards.
\<close>

theorem wire_session_refines_accounts:
  assumes "server_env R up store P wire_ok" and "folly_io_contiguous F" and "register_services R P = Inr m"
    and "newPipeline F P R (new_LittleBPipelineFactory m) addr = Inr L" and "account_rel up store P (shared w) A" and "accounts_ok wire_ok A"
    and "list_all (op_sendable P wire_ok) ops" and "acc_gid A + int (length ops) < 2 ^ 63"
    and "list_all (reply_fits P) (fst (spec_calls ops A))"
  shows "\<exists>w' bs. session F L (map (\<lambda>op. request_bytes P (op_cmd op) (op_msg op)) ops) w w' \<and>
    trace w' = trace w @ map Wrote bs \<and>
    map concat bs = map2 (\<lambda>op rsp. reply_bytes P (op_cmd op) rsp) ops (fst (spec_calls ops A)) \<and>
    account_rel up store P (shared w') (snd (spec_calls ops A))"
  by (rule server_env.session_ops [OF assms])

text \<open>
  C23: a wrong password logs in. When a client that is not logged in sends a login for an
  existing account with a wrong password, the response says that the password is wrong, but
  the client's address is bound to a role object that holds the account's role, which is
  what every later request of the client runs with.
\<close>

theorem wrong_password_binds_role:
  assumes "server_env R up store P wire_ok" and "folly_io F" and "register_services R P = Inr m"
    and "newPipeline F P R (new_LittleBPipelineFactory m) addr = Inr L" and "wire_ok (MLoginReq q)" and "db_connected up (shared w)"
    and "db store (shared w) (''__password_'' @ c_str (lq_account q)) = Some pw" and "lq_password q \<noteq> c_str pw"
    and "role_view store P (shared w) (c_str (lq_account q)) = Some r" and "roles (shared w) addr = None"
    and "reply_fits P (MLoginRsp (login_rsp q LOGIN_PASSWORD_WRONG False))"
  shows "\<exists>w' b p. deliver L [request_body P CMD_LOGIN (MLoginReq q)] w = (Inr (), w') \<and>
    trace w' = trace w @ [Wrote b] \<and>
    concat b = reply_bytes P CMD_LOGIN (MLoginRsp (login_rsp q LOGIN_PASSWORD_WRONG False)) \<and>
    roles (shared w') addr = Some p \<and> p < length (role_heap (shared w')) \<and> role_heap (shared w') ! p = r"
  by (rule server_env.login_binds [OF assms])

text \<open>
  C30: the server starts. When redis accepts the connection and its player counter is a
  number, \<open>main\<close> passes its checks and registers the five services, whatever is in the
  database; the account \<open>hello\<close> then has the password \<open>world\<close> and the fixed role, even if
  it was registered differently, and the account \<open>2\<close> exists, with its old password if it
  had one.
\<close>

theorem main_boot_succeeds:
  assumes "server_env R up store P wire_ok" and "redisConnectWithTimeout R ''127.0.0.1'' 6379 (1, 500000) = Some c" and "up c"
    and "counts (store c ''gid'') n" and "0 \<le> n" and "n + 1 < 2 ^ 63"
    and "wire_ok (MRoleInfo hello_role)" and "name_ok wire_ok ''2''"
  shows "\<exists>m S'. main_boot R P S = (Inr m, S') \<and> register_services R P = Inr m \<and> db_connected up S' \<and> same_roles S S' \<and>
    db store S' ''__password_hello'' = Some ''world'' \<and> role_view store P S' ''hello'' = Some hello_role \<and>
    (store c ''__password_2'' = None \<longrightarrow> db store S' ''__password_2'' = Some ''2'') \<and>
    (store c ''__password_2'' \<noteq> None \<longrightarrow> db store S' ''__password_2'' = store c ''__password_2'')"
  by (rule server_env.main_boot_eq [OF assms])

text \<open>
  C38: the id of the account \<open>hello\<close> is handed out a second time. \<open>main\<close> gives that account
  the fixed player id 31 without telling the counter, so the registration that moves the
  counter to 31 succeeds and gives a second account the same id, and with it the same task
  progress.
\<close>

theorem hello_id_is_given_twice:
  assumes "server_env R up store P wire_ok" and "account_rel up store P S A" and "acc_role A ''hello'' = Some hello_role"
    and "acc_gid A = 30" and "acc_password A (c_str (rq_account q)) = None" and "c_str (rq_account q) \<noteq> ''hello''"
    and "name_ok wire_ok (rq_account q)"
  shows "\<exists>S' r. MinigameRegisterService R P role q S = (Inr (register_rsp q REGISTER_SUCCEED), S') \<and>
    role_view store P S' (c_str (rq_account q)) = Some r \<and> role_view store P S' ''hello'' = Some hello_role \<and>
    player_id (basic_info r) = player_id (basic_info hello_role)"
  by (rule server_env.hello_id_again [OF assms])

section \<open>Witnesses\<close>

lemma bob_sendable: "op_sendable protobuf_ref wire_ok_ref (Register register_bob)" "op_sendable protobuf_ref wire_ok_ref (Login login_bob)"
  by (simp_all add: op_sendable_def account_examples request_body_def protobuf_ref_def codec_eval)

theorem wire_session_refines_accounts_witness:
  "\<exists>m L w' bs. register_services redis_ref protobuf_ref = Inr m \<and> newPipeline folly_ref protobuf_ref redis_ref (new_LittleBPipelineFactory m) 5 = Inr L \<and>
     session folly_ref L [request_bytes protobuf_ref CMD_REGISTER (MRegisterReq register_bob),
       request_bytes protobuf_ref CMD_LOGIN (MLoginReq login_bob)] empty_world w' \<and>
     trace w' = map Wrote bs \<and>
     map concat bs = [reply_bytes protobuf_ref CMD_REGISTER (MRegisterRsp (register_rsp register_bob REGISTER_SUCCEED)),
       reply_bytes protobuf_ref CMD_LOGIN (MLoginRsp (login_rsp login_bob LOGIN_SUCCEED False))]"
proof (rule pipeline_exists [of redis_ref protobuf_ref folly_ref 5])
  fix m :: "(role_ptr, (nat, string \<Rightarrow> string option) server, nat) managers" and L
  assume m: "register_services redis_ref protobuf_ref = Inr m" "newPipeline folly_ref protobuf_ref redis_ref (new_LittleBPipelineFactory m) 5 = Inr L"
  have rel: "account_rel (\<lambda>_. True) (\<lambda>m. m) protobuf_ref (shared empty_world) accounts0"
    using account_rel0 by (simp add: empty_world_def)
  have spec: "fst (spec_calls [Register register_bob, Login login_bob] accounts0) =
      [MRegisterRsp (register_rsp register_bob REGISTER_SUCCEED), MLoginRsp (login_rsp login_bob LOGIN_SUCCEED False)]"
    by (simp add: account_examples spec_call_def register_spec_def login_spec_def c_str_def Let_def)
  show ?thesis
    using wire_session_refines_accounts [OF env_ref_laws folly_ref_laws(2) m rel accounts_ok0,
        of "[Register register_bob, Login login_bob]"] bob_sendable spec m
    by (fastforce simp: accounts0_def empty_world_def)
qed

text \<open>Bob's account and the login of somebody who does not know its password.\<close>

definition bob_role :: RoleInfo where
  "bob_role = new_role 1 ''bob''"

definition world_bob :: "(nat, string \<Rightarrow> string option, nat) world" where
  "world_bob = \<lparr>shared = server0\<lparr>redis_ptr := Some [''__password_bob'' \<mapsto> ''pw'',
     ''__role_bob'' \<mapsto> SerializeToString protobuf_ref (MRoleInfo bob_role)]\<rparr>, trace = [], pending = []\<rparr>"

definition guess :: LoginReq where
  "guess = \<lparr>lq_rpcid = 1, lq_account = ''bob'', lq_password = ''guess''\<rparr>"

theorem wrong_password_binds_role_witness:
  "\<exists>m L w' p. register_services redis_ref protobuf_ref = Inr m \<and> newPipeline folly_ref protobuf_ref redis_ref (new_LittleBPipelineFactory m) 5 = Inr L \<and>
     deliver L [request_body protobuf_ref CMD_LOGIN (MLoginReq guess)] world_bob = (Inr (), w') \<and>
     roles (shared w') 5 = Some p \<and> role_heap (shared w') ! p = bob_role"
proof (rule pipeline_exists [of redis_ref protobuf_ref folly_ref 5])
  fix m :: "(role_ptr, (nat, string \<Rightarrow> string option) server, nat) managers" and L
  assume m: "register_services redis_ref protobuf_ref = Inr m" "newPipeline folly_ref protobuf_ref redis_ref (new_LittleBPipelineFactory m) 5 = Inr L"
  have acc: "c_str (lq_account guess) = ''bob''" by (simp add: guess_def c_str_def)
  have "ParseFromArray protobuf_ref TRoleInfo (SerializeToString protobuf_ref (MRoleInfo bob_role)) = (True, MRoleInfo bob_role)"
    by (rule pref.roundtrip_role) (simp add: bob_role_def)
  then have "role_view (\<lambda>m. m) protobuf_ref (shared world_bob) (c_str (lq_account guess)) = Some bob_role"
    unfolding acc by (simp add: role_view_def world_bob_def db_def as_RoleInfo_def)
  moreover have "db (\<lambda>m. m) (shared world_bob) (''__password_'' @ c_str (lq_account guess)) = Some ''pw''"
      "db_connected (\<lambda>_. True) (shared world_bob)" "roles (shared world_bob) 5 = None"
    unfolding acc by (simp_all add: world_bob_def db_def server0_def db_connected_def)
  moreover have "lq_password guess \<noteq> c_str ''pw''" "wire_ok_ref (MLoginReq guess)"
    by (simp_all add: guess_def c_str_def)
  ultimately show ?thesis
    using wrong_password_binds_role [OF env_ref_laws folly_ref_laws(1) m, of guess world_bob "''pw''" bob_role] m
    by (metis login_register_fit(1))
qed

theorem main_boot_succeeds_witness:
  "\<exists>(m :: (role_ptr, (nat, string \<Rightarrow> string option) server, nat) managers) S'.
     main_boot redis_ref protobuf_ref server0 = (Inr m, S') \<and> db (\<lambda>m. m) S' ''__password_2'' = Some ''2''"
proof -
  have "redisConnectWithTimeout redis_ref ''127.0.0.1'' 6379 (1, 500000) = Some Map.empty"
    by (simp add: redis_ref_def)
  moreover have "counts (Map.empty ''gid'') 0" by (simp add: counts_def)
  moreover have "wire_ok_ref (MRoleInfo hello_role)"
    by (simp add: hello_role_def mutable_progress_def mutable_basic_info_def basic_info_def)
  moreover have "name_ok wire_ok_ref ''2''" by (rule name_ok_ref) simp
  ultimately show ?thesis
    using main_boot_succeeds [OF env_ref_laws, of "Map.empty" 0 server0] by fastforce
qed

text \<open>A database with the account \<open>hello\<close> whose counter is at 30.\<close>

definition server_30 :: "(nat, string \<Rightarrow> string option) server" where
  "server_30 = server0\<lparr>redis_ptr := Some [''gid'' \<mapsto> to_string 30,
     ''__role_hello'' \<mapsto> SerializeToString protobuf_ref (MRoleInfo hello_role)]\<rparr>"

theorem hello_id_is_given_twice_witness:
  "\<exists>S' r. MinigameRegisterService redis_ref protobuf_ref () register_bob server_30
      = (Inr (register_rsp register_bob REGISTER_SUCCEED), S') \<and>
    role_view (\<lambda>m. m) protobuf_ref S' ''bob'' = Some r \<and> player_id (basic_info r) = player_id (basic_info hello_role)"
proof -
  let ?A = "\<lparr>acc_password = (\<lambda>k. db (\<lambda>m. m) server_30 (''__password_'' @ k)),
    acc_role = role_view (\<lambda>m. m) protobuf_ref server_30, acc_gid = 30\<rparr>"
  have rel: "account_rel (\<lambda>_. True) (\<lambda>m. m) protobuf_ref server_30 ?A"
    by (rule env_ref.account_rel_db) (simp_all add: server_30_def db_connected_def db_def counts_def)
  have "ParseFromArray protobuf_ref TRoleInfo (SerializeToString protobuf_ref (MRoleInfo hello_role)) = (True, MRoleInfo hello_role)"
    by (rule pref.roundtrip_role) (simp add: hello_role_def mutable_progress_def mutable_basic_info_def basic_info_def)
  then have "acc_role ?A ''hello'' = Some hello_role"
    by (simp add: role_view_def server_30_def db_def as_RoleInfo_def)
  moreover have "acc_password ?A (c_str (rq_account register_bob)) = None" "name_ok wire_ok_ref (rq_account register_bob)"
      "c_str (rq_account register_bob) = ''bob''"
    by (simp_all add: server_30_def db_def account_examples c_str_def)
  ultimately show ?thesis
    using hello_id_is_given_twice [OF env_ref_laws rel, of register_bob "()"] by auto
qed

end
